(* ===== verification/Prelude.thy ===== *)
theory Prelude
  imports
    Complex_Main
    "HOL-Library.AList"
    "HOL-Library.Char_ord"
    "HOL-Library.List_Lexorder"
    "HOL-Library.Product_Lexorder"
    "HOL-Library.Multiset"
begin

text \<open>
  Shared vocabulary of the development: the named fact collections that carry the component
  proofs, Python dictionaries as association lists in insertion order, SQL statements over tables
  held as lists of rows (\<open>SELECT\<close>, \<open>UPDATE\<close>, \<open>DELETE\<close>, \<open>INSERT\<close> with SQLite's row id
  choice), decimal formatting, and the generic lemmas about them.
\<close>

named_theorems frame_simps \<open>which fields of the world an operation leaves unchanged\<close>
named_theorems op_defs \<open>definitions unfolded when an operation is executed symbolically\<close>

section \<open>Python dictionaries in insertion order\<close>

text \<open>\<open>{key(x): x for x in xs}\<close>: a later duplicate overwrites the value in place.\<close>

definition dict_by :: "('a \<Rightarrow> 'k) \<Rightarrow> 'a list \<Rightarrow> ('k \<times> 'a) list" where
  "dict_by key xs = fold (\<lambda>x d. AList.update (key x) x d) xs []"

lemma fold_update_distinct:
  "distinct (map fst d @ map key xs) \<Longrightarrow>
   fold (\<lambda>x d. AList.update (key x) x d) xs d = d @ map (\<lambda>x. (key x, x)) xs"
proof (induction xs arbitrary: d)
  case Nil
  then show ?case by simp
next
  case (Cons x xs)
  have new: "key x \<notin> fst ` set d" using Cons.prems by auto
  then have "AList.update (key x) x d = d @ [(key x, x)]"
    by (induction d) auto
  moreover have "distinct (map fst (d @ [(key x, x)]) @ map key xs)"
    using Cons.prems by auto
  ultimately show ?case using Cons.IH [of "d @ [(key x, x)]"] by simp
qed

lemma dict_by_distinct:
  "distinct (map key xs) \<Longrightarrow> dict_by key xs = map (\<lambda>x. (key x, x)) xs"
  using fold_update_distinct [of "[]" key xs] by (simp add: dict_by_def)

lemma map_of_map_key:
  "distinct (map key xs) \<Longrightarrow> map_of (map (\<lambda>x. (key x, x)) xs) k = find (\<lambda>x. key x = k) xs"
  by (induction xs) auto

section \<open>Tables as lists of rows\<close>

definition update_where :: "('r \<Rightarrow> bool) \<Rightarrow> ('r \<Rightarrow> 'r) \<Rightarrow> 'r list \<Rightarrow> 'r list" where
  "update_where P f rows = map (\<lambda>r. if P r then f r else r) rows"

definition delete_where :: "('r \<Rightarrow> bool) \<Rightarrow> 'r list \<Rightarrow> 'r list" where
  "delete_where P rows = filter (\<lambda>r. \<not> P r) rows"

definition select_where :: "('r \<Rightarrow> bool) \<Rightarrow> 'r list \<Rightarrow> 'r list" where
  "select_where P rows = filter P rows"

definition count_where :: "('r \<Rightarrow> bool) \<Rightarrow> 'r list \<Rightarrow> int" where
  "count_where P rows = int (length (filter P rows))"

definition get_by :: "('r \<Rightarrow> 'k) \<Rightarrow> 'k \<Rightarrow> 'r list \<Rightarrow> 'r option" where
  "get_by key k rows = find (\<lambda>r. key r = k) rows"

text \<open>
  SQLite gives a new row of a table with an \<open>INTEGER PRIMARY KEY\<close> that is not declared
  \<open>AUTOINCREMENT\<close> the largest row id in the table plus one, and 1 in an empty table.
\<close>

definition next_rowid :: "('r \<Rightarrow> int) \<Rightarrow> 'r list \<Rightarrow> int" where
  "next_rowid key rows = fold (\<lambda>r m. max (key r) m) rows 0 + 1"

lemma fold_max_ge: "m \<le> fold (\<lambda>r m. max (key r) m) rows (m::int)"
proof (induction rows arbitrary: m)
  case (Cons r rows)
  have "m \<le> max (key r) m" by simp
  also have "\<dots> \<le> fold (\<lambda>r m. max (key r) m) rows (max (key r) m)" by (rule Cons.IH)
  finally show ?case by simp
qed simp

lemma fold_max_upper: "r \<in> set rows \<Longrightarrow> key r \<le> fold (\<lambda>r m. max (key r) m) rows (m::int)"
proof (induction rows arbitrary: m)
  case (Cons x rows)
  then show ?case
    using fold_max_ge [of "max (key x) m" key rows] by auto
qed simp

lemma next_rowid_fresh: "r \<in> set rows \<Longrightarrow> key r < next_rowid key rows"
  using fold_max_upper [of r rows key 0] by (simp add: next_rowid_def)

lemma next_rowid_notin [simp]: "next_rowid key rows \<notin> key ` set rows"
  using next_rowid_fresh [of _ rows key] by force

lemma update_where_Nil [simp]: "update_where P f [] = []"
  by (simp add: update_where_def)

lemma map_update_where:
  "(\<And>r. P r \<Longrightarrow> key (f r) = key r) \<Longrightarrow> map key (update_where P f rows) = map key rows"
  by (induction rows) (auto simp: update_where_def)

lemma length_update_where [simp]: "length (update_where P f rows) = length rows"
  by (simp add: update_where_def)

lemma set_delete_where [simp]: "set (delete_where P rows) = {r \<in> set rows. \<not> P r}"
  by (auto simp: delete_where_def)

lemma distinct_map_delete_where:
  "distinct (map key rows) \<Longrightarrow> distinct (map key (delete_where P rows))"
  by (induction rows) (auto simp: delete_where_def)

lemma get_by_Some_in: "get_by key k rows = Some r \<Longrightarrow> r \<in> set rows \<and> key r = k"
  by (auto simp: get_by_def find_Some_iff)

lemma get_by_None_iff: "get_by key k rows = None \<longleftrightarrow> k \<notin> key ` set rows"
  by (auto simp: get_by_def find_None_iff)

lemma get_by_distinct:
  "distinct (map key rows) \<Longrightarrow> r \<in> set rows \<Longrightarrow> get_by key (key r) rows = Some r"
  by (induction rows) (auto simp: get_by_def)

lemma get_by_update_where:
  assumes "\<And>r. key (f r) = key r"
  shows "get_by key k (update_where (\<lambda>r. key r = j) f rows) =
         (if k = j then map_option f (get_by key k rows) else get_by key k rows)"
  using assms by (induction rows) (auto simp: get_by_def update_where_def)

lemma get_by_append_new:
  "k \<notin> key ` set rows \<Longrightarrow> get_by key k (rows @ [r]) = (if key r = k then Some r else None)"
  by (induction rows) (auto simp: get_by_def)

lemma count_where_nonneg [simp]: "0 \<le> count_where P rows"
  by (simp add: count_where_def)

lemma count_where_append: "count_where P (xs @ ys) = count_where P xs + count_where P ys"
  by (simp add: count_where_def)

lemma count_where_Cons:
  "count_where P (x # xs) = (if P x then 1 else 0) + count_where P xs"
  by (simp add: count_where_def)

lemma count_where_Nil [simp]: "count_where P [] = 0"
  by (simp add: count_where_def)

lemma count_where_mono:
  "(\<And>r. r \<in> set rows \<Longrightarrow> P r \<Longrightarrow> Q r) \<Longrightarrow> count_where P rows \<le> count_where Q rows"
  by (induction rows) (auto simp: count_where_Cons)

lemma count_where_delete_where:
  "count_where P (delete_where Q rows) = count_where (\<lambda>r. P r \<and> \<not> Q r) rows"
  by (induction rows) (auto simp: delete_where_def count_where_Cons)

lemma count_where_cong:
  "(\<And>r. r \<in> set rows \<Longrightarrow> P r = Q r) \<Longrightarrow> count_where P rows = count_where Q rows"
  by (induction rows) (auto simp: count_where_Cons)

lemma count_where_remove1:
  "r \<in> set rows \<Longrightarrow> count_where P (remove1 r rows) = count_where P rows - (if P r then 1 else 0)"
  by (induction rows) (auto simp: count_where_Cons)

lemma count_where_pos: "r \<in> set rows \<Longrightarrow> P r \<Longrightarrow> 1 \<le> count_where P rows"
proof (induction rows)
  case (Cons x rows)
  then show ?case using count_where_nonneg [of P rows] by (auto simp: count_where_Cons)
qed simp

lemma delete_where_fresh:
  "(\<And>r. r \<in> set rows \<Longrightarrow> \<not> P r) \<Longrightarrow> P x \<Longrightarrow> delete_where P (rows @ [x]) = rows"
  by (simp add: delete_where_def)

lemma count_where_delete_le: "count_where P (delete_where Q rows) \<le> count_where P rows"
  by (auto simp: count_where_delete_where intro: count_where_mono)

section \<open>Transition systems and their invariants\<close>

locale invariant_system =
  fixes init :: "'s \<Rightarrow> bool" and step :: "'s \<Rightarrow> 's \<Rightarrow> bool" and inv :: "'s \<Rightarrow> bool"
  assumes inv_init: "init s \<Longrightarrow> inv s"
    and inv_step: "inv s \<Longrightarrow> step s t \<Longrightarrow> inv t"
begin

lemma inv_steps: "step\<^sup>*\<^sup>* s t \<Longrightarrow> inv s \<Longrightarrow> inv t"
  by (induction rule: rtranclp_induct) (auto intro: inv_step)

lemma inv_reachable: "init s \<Longrightarrow> step\<^sup>*\<^sup>* s t \<Longrightarrow> inv t"
  using inv_steps inv_init by blast

end

section \<open>Truthiness\<close>

text \<open>\<open>if x\<close> for \<open>x : int | None\<close> is false for \<open>None\<close> and for 0.\<close>

fun truthy_int :: "int option \<Rightarrow> bool" where
  "truthy_int None = False"
| "truthy_int (Some n) = (n \<noteq> 0)"

text \<open>\<open>x or ''\<close> for \<open>x : str | None\<close>, and \<open>x or None\<close> for a string.\<close>

definition str_or_empty :: "string option \<Rightarrow> string" where
  "str_or_empty s = (case s of None \<Rightarrow> [] | Some t \<Rightarrow> t)"

definition none_if_empty :: "string \<Rightarrow> string option" where
  "none_if_empty s = (if s = [] then None else Some s)"

text \<open>
  \<open>str.strip()\<close>: the characters it removes, restricted to the character codes below 256
  (\<open>str.isspace\<close> for Latin-1).
\<close>

definition is_space :: "char \<Rightarrow> bool" where
  "is_space c \<longleftrightarrow> (let n = of_char c :: nat in
     n = 32 \<or> (9 \<le> n \<and> n \<le> 13) \<or> (28 \<le> n \<and> n \<le> 31) \<or> n = 133 \<or> n = 160)"

definition strip :: "string \<Rightarrow> string" where
  "strip s = rev (dropWhile is_space (rev (dropWhile is_space s)))"

lemma length_strip: "length (strip s) \<le> length s"
proof -
  have "length (strip s) \<le> length (dropWhile is_space s)"
    unfolding strip_def by (metis length_dropWhile_le length_rev)
  then show ?thesis using length_dropWhile_le [of is_space s] by linarith
qed

section \<open>Decimal formatting\<close>

fun dec :: "nat \<Rightarrow> string" where
  "dec n = (if n < 10 then [char_of (48 + n)] else dec (n div 10) @ [char_of (48 + n mod 10)])"

declare dec.simps [simp del]

definition zpad :: "nat \<Rightarrow> string \<Rightarrow> string" where
  "zpad w s = replicate (w - length s) CHR ''0'' @ s"

definition digit_val :: "char \<Rightarrow> nat" where
  "digit_val c = of_char c - 48"

definition undec :: "string \<Rightarrow> nat" where
  "undec s = foldl (\<lambda>n c. n * 10 + digit_val c) 0 s"

lemma digit_val_char_of: "d < 10 \<Longrightarrow> digit_val (char_of (48 + d)) = d"
  by (simp add: digit_val_def)

lemma undec_dec: "undec (dec n) = n"
proof (induction n rule: dec.induct)
  case (1 n)
  show ?case
  proof (cases "n < 10")
    case True
    then show ?thesis
      by (subst dec.simps) (simp add: undec_def digit_val_char_of)
  next
    case False
    then have "undec (dec n) = undec (dec (n div 10)) * 10 + n mod 10"
      by (subst dec.simps) (simp add: undec_def digit_val_char_of)
    with False "1.IH" show ?thesis by simp
  qed
qed

lemma undec_zpad: "undec (zpad w s) = undec s"
proof -
  have z: "foldl (\<lambda>n c. n * 10 + digit_val c) 0 (replicate k CHR ''0'') = (0::nat)" for k
    by (induction k) (simp_all add: digit_val_def)
  show ?thesis by (simp add: undec_def zpad_def z)
qed

lemma dec_no_dash: "CHR ''-'' \<notin> set (dec n)"
proof (induction n rule: dec.induct)
  case (1 n)
  have dash: "char_of (48 + d) \<noteq> CHR ''-''" if "d < 10" for d :: nat
  proof
    assume "char_of (48 + d) = CHR ''-''"
    then have "of_char (char_of (48 + d)) = (of_char CHR ''-'' :: nat)" by simp
    with that show False by simp
  qed
  show ?case
  proof (cases "n < 10")
    case True
    then show ?thesis using dash [of n] by (subst dec.simps) auto
  next
    case False
    then show ?thesis using "1.IH" dash [of "n mod 10"] by (subst dec.simps) auto
  qed
qed

lemma zpad_no_dash: "CHR ''-'' \<notin> set (zpad w (dec n))"
  using dec_no_dash [of n] by (auto simp: zpad_def)

lemma zpad_dec_inject: "zpad w (dec m) = zpad w (dec n) \<longleftrightarrow> m = n"
  by (metis undec_dec undec_zpad)

lemma append_dash_inject:
  "CHR ''-'' \<notin> set a \<Longrightarrow> CHR ''-'' \<notin> set b \<Longrightarrow>
   a @ CHR ''-'' # x = b @ CHR ''-'' # y \<longleftrightarrow> a = b \<and> x = y"
proof (induction a arbitrary: b)
  case Nil
  then show ?case by (cases b) auto
next
  case (Cons c a)
  then show ?case by (cases b) auto
qed

end
