(* ===== verification/PyTime.thy ===== *)
theory PyTime
  imports Prelude
begin

text \<open>
  The part of Python's \<open>datetime\<close> the program uses. Every stored timestamp is a naive UTC
  \<open>datetime\<close>, here the number of microseconds since \<open>0001-01-01T00:00:00\<close>; a \<open>timedelta\<close>
  is a number of microseconds. The calendar functions follow CPython's \<open>datetime\<close> module
  (\<open>_ymd2ord\<close>, \<open>_ord2ymd\<close>). The main result is the round trip between ordinals and civil
  dates, from which the injectivity of the daily quota key follows.
\<close>

type_synonym datetime = int
type_synonym timedelta = int

definition usec_per_second :: int where "usec_per_second = 1000000"
definition usec_per_day :: int where "usec_per_day = 86400000000"

definition seconds_td :: "int \<Rightarrow> timedelta" where
  "seconds_td s = s * usec_per_second"

definition minutes_td :: "int \<Rightarrow> timedelta" where
  "minutes_td m = m * 60 * usec_per_second"

definition hours_td :: "int \<Rightarrow> timedelta" where
  "hours_td h = h * 3600 * usec_per_second"

lemma seconds_td_mono: "a \<le> b \<Longrightarrow> seconds_td a \<le> seconds_td b"
  by (simp add: seconds_td_def usec_per_second_def)

section \<open>The civil calendar\<close>

definition is_leap :: "int \<Rightarrow> bool" where
  "is_leap y \<longleftrightarrow> y mod 4 = 0 \<and> (y mod 100 \<noteq> 0 \<or> y mod 400 = 0)"

definition days_before_year :: "int \<Rightarrow> int" where
  "days_before_year year =
     (let y = year - 1 in y * 365 + y div 4 - y div 100 + y div 400)"

definition days_before_month_table :: "int list" where
  "days_before_month_table = [-1, 0, 31, 59, 90, 120, 151, 181, 212, 243, 273, 304, 334]"

definition days_in_month_table :: "int list" where
  "days_in_month_table = [-1, 31, 28, 31, 30, 31, 30, 31, 31, 30, 31, 30, 31]"

definition days_before_month :: "bool \<Rightarrow> int \<Rightarrow> int" where
  "days_before_month leap m =
     days_before_month_table ! nat m + (if m > 2 \<and> leap then 1 else 0)"

definition ymd2ord :: "int \<times> int \<times> int \<Rightarrow> int" where
  "ymd2ord = (\<lambda>(y, m, d). days_before_year y + days_before_month (is_leap y) m + d)"

text \<open>The month and day of the day number \<open>n\<close> of a year, counted from 0.\<close>

definition month_day :: "bool \<Rightarrow> int \<Rightarrow> int \<times> int" where
  "month_day leap n =
     (let month = (n + 50) div 32;
          preceding = days_before_month leap month
      in if preceding > n
         then (let month' = month - 1;
                   preceding' = preceding -
                     (days_in_month_table ! nat month' + (if month' = 2 \<and> leap then 1 else 0))
               in (month', n - preceding' + 1))
         else (month, n - preceding + 1))"

definition ord2ymd :: "int \<Rightarrow> int \<times> int \<times> int" where
  "ord2ymd ord =
     (let n = ord - 1;
          n400 = n div 146097; n = n mod 146097;
          n100 = n div 36524; n = n mod 36524;
          n4 = n div 1461; n = n mod 1461;
          n1 = n div 365; n = n mod 365;
          year = n400 * 400 + 1 + n100 * 100 + n4 * 4 + n1
      in if n1 = 4 \<or> n100 = 4 then (year - 1, 12, 31)
         else (year, month_day (n1 = 3 \<and> (n4 \<noteq> 24 \<or> n100 = 3)) n))"

definition month_day_ok :: "bool \<Rightarrow> int \<Rightarrow> bool" where
  "month_day_ok leap n \<longleftrightarrow>
     (case month_day leap n of (m, d) \<Rightarrow>
        1 \<le> m \<and> m \<le> 12 \<and> 1 \<le> d \<and> d \<le> 31 \<and> days_before_month leap m + d = n + 1)"

lemma month_day_okI:
  assumes "0 \<le> n" "n < 365"
  shows "month_day_ok leap n"
proof -
  define m where "m = (n + 50) div 32"
  have b: "32 * m \<le> n + 50" "n + 50 < 32 * m + 32"
    by (simp_all add: m_def)
  then have "m \<in> {1..12}" using assms by auto
  then have "m = 1 \<or> m = 2 \<or> m = 3 \<or> m = 4 \<or> m = 5 \<or> m = 6 \<or>
      m = 7 \<or> m = 8 \<or> m = 9 \<or> m = 10 \<or> m = 11 \<or> m = 12"
    unfolding atLeastAtMost_iff by presburger
  then show ?thesis using b assms
    by (elim disjE)
       (simp_all add: month_day_ok_def month_day_def Let_def m_def [symmetric]
         days_before_month_def days_before_month_table_def days_in_month_table_def)
qed

text \<open>The year computed from the cycle counts, and its leap flag.\<close>

lemma mod_of_sum: "(x::int) = r + m * k \<Longrightarrow> 0 \<le> r \<Longrightarrow> r < m \<Longrightarrow> x mod m = r"
  by simp

lemma div_of_sum: "(x::int) = r + m * k \<Longrightarrow> 0 \<le> r \<Longrightarrow> r < m \<Longrightarrow> x div m = k"
  by simp

lemma leap_cycle:
  fixes a b c e :: int
  assumes "0 \<le> b" "b \<le> 3" "0 \<le> c" "c \<le> 24" "0 \<le> e" "e \<le> 3"
  shows "is_leap (a * 400 + 1 + b * 100 + c * 4 + e) \<longleftrightarrow> e = 3 \<and> (c \<noteq> 24 \<or> b = 3)"
proof -
  let ?y = "a * 400 + 1 + b * 100 + c * 4 + e"
  have m4: "?y mod 4 = 0 \<longleftrightarrow> e = 3"
  proof (cases "e = 3")
    case True
    then have "?y mod 4 = 0"
      by (intro mod_of_sum [of _ _ _ "a * 100 + b * 25 + c + 1"]) simp_all
    with True show ?thesis by simp
  next
    case False
    then have "?y mod 4 = 1 + e"
      using assms by (intro mod_of_sum [of _ _ _ "a * 100 + b * 25 + c"]) simp_all
    with False assms show ?thesis by linarith
  qed
  have m100: "?y mod 100 = 0 \<longleftrightarrow> c = 24 \<and> e = 3"
  proof (cases "c = 24 \<and> e = 3")
    case True
    then have "?y mod 100 = 0"
      by (intro mod_of_sum [of _ _ _ "a * 4 + b + 1"]) simp_all
    with True show ?thesis by simp
  next
    case False
    then have lt: "c * 4 + e < 99" using assms by linarith
    then have "?y mod 100 = 1 + c * 4 + e"
      using assms by (intro mod_of_sum [of _ _ _ "a * 4 + b"]) simp_all
    with False assms show ?thesis by linarith
  qed
  have m400: "?y mod 400 = 0 \<longleftrightarrow> b = 3 \<and> c = 24 \<and> e = 3"
  proof (cases "b = 3 \<and> c = 24 \<and> e = 3")
    case True
    then have "?y mod 400 = 0"
      by (intro mod_of_sum [of _ _ _ "a + 1"]) simp_all
    with True show ?thesis by simp
  next
    case False
    then have lt: "b * 100 + c * 4 + e < 399" using assms by linarith
    then have "?y mod 400 = 1 + b * 100 + c * 4 + e"
      using assms by (intro mod_of_sum [of _ _ _ a]) simp_all
    with False assms show ?thesis by linarith
  qed
  show ?thesis unfolding is_leap_def m4 m100 m400 by auto
qed

lemma days_before_year_cycle:
  fixes a b c e :: int
  assumes "0 \<le> b" "b \<le> 3" "0 \<le> c" "c \<le> 24" "0 \<le> e" "e \<le> 3"
  shows "days_before_year (a * 400 + 1 + b * 100 + c * 4 + e) =
         a * 146097 + b * 36524 + c * 1461 + e * 365"
proof -
  let ?y = "a * 400 + 1 + b * 100 + c * 4 + e - 1"
  have "?y div 4 = a * 100 + b * 25 + c"
    using assms by (intro div_of_sum [of _ e]) simp_all
  moreover have "?y div 100 = a * 4 + b"
    using assms by (intro div_of_sum [of _ "c * 4 + e"]) simp_all
  moreover have "?y div 400 = a"
    using assms by (intro div_of_sum [of _ "b * 100 + c * 4 + e"]) simp_all
  ultimately show ?thesis by (simp add: days_before_year_def Let_def)
qed

lemma dec31: "days_before_month True 12 = 335"
  by (simp add: days_before_month_def days_before_month_table_def)

text \<open>Splitting the day number: what the four \<open>divmod\<close>s of \<open>_ord2ymd\<close> compute.\<close>

lemma ord_split:
  fixes n :: int
  defines "a \<equiv> n div 146097" and "r \<equiv> n mod 146097"
  defines "b \<equiv> r div 36524" and "s \<equiv> r mod 36524"
  defines "c \<equiv> s div 1461" and "t \<equiv> s mod 1461"
  defines "e \<equiv> t div 365" and "u \<equiv> t mod 365"
  shows "n = a * 146097 + b * 36524 + c * 1461 + e * 365 + u"
    and "0 \<le> b" "b \<le> 4" "0 \<le> c" "c \<le> 24" "0 \<le> e" "e \<le> 4" "0 \<le> u" "u < 365"
    and "b = 4 \<Longrightarrow> c = 0 \<and> e = 0 \<and> u = 0"
    and "e = 4 \<Longrightarrow> u = 0"
    and "e = 4 \<Longrightarrow> c \<noteq> 24 \<or> b = 3"
proof -
  have r: "0 \<le> r" "r < 146097" and s: "0 \<le> s" "s < 36524"
    and t: "0 \<le> t" "t < 1461" by (simp_all add: r_def s_def t_def)
  have n: "n = a * 146097 + r" "r = b * 36524 + s" "s = c * 1461 + t" "t = e * 365 + u"
    by (simp_all add: a_def r_def b_def s_def c_def t_def e_def u_def)
  then show "n = a * 146097 + b * 36524 + c * 1461 + e * 365 + u" by linarith
  show u: "0 \<le> u" "u < 365" by (simp_all add: u_def)
  show b: "0 \<le> b" "b \<le> 4" using r n(2) s by linarith+
  show c: "0 \<le> c" "c \<le> 24" using s n(3) t by linarith+
  show e: "0 \<le> e" "e \<le> 4" using t n(4) u by linarith+
  show "e = 4 \<Longrightarrow> u = 0" using n(4) t u by linarith
  show "b = 4 \<Longrightarrow> c = 0 \<and> e = 0 \<and> u = 0"
  proof -
    assume "b = 4"
    then have "s = 0" using n(2) r s by linarith
    then show ?thesis by (simp add: c_def t_def e_def u_def)
  qed
  show "e = 4 \<Longrightarrow> c \<noteq> 24 \<or> b = 3"
    using n(2-4) r s t u b c by linarith
qed

text \<open>The result of \<open>_ord2ymd\<close> in terms of those counts.\<close>

lemma ord2ymd_form:
  obtains a b c e u where
    "ord - 1 = a * 146097 + b * 36524 + c * 1461 + e * 365 + u"
    "0 \<le> b" "b \<le> 4" "0 \<le> c" "c \<le> 24" "0 \<le> e" "e \<le> 4" "0 \<le> u" "u < 365"
    "b = 4 \<Longrightarrow> c = 0 \<and> e = 0 \<and> u = 0" "e = 4 \<Longrightarrow> u = 0" "e = 4 \<Longrightarrow> c \<noteq> 24 \<or> b = 3"
    "a = (ord - 1) div 146097"
    "ord2ymd ord = (let y = a * 400 + 1 + b * 100 + c * 4 + e in
       if e = 4 \<or> b = 4 then (y - 1, 12, 31)
       else (y, month_day (e = 3 \<and> (c \<noteq> 24 \<or> b = 3)) u))"
proof -
  let ?r = "(ord - 1) mod 146097"
  let ?s = "?r mod 36524"
  let ?t = "?s mod 1461"
  note S = ord_split [of "ord - 1"]
  show ?thesis
    by (rule that [of "(ord - 1) div 146097" "?r div 36524" "?s div 1461" "?t div 365" "?t mod 365"])
       (use S in \<open>simp_all only: ord2ymd_def Let_def\<close>)
qed

lemma ymd2ord_dec31: "is_leap y \<Longrightarrow> ymd2ord (y, 12, 31) = days_before_year y + 366"
  by (simp add: ymd2ord_def dec31)

lemma ymd2ord_ord2ymd: "ymd2ord (ord2ymd ord) = ord"
proof -
  obtain a b c e u where S:
    "ord - 1 = a * 146097 + b * 36524 + c * 1461 + e * 365 + u"
    "0 \<le> b" "b \<le> 4" "0 \<le> c" "c \<le> 24" "0 \<le> e" "e \<le> 4" "0 \<le> u" "u < 365"
    "b = 4 \<Longrightarrow> c = 0 \<and> e = 0 \<and> u = 0" "e = 4 \<Longrightarrow> u = 0" "e = 4 \<Longrightarrow> c \<noteq> 24 \<or> b = 3"
    and o: "ord2ymd ord = (let y = a * 400 + 1 + b * 100 + c * 4 + e in
       if e = 4 \<or> b = 4 then (y - 1, 12, 31)
       else (y, month_day (e = 3 \<and> (c \<noteq> 24 \<or> b = 3)) u))"
    by (rule ord2ymd_form [of ord]) blast
  let ?y = "a * 400 + 1 + b * 100 + c * 4 + e"
  consider "b = 4" | "b \<noteq> 4" "e = 4" | "b \<noteq> 4" "e \<noteq> 4" by auto
  then show ?thesis
  proof cases
    case 1
    with S(10) have z: "c = 0" "e = 0" "u = 0" by auto
    let ?x = "a * 400 + 1 + 3 * 100 + 24 * 4 + 3"
    have "ord2ymd ord = (?x, 12, 31)" using o 1 z by simp
    moreover have "is_leap ?x" by (subst leap_cycle) simp_all
    moreover have "days_before_year ?x = a * 146097 + 3 * 36524 + 24 * 1461 + 3 * 365"
      by (subst days_before_year_cycle) simp_all
    ultimately have "ymd2ord (ord2ymd ord) = a * 146097 + 3 * 36524 + 24 * 1461 + 3 * 365 + 366"
      by (simp only: ymd2ord_dec31)
    with S(1) 1 z show ?thesis by linarith
  next
    case 2
    with S have u: "u = 0" and b: "b \<le> 3" and cb: "c \<noteq> 24 \<or> b = 3" by auto
    let ?x = "a * 400 + 1 + b * 100 + c * 4 + 3"
    have "ord2ymd ord = (?x, 12, 31)" using o 2 by simp
    moreover have "is_leap ?x" using S b cb by (subst leap_cycle) simp_all
    moreover have "days_before_year ?x = a * 146097 + b * 36524 + c * 1461 + 3 * 365"
      using S b by (subst days_before_year_cycle) simp_all
    ultimately have "ymd2ord (ord2ymd ord) = a * 146097 + b * 36524 + c * 1461 + 3 * 365 + 366"
      by (simp only: ymd2ord_dec31)
    with S(1) 2 u show ?thesis by linarith
  next
    case 3
    with S have r: "b \<le> 3" "e \<le> 3" by auto
    let ?l = "e = 3 \<and> (c \<noteq> 24 \<or> b = 3)"
    have l: "is_leap ?y \<longleftrightarrow> ?l" using S(2-8) r by (intro leap_cycle) simp_all
    have d: "days_before_year ?y = a * 146097 + b * 36524 + c * 1461 + e * 365"
      using S(2-8) r by (intro days_before_year_cycle) simp_all
    obtain m dd where md: "month_day ?l u = (m, dd)" by fastforce
    have "month_day_ok ?l u" using S(8,9) by (rule month_day_okI)
    with md have dm: "days_before_month ?l m + dd = u + 1" by (simp add: month_day_ok_def)
    have "ord2ymd ord = (?y, m, dd)" using o 3 md by (simp only: Let_def if_False) simp
    then have "ymd2ord (ord2ymd ord) = days_before_year ?y + days_before_month ?l m + dd"
      by (simp only: ymd2ord_def case_prod_conv l)
    with d dm S(1) show ?thesis by linarith
  qed
qed

lemma ord2ymd_inject: "ord2ymd m = ord2ymd n \<longleftrightarrow> m = n"
  by (metis ymd2ord_ord2ymd)

lemma ord2ymd_ranges:
  assumes "1 \<le> ord" "ord2ymd ord = (y, m, d)"
  shows "1 \<le> y" "1 \<le> m" "m \<le> 12" "1 \<le> d" "d \<le> 31"
proof -
  obtain a b c e u where S:
    "0 \<le> b" "0 \<le> c" "0 \<le> e" "0 \<le> u" "u < 365" "a = (ord - 1) div 146097"
    and o: "ord2ymd ord = (let y = a * 400 + 1 + b * 100 + c * 4 + e in
       if e = 4 \<or> b = 4 then (y - 1, 12, 31)
       else (y, month_day (e = 3 \<and> (c \<noteq> 24 \<or> b = 3)) u))"
    by (rule ord2ymd_form [of ord]) blast
  have a: "0 \<le> a" using assms(1) S(6) by (simp add: pos_imp_zdiv_nonneg_iff)
  have "month_day_ok (e = 3 \<and> (c \<noteq> 24 \<or> b = 3)) u" using S(4,5) by (rule month_day_okI)
  then have "1 \<le> y \<and> 1 \<le> m \<and> m \<le> 12 \<and> 1 \<le> d \<and> d \<le> 31"
    using assms(2) o a S(1-3)
    by (cases "e = 4 \<or> b = 4") (auto simp: month_day_ok_def Let_def)
  then show "1 \<le> y" "1 \<le> m" "m \<le> 12" "1 \<le> d" "d \<le> 31" by auto
qed

section \<open>Fields of a datetime\<close>

definition toordinal :: "datetime \<Rightarrow> int" where
  "toordinal t = t div usec_per_day + 1"

definition year_of :: "datetime \<Rightarrow> int" where "year_of t = fst (ord2ymd (toordinal t))"
definition month_of :: "datetime \<Rightarrow> int" where "month_of t = fst (snd (ord2ymd (toordinal t)))"
definition day_of :: "datetime \<Rightarrow> int" where "day_of t = snd (snd (ord2ymd (toordinal t)))"

lemma ord2ymd_fields: "ord2ymd (toordinal t) = (year_of t, month_of t, day_of t)"
  by (simp add: year_of_def month_of_def day_of_def)

lemma toordinal_pos: "0 \<le> t \<Longrightarrow> 1 \<le> toordinal t"
  by (simp add: toordinal_def usec_per_day_def pos_imp_zdiv_nonneg_iff)

lemmas field_ranges = ord2ymd_ranges [OF toordinal_pos ord2ymd_fields]

text \<open>The \<open>datetime\<close> of a civil date and a time of day.\<close>

definition mk_datetime :: "int \<Rightarrow> int \<Rightarrow> int \<Rightarrow> int \<Rightarrow> int \<Rightarrow> datetime" where
  "mk_datetime y m d h mi = (ymd2ord (y, m, d) - 1) * usec_per_day + hours_td h + minutes_td mi"

end
