(* ===== verification/PyFloat.thy ===== *)
theory PyFloat
  imports Prelude "HOL-Library.Log_Nat"
begin

text \<open>
  Python floats as rational numbers, with every arithmetic operation rounded to the nearest value
  with a 53-bit significand, ties to even (IEEE 754 binary64; the exponent range is not bounded,
  so overflow and subnormal numbers are outside the model). The facts the program relies on are
  that rounding is monotone on the non-negative numbers and exact on the integers up to
  \<open>2 ^ 53\<close>; the locale \<open>rounding\<close> states them and the interpretation at the end
  discharges them for \<open>fl\<close>.
\<close>

definition round_half_even :: "rat \<Rightarrow> int" where
  "round_half_even x =
     (let f = \<lfloor>x\<rfloor>; d = x - of_int f in
      if d < 1/2 then f else if d > 1/2 then f + 1 else if even f then f else f + 1)"

lemma round_half_even_of_int [simp]: "round_half_even (of_int n) = n"
  by (simp add: round_half_even_def)

lemma round_half_even_bounds:
  "\<lfloor>x\<rfloor> \<le> round_half_even x" "round_half_even x \<le> \<lfloor>x\<rfloor> + 1"
  by (simp_all add: round_half_even_def Let_def)

lemma round_half_even_mono:
  assumes "x \<le> y"
  shows "round_half_even x \<le> round_half_even y"
proof (cases "\<lfloor>x\<rfloor> = \<lfloor>y\<rfloor>")
  case True
  with assms show ?thesis by (auto simp: round_half_even_def Let_def)
next
  case False
  with assms have "\<lfloor>x\<rfloor> + 1 \<le> \<lfloor>y\<rfloor>" using floor_mono [OF assms] by linarith
  with round_half_even_bounds [of x] round_half_even_bounds [of y] show ?thesis by linarith
qed

text \<open>The exponent of a positive rational: \<open>2 powi ilog2 x \<le> x < 2 powi (ilog2 x + 1)\<close>.\<close>

definition ilog2 :: "rat \<Rightarrow> int" where
  "ilog2 x = (case quotient_of x of (p, q) \<Rightarrow>
     (let e = bitlen p - bitlen q in if 2 powi e \<le> x then e else e - 1))"

definition fl :: "rat \<Rightarrow> rat" where
  "fl x = (if x = 0 then 0
           else let s = 2 powi (ilog2 \<bar>x\<bar> - 52) in of_int (round_half_even (x / s)) * s)"

lemma bitlen_powi:
  assumes "0 < p"
  shows "(2::rat) powi (bitlen p - 1) \<le> of_int p" "of_int p < (2::rat) powi bitlen p"
proof -
  have b: "2 ^ nat (bitlen p - 1) \<le> p" "p < 2 ^ nat (bitlen p)"
    using bitlen_bounds [OF assms] by auto
  have pos: "1 \<le> bitlen p" using assms by (simp add: bitlen_alt_def)
  have "(of_int (2 ^ nat (bitlen p - 1)) :: rat) \<le> of_int p" using b(1) by (simp only: of_int_le_iff)
  then show "(2::rat) powi (bitlen p - 1) \<le> of_int p"
    using pos by (simp add: power_int_def)
  have "(of_int p :: rat) < of_int (2 ^ nat (bitlen p))" using b(2) by (simp only: of_int_less_iff)
  then show "of_int p < (2::rat) powi bitlen p"
    using pos by (simp add: power_int_def)
qed

lemma ilog2_bounds:
  assumes "0 < x"
  shows "2 powi ilog2 x \<le> x" "x < 2 powi (ilog2 x + 1)"
proof -
  obtain p q where pq: "quotient_of x = (p, q)" by fastforce
  have q: "0 < q" using quotient_of_denom_pos [OF pq] .
  have x: "x = of_int p / of_int q" using quotient_of_div [OF pq] .
  with assms q have p: "0 < p" by (simp add: zero_less_divide_iff)
  let ?e = "bitlen p - bitlen q"
  note P = bitlen_powi [OF p] and Q = bitlen_powi [OF q]
  have qq: "(0::rat) < of_int q" using q by simp
  have up: "x < 2 powi (?e + 1)"
  proof -
    have "of_int p < (2::rat) powi (?e + 1) * 2 powi (bitlen q - 1)"
      using P(2) by (simp add: power_int_add [symmetric])
    also have "\<dots> \<le> 2 powi (?e + 1) * of_int q" using Q(1) by (intro mult_left_mono) simp_all
    finally show ?thesis using qq by (simp add: x divide_simps)
  qed
  have lo: "2 powi (?e - 1) < x"
  proof -
    have "(2::rat) powi (?e - 1) * of_int q < 2 powi (?e - 1) * 2 powi bitlen q"
      using Q(2) by (intro mult_strict_left_mono) simp_all
    also have "\<dots> = 2 powi (bitlen p - 1)" by (simp add: power_int_add [symmetric] algebra_simps)
    also have "\<dots> \<le> of_int p" by (rule P(1))
    finally show ?thesis using qq by (simp add: x divide_simps)
  qed
  show "2 powi ilog2 x \<le> x" "x < 2 powi (ilog2 x + 1)"
    using up lo by (auto simp: ilog2_def pq Let_def)
qed

lemma ilog2_mono:
  assumes "0 < x" "x \<le> y"
  shows "ilog2 x \<le> ilog2 y"
proof (rule ccontr)
  assume "\<not> ilog2 x \<le> ilog2 y"
  then have "ilog2 y + 1 \<le> ilog2 x" by simp
  then have "(2::rat) powi (ilog2 y + 1) \<le> 2 powi ilog2 x"
    by (intro power_int_increasing) simp_all
  also have "\<dots> \<le> x" using ilog2_bounds(1) [OF assms(1)] .
  finally show False using ilog2_bounds(2) [of y] assms by linarith
qed

lemma fl_0 [simp]: "fl 0 = 0"
  by (simp add: fl_def)

lemma fl_pos_bounds:
  assumes "0 < x"
  shows "2 powi ilog2 x \<le> fl x" "fl x \<le> 2 powi (ilog2 x + 1)"
proof -
  let ?s = "(2::rat) powi (ilog2 x - 52)"
  have s: "0 < ?s" by simp
  have f: "fl x = of_int (round_half_even (x / ?s)) * ?s" using assms by (simp add: fl_def Let_def)
  have e1: "(2::rat) powi ilog2 x = of_int (2 ^ 52) * ?s"
    by (simp add: power_int_diff)
  have e2: "(2::rat) powi (ilog2 x + 1) = of_int (2 ^ 53) * ?s"
    by (simp add: power_int_diff power_int_add)
  have "of_int (2 ^ 52) \<le> x / ?s" "x / ?s \<le> of_int (2 ^ 53)"
    using ilog2_bounds [OF assms] s unfolding e1 e2 by (simp_all add: divide_simps)
  then have "2 ^ 52 \<le> round_half_even (x / ?s)" "round_half_even (x / ?s) \<le> 2 ^ 53"
    using round_half_even_mono [of "of_int (2 ^ 52)" "x / ?s"]
      round_half_even_mono [of "x / ?s" "of_int (2 ^ 53)"]
    by (simp_all only: round_half_even_of_int)
  then have "of_int (2 ^ 52) \<le> (of_int (round_half_even (x / ?s)) :: rat)"
    "(of_int (round_half_even (x / ?s)) :: rat) \<le> of_int (2 ^ 53)"
    by (simp_all only: of_int_le_iff)
  then show "2 powi ilog2 x \<le> fl x" "fl x \<le> 2 powi (ilog2 x + 1)"
    unfolding f e1 e2 using s by (simp_all only: mult_right_mono less_imp_le)
qed

lemma fl_mono:
  assumes "0 \<le> x" "x \<le> y"
  shows "fl x \<le> fl y"
proof (cases "x = 0")
  case True
  then show ?thesis using assms fl_pos_bounds(1) [of y] by (cases "y = 0") (auto intro: order_trans [rotated])
next
  case False
  with assms have x: "0 < x" and y: "0 < y" by simp_all
  show ?thesis
  proof (cases "ilog2 x = ilog2 y")
    case True
    let ?s = "(2::rat) powi (ilog2 y - 52)"
    have "x / ?s \<le> y / ?s" using assms by (simp add: divide_right_mono)
    then have "(of_int (round_half_even (x / ?s)) :: rat) \<le> of_int (round_half_even (y / ?s))"
      by (simp add: round_half_even_mono)
    then have "of_int (round_half_even (x / ?s)) * ?s \<le> of_int (round_half_even (y / ?s)) * ?s"
      by (rule mult_right_mono) simp
    then show ?thesis using x y True by (simp add: fl_def Let_def)
  next
    case False
    with ilog2_mono [OF x assms(2)] have "ilog2 x + 1 \<le> ilog2 y" by simp
    then have "(2::rat) powi (ilog2 x + 1) \<le> 2 powi ilog2 y"
      by (intro power_int_increasing) simp_all
    with fl_pos_bounds(2) [OF x] fl_pos_bounds(1) [OF y] show ?thesis by linarith
  qed
qed

lemma fl_of_int_pos:
  assumes "0 < n" "n \<le> 2 ^ 53"
  shows "fl (of_int n) = of_int n"
proof -
  let ?e = "ilog2 (of_int n)"
  have pos: "(0::rat) < of_int n" using assms by simp
  have e0: "0 \<le> ?e"
  proof (rule ccontr)
    assume "\<not> 0 \<le> ?e"
    then have "(2::rat) powi (?e + 1) \<le> 2 powi 0" by (intro power_int_increasing) simp_all
    with ilog2_bounds(2) [OF pos] have "(of_int n :: rat) < of_int 1" by simp
    with assms show False by (simp only: of_int_less_iff)
  qed
  have e53: "?e \<le> 53"
  proof (rule ccontr)
    assume "\<not> ?e \<le> 53"
    then have "(2::rat) powi 54 \<le> 2 powi ?e" by (intro power_int_increasing) simp_all
    also have "\<dots> \<le> of_int n" by (rule ilog2_bounds(1) [OF pos])
    finally have "(of_int (2 ^ 54) :: rat) \<le> of_int n" by simp
    then have "(2::int) ^ 54 \<le> n" by (simp only: of_int_le_iff)
    with assms show False by simp
  qed
  obtain k where k: "(of_int n :: rat) / 2 powi (?e - 52) = of_int k"
  proof (cases "?e \<le> 52")
    case True
    then have "(of_int n :: rat) / 2 powi (?e - 52) = of_int n * 2 powi (52 - ?e)"
      by (simp add: power_int_diff divide_simps)
    also have "\<dots> = of_int (n * 2 ^ nat (52 - ?e))" using True by (simp add: power_int_def)
    finally show thesis by (rule that)
  next
    case False
    with e53 have e: "?e = 53" by simp
    have "(of_int (2 ^ 53) :: rat) \<le> of_int n" using ilog2_bounds(1) [OF pos] by (simp add: e)
    with assms have "n = 2 ^ 53" by (simp only: of_int_le_iff)
    then have "(of_int n :: rat) / 2 powi (?e - 52) = of_int (2 ^ 52)" unfolding e by simp
    then show thesis by (rule that)
  qed
  have "fl (of_int n) = of_int (round_half_even (of_int n / 2 powi (?e - 52))) * 2 powi (?e - 52)"
    using pos by (simp add: fl_def Let_def)
  also have "\<dots> = of_int n / 2 powi (?e - 52) * 2 powi (?e - 52)"
    unfolding k by simp
  finally show ?thesis by simp
qed

lemma ilog2_unique:
  assumes "0 < x" "2 powi e \<le> x" "x < 2 powi (e + 1)"
  shows "ilog2 x = e"
proof (rule ccontr)
  assume "ilog2 x \<noteq> e"
  then consider "ilog2 x + 1 \<le> e" | "e + 1 \<le> ilog2 x" by linarith
  then show False
  proof cases
    case 1
    then have "(2::rat) powi (ilog2 x + 1) \<le> 2 powi e" by (intro power_int_increasing) simp_all
    with assms ilog2_bounds(2) [OF assms(1)] show False by linarith
  next
    case 2
    then have "(2::rat) powi (e + 1) \<le> 2 powi ilog2 x" by (intro power_int_increasing) simp_all
    with assms ilog2_bounds(1) [OF assms(1)] show False by linarith
  qed
qed

lemma fl_le_double: "0 \<le> x \<Longrightarrow> fl x \<le> 2 * x"
  using fl_pos_bounds(2) [of x] ilog2_bounds(1) [of x]
  by (cases "x = 0") (simp_all add: power_int_add)

lemma fl_scale:
  assumes "0 \<le> x"
  shows "fl (2 * x) = 2 * fl x"
proof (cases "x = 0")
  case False
  with assms have x: "0 < x" by simp
  have e: "ilog2 (2 * x) = ilog2 x + 1"
    using ilog2_bounds [OF x] x by (intro ilog2_unique) (simp_all add: power_int_add)
  let ?s = "(2::rat) powi (ilog2 x - 52)"
  have s': "(2::rat) powi (ilog2 x - 51) = 2 * ?s"
    by (simp add: power_int_diff)
  show ?thesis using x by (simp add: fl_def Let_def e s')
qed simp

lemma fl_multiple:
  assumes "0 < x" "x = of_int k * 2 powi (ilog2 x - 52)"
  shows "fl x = x"
proof -
  let ?s = "(2::rat) powi (ilog2 x - 52)"
  have "x / ?s = of_int k" by (subst assms(2)) simp
  with assms(1) have "fl x = of_int k * ?s" by (simp add: fl_def Let_def)
  with assms(2) show ?thesis by simp
qed

lemma fl_idem:
  assumes "0 \<le> x"
  shows "fl (fl x) = fl x"
proof (cases "x = 0")
  case False
  with assms have x: "0 < x" by simp
  let ?s = "(2::rat) powi (ilog2 x - 52)"
  let ?k = "round_half_even (x / ?s)"
  have f: "fl x = of_int ?k * ?s" using x by (simp add: fl_def Let_def)
  have p: "0 < fl x" using fl_pos_bounds(1) [OF x] by (rule less_le_trans [rotated]) simp
  show ?thesis
  proof (cases "fl x < 2 powi (ilog2 x + 1)")
    case True
    then have "ilog2 (fl x) = ilog2 x" using fl_pos_bounds(1) [OF x] p by (intro ilog2_unique)
    with f p show ?thesis by (intro fl_multiple) simp_all
  next
    case False
    with fl_pos_bounds(2) [OF x] have eq: "fl x = 2 powi (ilog2 x + 1)" by simp
    have "ilog2 (fl x) = ilog2 x + 1"
      using p unfolding eq by (intro ilog2_unique) (simp_all add: power_int_add)
    then have "fl x = of_int (2 ^ 52) * 2 powi (ilog2 (fl x) - 52)"
      using eq by (simp add: power_int_diff power_int_add)
    with p show ?thesis by (rule fl_multiple)
  qed
qed simp

section \<open>The rounding contract\<close>

locale rounding =
  fixes rnd :: "rat \<Rightarrow> rat"
  assumes rnd_mono: "0 \<le> x \<Longrightarrow> x \<le> y \<Longrightarrow> rnd x \<le> rnd y"
    and rnd_int: "0 \<le> n \<Longrightarrow> n \<le> 2 ^ 53 \<Longrightarrow> rnd (of_int n) = of_int n"
    and rnd_le_double: "0 \<le> x \<Longrightarrow> rnd x \<le> 2 * x"
    and rnd_scale: "0 \<le> x \<Longrightarrow> rnd (2 * x) = 2 * rnd x"
    and rnd_idem: "0 \<le> x \<Longrightarrow> rnd (rnd x) = rnd x"
begin

lemma rnd_nonneg: "0 \<le> x \<Longrightarrow> 0 \<le> rnd x"
  using rnd_mono [of 0 x] rnd_int [of 0] by simp

lemma rnd_le_int: "0 \<le> x \<Longrightarrow> x \<le> of_int n \<Longrightarrow> n \<le> 2 ^ 53 \<Longrightarrow> rnd x \<le> of_int n"
proof -
  assume x: "0 \<le> x" and le: "x \<le> of_int n" and n: "n \<le> 2 ^ 53"
  have "(0::rat) \<le> of_int n" using x le by linarith
  then have "0 \<le> n" by simp
  with rnd_int n have "rnd (of_int n) = of_int n" by simp
  with rnd_mono [OF x le] show ?thesis by simp
qed

text \<open>
  A jittered value \<open>c - s + r * 2 * s\<close>, with \<open>s = c * j\<close>, every operation rounded: it stays
  between 0 and \<open>2 * c\<close> whatever the rounding errors are.
\<close>

lemma jitter_range:
  assumes c: "0 \<le> c" "2 * c \<le> 2 ^ 53" and j: "0 \<le> j" "j \<le> 1" and r: "0 \<le> r" "r \<le> 1"
  defines "s \<equiv> rnd (rnd (of_int c) * j)"
  shows "0 \<le> rnd (rnd (rnd (of_int c) - s) + rnd (rnd (r * 2) * s))"
    and "rnd (rnd (rnd (of_int c) - s) + rnd (rnd (r * 2) * s)) \<le> of_int (2 * c)"
proof -
  have rc: "rnd (of_int c) = of_int c" using c by (intro rnd_int) auto
  have cj: "0 \<le> of_int c * j" "of_int c * j \<le> of_int c"
    using c j by (simp_all add: mult_left_le)
  have s0: "0 \<le> s" unfolding s_def rc using cj(1) by (rule rnd_nonneg)
  have s1: "s \<le> of_int c" unfolding s_def rc using cj c by (intro rnd_le_int) auto
  have d0: "0 \<le> rnd (of_int c - s)" using s1 by (intro rnd_nonneg) simp
  have r2: "0 \<le> rnd (r * 2)" using r by (intro rnd_nonneg) simp
  have r2': "rnd (r * 2) \<le> of_int 2" using r by (intro rnd_le_int) auto
  have p0: "0 \<le> rnd (r * 2) * s" using r2 s0 by simp
  have t0: "0 \<le> rnd (rnd (r * 2) * s)" using p0 by (rule rnd_nonneg)
  show "0 \<le> rnd (rnd (rnd (of_int c) - s) + rnd (rnd (r * 2) * s))"
    unfolding rc using d0 t0 by (intro rnd_nonneg) simp
  have ss: "rnd (2 * s) = 2 * s"
    using cj(1) s0 by (simp add: rnd_scale s_def rc rnd_idem)
  have "rnd (r * 2) * s \<le> 2 * s" using r2' s0 by (simp add: mult_right_mono)
  from rnd_mono [OF p0 this] have t1: "rnd (rnd (r * 2) * s) \<le> 2 * s" by (simp add: ss)
  have d1: "rnd (of_int c - s) \<le> 2 * (of_int c - s)" using s1 by (intro rnd_le_double) simp
  have "rnd (of_int c - s) + rnd (rnd (r * 2) * s) \<le> of_int (2 * c)" using t1 d1 by simp
  with d0 t0 c show "rnd (rnd (rnd (of_int c) - s) + rnd (rnd (r * 2) * s)) \<le> of_int (2 * c)"
    unfolding rc by (intro rnd_le_int) simp_all
qed

end

interpretation double: rounding fl
proof
  show "fl (of_int n) = of_int n" if "0 \<le> n" "n \<le> 2 ^ 53" for n
    using that fl_of_int_pos [of n] by (cases "n = 0") simp_all
qed (simp_all add: fl_mono fl_le_double fl_scale fl_idem)

section \<open>\<open>timedelta(seconds=x)\<close> for a float \<open>x\<close>\<close>

text \<open>
  The constructor splits \<open>x\<close> with \<open>modf\<close> and rounds the fraction, in microseconds, half to
  even. Only non-negative arguments occur in the program.
\<close>

definition timedelta_seconds :: "rat \<Rightarrow> int" where
  "timedelta_seconds x =
     (let w = \<lfloor>x\<rfloor> in w * 1000000 + round_half_even (fl ((x - of_int w) * 1000000)))"

lemma timedelta_seconds_of_int [simp]: "timedelta_seconds (of_int n) = n * 1000000"
proof -
  have "round_half_even (fl (of_int 0)) = 0" by (simp only: of_int_0 fl_0) (simp add: round_half_even_def)
  then show ?thesis by (simp add: timedelta_seconds_def Let_def)
qed

lemma frac_usec_range:
  assumes "0 \<le> d" "d \<le> 1"
  shows "0 \<le> round_half_even (fl (d * 1000000))" "round_half_even (fl (d * 1000000)) \<le> 1000000"
proof -
  have "fl (of_int 0) \<le> fl (d * 1000000)" "fl (d * 1000000) \<le> fl (of_int 1000000)"
    using assms by (simp_all add: fl_mono double.rnd_nonneg)
  then have "of_int 0 \<le> fl (d * 1000000)" "fl (d * 1000000) \<le> of_int 1000000"
    using double.rnd_int [of 1000000] by simp_all
  from this [THEN round_half_even_mono]
  show "0 \<le> round_half_even (fl (d * 1000000))" "round_half_even (fl (d * 1000000)) \<le> 1000000"
    by (simp_all only: round_half_even_of_int)
qed

lemma timedelta_seconds_bounds:
  assumes "0 \<le> x" "x \<le> of_int n"
  shows "0 \<le> timedelta_seconds x" "timedelta_seconds x \<le> n * 1000000"
proof -
  let ?w = "\<lfloor>x\<rfloor>"
  have w: "0 \<le> ?w" "?w \<le> n" using assms by (simp_all add: floor_le_iff)
  have d: "0 \<le> x - of_int ?w" "x - of_int ?w \<le> 1" by linarith+
  note R = frac_usec_range [OF d]
  show "0 \<le> timedelta_seconds x" using w R by (simp add: timedelta_seconds_def Let_def)
  show "timedelta_seconds x \<le> n * 1000000"
  proof (cases "?w = n")
    case True
    with assms have "x = of_int n" by linarith
    then show ?thesis by simp
  next
    case False
    with w have "?w + 1 \<le> n" by simp
    with R show ?thesis by (simp add: timedelta_seconds_def Let_def)
  qed
qed

end
