(* ===== verification/Util.thy ===== *)
theory Util
  imports PyTime PyFloat
begin

text \<open>
  \<open>src/smtp_switch/util.py\<close>: the exponential backoff and the two quota period keys.
  \<open>utcnow\<close> reads the clock of the environment and is defined in \<open>World\<close>.
\<close>

section \<open>Backoff\<close>

text \<open>
  \<open>r\<close> is the value \<open>random.random()\<close> returned. The integers \<open>base_seconds\<close> and
  \<open>max_seconds\<close> come from \<open>RetryConfig\<close>; the arithmetic with \<open>jitter_ratio\<close> is on floats,
  so each operation is rounded by \<open>fl\<close>.
\<close>

definition backoff_raw :: "int \<Rightarrow> int \<Rightarrow> int" where
  "backoff_raw attempt base_seconds = base_seconds * 2 ^ nat (max 0 (attempt - 1))"

definition backoff_delay :: "int \<Rightarrow> int \<Rightarrow> int \<Rightarrow> rat \<Rightarrow> rat \<Rightarrow> rat" where
  "backoff_delay attempt base_seconds max_seconds jitter_ratio r =
     (let raw = backoff_raw attempt base_seconds;
          capped = min raw max_seconds
      in if jitter_ratio \<le> 0 then of_int capped
         else let spread = fl (fl (of_int capped) * jitter_ratio)
              in max 0 (fl (fl (fl (of_int capped) - spread) + fl (fl (r * 2) * spread))))"

lemma backoff_raw_ge: "0 < base \<Longrightarrow> base \<le> backoff_raw n base"
  by (simp add: backoff_raw_def)

lemma backoff_raw_mono: "0 < base \<Longrightarrow> m \<le> n \<Longrightarrow> backoff_raw m base \<le> backoff_raw n base"
  by (simp add: backoff_raw_def power_increasing nat_mono)

lemma backoff_raw_Suc: "1 \<le> n \<Longrightarrow> backoff_raw (n + 1) base = 2 * backoff_raw n base"
proof -
  assume "1 \<le> n"
  then have "nat n = Suc (nat (n - 1))" by simp
  with \<open>1 \<le> n\<close> show ?thesis by (simp add: backoff_raw_def)
qed

lemma backoff_delay_bounds:
  assumes "0 < base" "base \<le> mx" "2 * mx \<le> 2 ^ 53" "0 \<le> j" "j \<le> 1" "0 \<le> r" "r \<le> 1"
  shows "0 \<le> backoff_delay n base mx j r"
    and "backoff_delay n base mx j r \<le> of_int (2 * min (backoff_raw n base) mx)"
proof -
  let ?c = "min (backoff_raw n base) mx"
  have c: "0 < ?c" using backoff_raw_ge [OF assms(1), of n] assms by simp
  have "2 * ?c \<le> 2 ^ 53" using assms by simp
  note J = double.jitter_range [OF _ this assms(4-7)]
  show "0 \<le> backoff_delay n base mx j r"
    using c by (simp add: backoff_delay_def Let_def)
  show "backoff_delay n base mx j r \<le> of_int (2 * ?c)"
    using c J by (simp add: backoff_delay_def Let_def max_def)
qed

text \<open>Without jitter the delay doubles from \<open>base\<close> until it reaches the cap.\<close>

lemma backoff_delay_no_jitter:
  "j \<le> 0 \<Longrightarrow> backoff_delay n base mx j r = of_int (min (backoff_raw n base) mx)"
  by (simp add: backoff_delay_def Let_def)

section \<open>Quota period keys\<close>

definition ym_key :: "int \<Rightarrow> int \<Rightarrow> string" where
  "ym_key year month = zpad 4 (dec (nat year)) @ ''-'' @ zpad 2 (dec (nat month))"

definition month_period_key :: "datetime \<Rightarrow> int \<Rightarrow> string" where
  "month_period_key now reset_day =
     (if day_of now \<ge> reset_day then ym_key (year_of now) (month_of now)
      else let year = (if month_of now > 1 then year_of now else year_of now - 1);
               month = (if month_of now > 1 then month_of now - 1 else 12)
           in ym_key year month)"

text \<open>\<open>now.strftime("%Y-%m-%d")\<close>, for the four-digit years of a real clock.\<close>

definition day_period_key :: "datetime \<Rightarrow> string" where
  "day_period_key now =
     zpad 4 (dec (nat (year_of now))) @ ''-'' @ zpad 2 (dec (nat (month_of now))) @ ''-'' @
     zpad 2 (dec (nat (day_of now)))"

lemma ym_key_inject:
  "0 \<le> y \<Longrightarrow> 0 \<le> y' \<Longrightarrow> 0 \<le> m \<Longrightarrow> 0 \<le> m' \<Longrightarrow>
   ym_key y m = ym_key y' m' \<longleftrightarrow> y = y' \<and> m = m'"
  by (simp add: ym_key_def append_dash_inject zpad_no_dash zpad_dec_inject eq_nat_nat_iff)

text \<open>
  The number of the quota month that contains \<open>now\<close>: calendar months counted from year 0, one
  less before the reset day.
\<close>

definition quota_month :: "datetime \<Rightarrow> int \<Rightarrow> int" where
  "quota_month now reset_day =
     year_of now * 12 + (month_of now - 1) - (if day_of now \<ge> reset_day then 0 else 1)"

lemma month_period_key_eq:
  assumes "0 \<le> t"
  shows "month_period_key t rd = ym_key (quota_month t rd div 12) (quota_month t rd mod 12 + 1)"
proof -
  note R = field_ranges [OF assms]
  have q: "(y * 12 + k) div 12 = y" "(y * 12 + k) mod 12 = k" if "0 \<le> k" "k < 12" for y k :: int
    using that by (simp_all add: div_mult_self3)
  consider "day_of t \<ge> rd" | "\<not> day_of t \<ge> rd" "month_of t > 1" | "\<not> day_of t \<ge> rd" "month_of t = 1"
    using R by linarith
  then show ?thesis
  proof cases
    case 1
    then show ?thesis using R q [of "month_of t - 1" "year_of t"]
      by (simp add: month_period_key_def quota_month_def)
  next
    case 2
    then have "quota_month t rd = year_of t * 12 + (month_of t - 2)" by (simp add: quota_month_def)
    then show ?thesis using R 2 q [of "month_of t - 2" "year_of t"]
      by (simp add: month_period_key_def)
  next
    case 3
    then have "quota_month t rd = (year_of t - 1) * 12 + 11" by (simp add: quota_month_def)
    then show ?thesis using 3 q [of 11 "year_of t - 1"] by (simp add: month_period_key_def)
  qed
qed

lemma quota_month_nonneg: "0 \<le> t \<Longrightarrow> 0 \<le> quota_month t rd"
  using field_ranges [of t] by (simp add: quota_month_def)

lemma month_period_key_inject:
  assumes "0 \<le> s" "0 \<le> t"
  shows "month_period_key s rd = month_period_key t rd \<longleftrightarrow> quota_month s rd = quota_month t rd"
proof -
  note N = quota_month_nonneg [OF assms(1), of rd] quota_month_nonneg [OF assms(2), of rd]
  have "month_period_key s rd = month_period_key t rd \<longleftrightarrow>
      quota_month s rd div 12 = quota_month t rd div 12 \<and>
      quota_month s rd mod 12 = quota_month t rd mod 12"
    using N assms by (simp add: month_period_key_eq ym_key_inject pos_imp_zdiv_nonneg_iff)
  also have "\<dots> \<longleftrightarrow> quota_month s rd = quota_month t rd" by (metis mult_div_mod_eq)
  finally show ?thesis .
qed

lemma day_period_key_inject:
  assumes "0 \<le> s" "0 \<le> t"
  shows "day_period_key s = day_period_key t \<longleftrightarrow> toordinal s = toordinal t"
proof -
  note R = field_ranges [OF assms(1)] field_ranges [OF assms(2)]
  have "day_period_key s = day_period_key t \<longleftrightarrow>
      year_of s = year_of t \<and> month_of s = month_of t \<and> day_of s = day_of t"
    using R by (simp add: day_period_key_def append_dash_inject zpad_no_dash zpad_dec_inject
        eq_nat_nat_iff)
  also have "\<dots> \<longleftrightarrow> ord2ymd (toordinal s) = ord2ymd (toordinal t)"
    by (simp add: ord2ymd_fields)
  finally show ?thesis by (simp add: ord2ymd_inject)
qed

section \<open>Properties\<close>

text \<open>Claim C19: the retry delay is bounded. For a base and a cap as the configuration requires, any
  jitter ratio between 0 and 1 and any draw, the delay in floating point is never negative and never
  more than twice the capped exponential delay; without jitter it is exactly the base doubled with
  every attempt and cut off at the cap, and so never decreases from one attempt to the next.\<close>

theorem backoff_delay_bounded:
  assumes "0 < base" "base \<le> mx" "2 * mx \<le> 2 ^ 53" "0 \<le> j" "j \<le> 1" "0 \<le> r" "r \<le> 1"
  shows "0 \<le> backoff_delay n base mx j r \<and>
    backoff_delay n base mx j r \<le> of_int (2 * min (base * 2 ^ nat (max 0 (n - 1))) mx) \<and>
    backoff_delay n base mx 0 r = of_int (min (base * 2 ^ nat (max 0 (n - 1))) mx) \<and>
    backoff_delay n base mx 0 r \<le> backoff_delay (n + 1) base mx 0 r"
proof -
  have "min (backoff_raw n base) mx \<le> min (backoff_raw (n + 1) base) mx"
    using backoff_raw_mono [OF assms(1), of n "n + 1"] by simp
  then show ?thesis
    using backoff_delay_bounds [OF assms, of n]
    by (simp add: backoff_delay_no_jitter) (simp add: backoff_raw_def)
qed

theorem backoff_delay_bounded_witness:
  "0 \<le> backoff_delay 3 30 3600 (1/2) (3/4) \<and> backoff_delay 3 30 3600 (1/2) (3/4) \<le> 240"
  using backoff_delay_bounded [of 30 3600 "1/2" "3/4" 3] by simp

text \<open>The cap is not a bound on the delay. With jitter, a draw above one half makes the delay
  longer than \<open>max_delay_seconds\<close>, although the delay is documented as clamped to it: with a cap of
  an hour and a jitter ratio of one half, a draw of 3/4 gives an hour and a quarter.\<close>

theorem backoff_delay_exceeds_cap: "backoff_delay 12 30 3600 (1/2) (3/4) = 4500"
proof -
  have F: "fl 3600 = 3600" "fl 1800 = 1800" "fl (3/2) = 3/2" "fl 2700 = 2700" "fl 4500 = 4500"
    using double.rnd_int [of 3600] double.rnd_int [of 1800] double.rnd_int [of 2700] double.rnd_int [of 4500]
      double.rnd_int [of 3] fl_scale [of "3/2"] by simp_all
  show ?thesis by (simp add: backoff_delay_def Let_def backoff_raw_def F)
qed

text \<open>A monthly counter is shared exactly by the instants of one billing month. Two instants
  have the same monthly key precisely when they lie in the same month counted from the reset day;
  two instants have the same daily key precisely when they are on the same calendar day.\<close>

theorem period_keys_identify_periods:
  assumes "0 \<le> t" "0 \<le> u"
  shows "(month_period_key t rd = month_period_key u rd \<longleftrightarrow> quota_month t rd = quota_month u rd) \<and>
    (day_period_key t = day_period_key u \<longleftrightarrow> toordinal t = toordinal u)"
  using assms by (simp add: month_period_key_inject day_period_key_inject)

theorem period_keys_identify_periods_witness:
  "day_period_key 0 = day_period_key 1 \<and> day_period_key 0 \<noteq> day_period_key usec_per_day"
  using period_keys_identify_periods [of 0 1 1] period_keys_identify_periods [of 0 usec_per_day 1]
  by (simp add: toordinal_def usec_per_day_def)

end
