(* ===== verification/IPAddr.thy ===== *)
theory IPAddr
  imports Prelude "HOL-Library.Word"
begin

text \<open>
  The parts of CPython's \<open>ipaddress\<close> module that \<open>src/smtp_switch/config.py\<close> and
  \<open>src/smtp_switch/ingress/auth.py\<close> use: reading an address (\<open>ip_address\<close>) and a network
  (\<open>ip_network(e, strict=False)\<close>) from text, \<open>ipv4_mapped\<close>, and \<open>addr in net\<close>. Addresses are words of
  their width; a rejected text is \<open>None\<close> (a \<open>ValueError\<close>).
\<close>

unbundle bit_operations_syntax

section \<open>Text\<close>

text \<open>\<open>s.split(c)\<close>\<close>

fun split_on :: "char \<Rightarrow> string \<Rightarrow> string list" where
  "split_on c [] = [[]]"
| "split_on c (x # xs) =
     (if x = c then [] # split_on c xs
      else (case split_on c xs of [] \<Rightarrow> [[x]] | y # ys \<Rightarrow> (x # y) # ys))"

text \<open>\<open>s.isascii() and s.isdigit()\<close>\<close>

definition is_digit :: "char \<Rightarrow> bool" where
  "is_digit c \<longleftrightarrow> CHR ''0'' \<le> c \<and> c \<le> CHR ''9''"

definition all_digits :: "string \<Rightarrow> bool" where
  "all_digits s \<longleftrightarrow> s \<noteq> [] \<and> list_all is_digit s"

definition hex_val :: "char \<Rightarrow> int option" where
  "hex_val c =
     (if is_digit c then Some (of_char c - 48)
      else if CHR ''a'' \<le> c \<and> c \<le> CHR ''f'' then Some (of_char c - 87)
      else if CHR ''A'' \<le> c \<and> c \<le> CHR ''F'' then Some (of_char c - 55)
      else None)"

definition hex_digit :: "int \<Rightarrow> char" where
  "hex_digit n = char_of (if n < 10 then 48 + n else 87 + n)"

text \<open>\<open>'%x' % n\<close>\<close>

function hex_str :: "int \<Rightarrow> string" where
  "hex_str n = (if n < 16 then [hex_digit n] else hex_str (n div 16) @ [hex_digit (n mod 16)])"
  by auto
termination by (relation "measure nat") auto

declare hex_str.simps [simp del]

section \<open>Addresses\<close>

type_synonym ipv4 = "32 word"
type_synonym ipv6 = "128 word"

datatype ip_addr = IPv4Address ipv4 | IPv6Address ipv6 "string option"

definition parse_octet :: "string \<Rightarrow> nat option" where
  "parse_octet s =
     (if \<not> all_digits s \<or> length s > 3 then None
      else if s \<noteq> ''0'' \<and> hd s = CHR ''0'' then None
      else if undec s > 255 then None
      else Some (undec s))"

definition ipv4_from_string :: "string \<Rightarrow> ipv4 option" where
  "ipv4_from_string s =
     (let octets = split_on (CHR ''.'') s in
      if s = [] \<or> length octets \<noteq> 4 then None
      else case those (map parse_octet octets) of
             None \<Rightarrow> None
           | Some ns \<Rightarrow> Some (foldl (\<lambda>n b. push_bit 8 n OR of_nat b) 0 ns))"

definition parse_hextet :: "string \<Rightarrow> int option" where
  "parse_hextet s =
     (if s = [] \<or> length s > 4 then None
      else case those (map hex_val s) of
             None \<Rightarrow> None
           | Some ds \<Rightarrow> Some (foldl (\<lambda>n d. 16 * n + d) 0 ds))"

definition ipv6_suffix :: "string list \<Rightarrow> string list option" where
  "ipv6_suffix parts =
     (if CHR ''.'' \<in> set (last parts)
      then (case ipv4_from_string (last parts) of
              None \<Rightarrow> None
            | Some a \<Rightarrow> Some (butlast parts @ [hex_str (uint (drop_bit 16 a)), hex_str (uint (take_bit 16 a))]))
      else Some parts)"

text \<open>How many parts are copied from the start and from the end, and how many are left out.\<close>

definition ipv6_layout :: "string list \<Rightarrow> (nat \<times> nat \<times> nat) option" where
  "ipv6_layout parts =
     (let n = length parts; skips = filter (\<lambda>i. parts ! i = []) [1..<n - 1] in
      if n > 9 \<or> length skips > 1 then None
      else (case skips of
              skip_index # _ \<Rightarrow>
                let hi = (if hd parts = [] then skip_index - 1 else skip_index);
                    lo = (if last parts = [] then n - skip_index - 2 else n - skip_index - 1)
                in if (hd parts = [] \<and> hi \<noteq> 0) \<or> (last parts = [] \<and> lo \<noteq> 0) \<or> hi + lo \<ge> 8 then None
                   else Some (hi, lo, 8 - (hi + lo))
            | [] \<Rightarrow> if n \<noteq> 8 \<or> hd parts = [] \<or> last parts = [] then None else Some (n, 0, 0)))"

definition push_hextets :: "ipv6 \<Rightarrow> int list \<Rightarrow> ipv6" where
  "push_hextets = foldl (\<lambda>n h. push_bit 16 n OR of_int h)"

definition ipv6_from_string :: "string \<Rightarrow> ipv6 option" where
  "ipv6_from_string s =
     (let parts = split_on (CHR '':'') s in
      if s = [] \<or> length parts < 3 then None
      else case ipv6_suffix parts of
             None \<Rightarrow> None
           | Some parts \<Rightarrow>
               (case ipv6_layout parts of
                  None \<Rightarrow> None
                | Some (hi, lo, skipped) \<Rightarrow>
                    (case (those (map parse_hextet (take hi parts)),
                           those (map parse_hextet (drop (length parts - lo) parts))) of
                       (Some hs, Some ls) \<Rightarrow> Some (push_hextets (push_bit (16 * skipped) (push_hextets 0 hs)) ls)
                     | _ \<Rightarrow> None)))"

text \<open>\<open>_split_scope_id\<close>: what follows a \<open>%\<close>, which may occur only once.\<close>

definition split_scope_id :: "string \<Rightarrow> (string \<times> string option) option" where
  "split_scope_id s =
     (case split_on (CHR ''%'') s of
        [addr] \<Rightarrow> Some (addr, None)
      | [addr, scope] \<Rightarrow> if scope = [] then None else Some (addr, Some scope)
      | _ \<Rightarrow> None)"

definition ipv4_address :: "string \<Rightarrow> ipv4 option" where
  "ipv4_address s = (if CHR ''/'' \<in> set s then None else ipv4_from_string s)"

definition ipv6_address :: "string \<Rightarrow> (ipv6 \<times> string option) option" where
  "ipv6_address s =
     (if CHR ''/'' \<in> set s then None
      else case split_scope_id s of
             None \<Rightarrow> None
           | Some (addr, scope) \<Rightarrow> map_option (\<lambda>a. (a, scope)) (ipv6_from_string addr))"

definition ip_address :: "string \<Rightarrow> ip_addr option" where
  "ip_address s =
     (case ipv4_address s of
        Some a \<Rightarrow> Some (IPv4Address a)
      | None \<Rightarrow> map_option (\<lambda>(a, scope). IPv6Address a scope) (ipv6_address s))"

definition ipv4_mapped :: "ipv6 \<Rightarrow> ipv4 option" where
  "ipv4_mapped a = (if drop_bit 32 a = 0xFFFF then Some (ucast a) else None)"

section \<open>Networks\<close>

text \<open>The network address and the mask.\<close>

datatype ip_net = IPv4Network ipv4 ipv4 | IPv6Network ipv6 ipv6

definition mask_of :: "nat \<Rightarrow> 'a::len word" where
  "mask_of p = (- 1) XOR drop_bit p (- 1)"

text \<open>\<open>_prefix_from_prefix_string\<close>; \<open>int()\<close> refuses more than 4300 digits.\<close>

definition prefix_from_prefix_string :: "nat \<Rightarrow> string \<Rightarrow> nat option" where
  "prefix_from_prefix_string max_prefixlen s =
     (if \<not> all_digits s \<or> length s > 4300 then None
      else if undec s > max_prefixlen then None else Some (undec s))"

definition count_righthand_zero_bits :: "ipv4 \<Rightarrow> nat" where
  "count_righthand_zero_bits a = length (takeWhile (\<lambda>i. \<not> bit a i) [0..<32])"

definition prefix_from_ip_int :: "ipv4 \<Rightarrow> nat option" where
  "prefix_from_ip_int a =
     (let zeroes = count_righthand_zero_bits a; prefixlen = 32 - zeroes
      in if drop_bit zeroes a \<noteq> mask prefixlen then None else Some prefixlen)"

definition prefix_from_ip_string :: "string \<Rightarrow> nat option" where
  "prefix_from_ip_string s =
     (case ipv4_from_string s of
        None \<Rightarrow> None
      | Some a \<Rightarrow> (case prefix_from_ip_int a of
                   Some p \<Rightarrow> Some p
                 | None \<Rightarrow> prefix_from_ip_int (a XOR (- 1))))"

definition make_netmask4 :: "string option \<Rightarrow> nat option" where
  "make_netmask4 arg =
     (case arg of
        None \<Rightarrow> Some 32
      | Some s \<Rightarrow> (case prefix_from_prefix_string 32 s of Some p \<Rightarrow> Some p | None \<Rightarrow> prefix_from_ip_string s))"

definition make_netmask6 :: "string option \<Rightarrow> nat option" where
  "make_netmask6 arg = (case arg of None \<Rightarrow> Some 128 | Some s \<Rightarrow> prefix_from_prefix_string 128 s)"

definition split_addr_prefix :: "string \<Rightarrow> (string \<times> string option) option" where
  "split_addr_prefix s =
     (case split_on (CHR ''/'') s of
        [addr] \<Rightarrow> Some (addr, None)
      | [addr, m] \<Rightarrow> Some (addr, Some m)
      | _ \<Rightarrow> None)"

definition ipv4_network :: "string \<Rightarrow> ip_net option" where
  "ipv4_network s =
     (case split_addr_prefix s of
        None \<Rightarrow> None
      | Some (addr, arg) \<Rightarrow>
          (case (ipv4_address addr, make_netmask4 arg) of
             (Some a, Some p) \<Rightarrow> Some (IPv4Network (a AND mask_of p) (mask_of p))
           | _ \<Rightarrow> None))"

definition ipv6_network :: "string \<Rightarrow> ip_net option" where
  "ipv6_network s =
     (case split_addr_prefix s of
        None \<Rightarrow> None
      | Some (addr, arg) \<Rightarrow>
          (case (ipv6_address addr, make_netmask6 arg) of
             (Some (a, _), Some p) \<Rightarrow> Some (IPv6Network (a AND mask_of p) (mask_of p))
           | _ \<Rightarrow> None))"

definition ip_network :: "string \<Rightarrow> ip_net option" where
  "ip_network s = (case ipv4_network s of Some n \<Rightarrow> Some n | None \<Rightarrow> ipv6_network s)"

text \<open>\<open>addr in net\<close>\<close>

fun in_network :: "ip_addr \<Rightarrow> ip_net \<Rightarrow> bool" where
  "in_network (IPv4Address a) (IPv4Network n m) = (a AND m = n)"
| "in_network (IPv6Address a _) (IPv6Network n m) = (a AND m = n)"
| "in_network _ _ = False"

section \<open>Lemmas\<close>

lemma bit_mask_of: "bit (mask_of p :: 'a::len word) i \<longleftrightarrow> i < LENGTH('a) \<and> LENGTH('a) \<le> i + p"
  by (auto simp: mask_of_def bit_xor_iff bit_drop_bit_eq bit_minus_1_iff bit_not_iff bit_mask_iff possible_bit_word)

text \<open>Two addresses agree under a mask of \<open>p\<close> bits when their first \<open>p\<close> bits agree.\<close>

lemma masked_eq_iff:
  fixes a b :: "'a::len word"
  assumes "p \<le> LENGTH('a)"
  shows "a AND mask_of p = b AND mask_of p \<longleftrightarrow> drop_bit (LENGTH('a) - p) a = drop_bit (LENGTH('a) - p) b"
proof
  assume eq: "a AND mask_of p = b AND mask_of p"
  show "drop_bit (LENGTH('a) - p) a = drop_bit (LENGTH('a) - p) b"
  proof (rule bit_word_eqI)
    fix i assume "i < LENGTH('a)"
    show "bit (drop_bit (LENGTH('a) - p) a) i \<longleftrightarrow> bit (drop_bit (LENGTH('a) - p) b) i"
    proof (cases "LENGTH('a) - p + i < LENGTH('a)")
      case True
      have "bit (a AND mask_of p) (LENGTH('a) - p + i) \<longleftrightarrow> bit (b AND mask_of p) (LENGTH('a) - p + i)" by (simp add: eq)
      then show ?thesis using True assms by (simp add: bit_and_iff bit_mask_of bit_drop_bit_eq)
    next
      case False
      then show ?thesis by (auto simp: bit_drop_bit_eq dest: bit_imp_le_length)
    qed
  qed
next
  assume eq: "drop_bit (LENGTH('a) - p) a = drop_bit (LENGTH('a) - p) b"
  show "a AND mask_of p = b AND mask_of p"
  proof (rule bit_word_eqI)
    fix i assume i: "i < LENGTH('a)"
    show "bit (a AND mask_of p) i \<longleftrightarrow> bit (b AND mask_of p) i"
    proof (cases "LENGTH('a) \<le> i + p")
      case True
      have "bit (drop_bit (LENGTH('a) - p) a) (i - (LENGTH('a) - p)) \<longleftrightarrow>
          bit (drop_bit (LENGTH('a) - p) b) (i - (LENGTH('a) - p))" by (simp add: eq)
      then show ?thesis using True assms by (simp add: bit_and_iff bit_drop_bit_eq)
    qed (simp add: bit_and_iff bit_mask_of)
  qed
qed

text \<open>Splitting what was joined.\<close>

lemma split_on_none: "c \<notin> set x \<Longrightarrow> split_on c x = [x]"
  by (induction x) auto

lemma split_on_app: "c \<notin> set x \<Longrightarrow> split_on c (x @ c # y) = x # split_on c y"
  by (induction x) auto

section \<open>Dotted notation\<close>

definition dotted :: "nat \<times> nat \<times> nat \<times> nat \<Rightarrow> string" where
  "dotted = (\<lambda>(a, b, c, d). dec a @ ''.'' @ dec b @ ''.'' @ dec c @ ''.'' @ dec d)"

definition quad :: "nat \<times> nat \<times> nat \<times> nat \<Rightarrow> ipv4" where
  "quad = (\<lambda>(a, b, c, d). of_nat (((a * 256 + b) * 256 + c) * 256 + d))"

definition octets :: "nat \<times> nat \<times> nat \<times> nat \<Rightarrow> bool" where
  "octets = (\<lambda>(a, b, c, d). a < 256 \<and> b < 256 \<and> c < 256 \<and> d < 256)"

lemma dec_digits: "c \<in> set (dec n) \<Longrightarrow> is_digit c"
proof (induction n rule: dec.induct)
  case (1 n)
  have d: "is_digit (char_of (48 + k))" if "k < 10" for k :: nat
    using that by (auto simp: is_digit_def less_eq_char_def)
  show ?case
  proof (cases "n < 10")
    case True
    then show ?thesis using "1.prems" d [of n] by (subst (asm) dec.simps) simp
  next
    case False
    then show ?thesis using "1.prems" "1.IH" d [of "n mod 10"] by (subst (asm) dec.simps) auto
  qed
qed

lemma dec_not_Nil [simp]: "dec n \<noteq> []"
  by (subst dec.simps) simp

lemma all_digits_dec: "all_digits (dec n)"
  by (simp add: all_digits_def list_all_iff dec_digits)

lemma dec_no_sep: "CHR ''.'' \<notin> set (dec n)" "CHR ''/'' \<notin> set (dec n)"
  using dec_digits [of "CHR ''.''" n] dec_digits [of "CHR ''/''" n] by (auto simp: is_digit_def less_eq_char_def)

lemma length_dec: "n < 10 ^ k \<Longrightarrow> 0 < k \<Longrightarrow> length (dec n) \<le> k"
proof (induction n arbitrary: k rule: dec.induct)
  case (1 n)
  show ?case
  proof (cases "n < 10")
    case True
    then show ?thesis using "1.prems" by (subst dec.simps) simp
  next
    case False
    obtain j where k: "k = Suc j" using "1.prems"(2) by (cases k) auto
    have j: "0 < j" using False "1.prems"(1) k by (cases j) auto
    have "n div 10 < 10 ^ j" using "1.prems"(1) k by (simp add: div_less_iff_less_mult mult.commute)
    then show ?thesis using "1.IH" [OF False _ j] False k by (subst dec.simps) simp
  qed
qed

lemma hd_dec: "0 < n \<Longrightarrow> hd (dec n) \<noteq> CHR ''0''"
proof (induction n rule: dec.induct)
  case (1 n)
  have d: "char_of (48 + k) \<noteq> CHR ''0''" if "k < 10" "0 < k" for k :: nat
  proof
    assume "char_of (48 + k) = CHR ''0''"
    then have "of_char (char_of (48 + k)) = (of_char CHR ''0'' :: nat)" by simp
    with that show False by simp
  qed
  show ?case
  proof (cases "n < 10")
    case True
    then show ?thesis using "1.prems" d [of n] by (subst dec.simps) simp
  next
    case False
    then show ?thesis using "1.IH" by (subst dec.simps) simp
  qed
qed

lemma parse_octet_dec:
  assumes "n < 256"
  shows "parse_octet (dec n) = Some n"
proof -
  have "length (dec n) \<le> 3" using assms length_dec [of n 3] by simp
  moreover have "dec n = ''0'' \<or> hd (dec n) \<noteq> CHR ''0''"
    using hd_dec [of n] by (cases "n = 0") (simp_all add: dec.simps)
  ultimately show ?thesis using assms by (auto simp: parse_octet_def all_digits_dec undec_dec)
qed

lemma push_octet: "n < 2 ^ 24 \<Longrightarrow> b < 256 \<Longrightarrow> push_bit 8 (of_nat n :: ipv4) OR of_nat b = of_nat (n * 256 + b)"
proof -
  assume b: "b < 256" and n: "n < 2 ^ 24"
  have "push_bit 8 (of_nat n :: ipv4) AND of_nat b = 0"
  proof (rule bit_word_eqI)
    fix i assume "i < LENGTH(32)"
    have "\<not> bit b i" if "8 \<le> i"
    proof -
      have "b < 2 ^ i" using b that power_increasing [of 8 i "2::nat"] by simp
      then show ?thesis by (simp add: bit_iff_odd)
    qed
    then show "bit (push_bit 8 (of_nat n) AND of_nat b :: ipv4) i \<longleftrightarrow> bit (0 :: ipv4) i"
      by (auto simp: bit_and_iff bit_push_bit_iff bit_of_nat_iff)
  qed
  then have "push_bit 8 (of_nat n :: ipv4) OR of_nat b = push_bit 8 (of_nat n) + of_nat b"
    by (simp add: disjunctive_add_eq_or)
  then show ?thesis by (simp add: push_bit_eq_mult mult.commute)
qed

lemma ipv4_dotted:
  assumes "octets q"
  shows "ipv4_address (dotted q) = Some (quad q)"
proof -
  obtain a b c d where q: "q = (a, b, c, d)" by (cases q) auto
  have lt: "a < 256" "b < 256" "c < 256" "d < 256" using assms by (simp_all add: q octets_def)
  have split: "split_on (CHR ''.'') (dotted q) = [dec a, dec b, dec c, dec d]"
    by (simp add: q dotted_def split_on_app split_on_none dec_no_sep)
  have "foldl (\<lambda>n b. push_bit 8 n OR of_nat b) 0 [a, b, c, d] = quad q"
    using lt push_octet [of 0 a] push_octet [of a b] push_octet [of "a * 256 + b" c] push_octet [of "(a * 256 + b) * 256 + c" d]
    by (simp add: q quad_def)
  moreover have "those (map parse_octet [dec a, dec b, dec c, dec d]) = Some [a, b, c, d]"
    using lt by (simp add: parse_octet_dec)
  moreover have "CHR ''/'' \<notin> set (dotted q)" "dotted q \<noteq> []" by (auto simp: q dotted_def dec_no_sep)
  ultimately show ?thesis using split by (simp add: ipv4_address_def ipv4_from_string_def)
qed

lemma ip_address_dotted: "octets q \<Longrightarrow> ip_address (dotted q) = Some (IPv4Address (quad q))"
  by (simp add: ip_address_def ipv4_dotted)

lemma prefix_dec: "p \<le> m \<Longrightarrow> m < 1000 \<Longrightarrow> prefix_from_prefix_string m (dec p) = Some p"
  using length_dec [of p 3] by (simp add: prefix_from_prefix_string_def all_digits_dec undec_dec)

lemma ip_network_dotted:
  assumes "octets q" "p \<le> 32"
  shows "ip_network (dotted q @ ''/'' @ dec p) = Some (IPv4Network (quad q AND mask_of p) (mask_of p))"
proof -
  have "CHR ''/'' \<notin> set (dotted q)" by (cases q) (auto simp: dotted_def dec_no_sep)
  then have "split_addr_prefix (dotted q @ ''/'' @ dec p) = Some (dotted q, Some (dec p))"
    by (simp add: split_addr_prefix_def split_on_app split_on_none dec_no_sep)
  then show ?thesis
    using assms by (simp add: ip_network_def ipv4_network_def ipv4_dotted make_netmask4_def prefix_dec)
qed

end
