(* ===== verification/Config.thy ===== *)
theory Config
  imports Util IPAddr
begin

text \<open>
  \<open>src/smtp_switch/config.py\<close>: the settings tree as records, its validators as functions to
  a sum (\<open>Inl\<close> the \<open>ValueError\<close> message), the constraints of the annotated field types as
  predicates, and the derived properties (\<open>sliding_windows\<close>, \<open>max_window_span\<close>,
  \<open>enabled_providers\<close>, \<open>provider\<close>, \<open>allowed_networks\<close>). How a settings value comes
  from the file and the environment is in \<open>Loading\<close>; it is an argument of the other components.
\<close>

section \<open>The settings tree\<close>

record tls_config =
  cert_file :: "string option"
  key_file :: "string option"
  require_starttls :: bool

record ingress_config =
  ing_host :: string
  ing_port :: int
  ing_hostname :: string
  ing_tls :: tls_config
  allowed_ips :: "string list"
  max_message_bytes :: int
  require_auth :: bool

record retry_config =
  base_delay_seconds :: int
  max_delay_seconds :: int
  max_attempts :: int
  max_age_hours :: int
  jitter_ratio :: rat

record dispatch_config =
  workers :: int
  spool_dir :: string
  claim_batch_size :: int
  poll_interval_seconds :: rat
  failover_per_tick :: int
  no_capacity_backoff_seconds :: int
  retry :: retry_config
  sent_retention_hours :: int
  deadletter_retention_hours :: int

record provider_limits =
  max_concurrent :: "int option"
  per_second :: "int option"
  per_minute :: "int option"
  per_hour :: "int option"
  per_day :: "int option"
  per_month :: "int option"
  month_reset_day :: int

record provider_smtp =
  smtp_host :: string
  smtp_port :: int
  starttls :: bool
  implicit_tls :: bool
  username :: "string option"
  password :: "string option"
  timeout_seconds :: int
  verify_cert :: bool

record provider_config =
  prov_name :: string
  prov_enabled :: bool
  priority :: int
  smtp :: provider_smtp
  limits :: provider_limits

record circuit_breaker_config =
  failure_threshold :: int
  cooldown_seconds :: int
  half_open_max_probes :: int

record web_config =
  web_host :: string
  web_port :: int
  session_secret :: string
  session_ttl_seconds :: int

record database_config =
  url :: string
  echo :: bool
  auto_create :: bool

datatype level_name = DEBUG | INFO | WARNING | ERROR

record logging_config =
  log_level :: level_name
  json_format :: bool

record settings =
  ingress :: ingress_config
  dispatch :: dispatch_config
  providers :: "provider_config list"
  circuit_breaker :: circuit_breaker_config
  web :: web_config
  database_cfg :: database_config
  logging :: logging_config
  metrics_enabled :: bool

section \<open>Model validators\<close>

definition check_pair :: "tls_config \<Rightarrow> string + tls_config" where
  "check_pair c =
     (if (cert_file c \<noteq> None) \<noteq> (key_file c \<noteq> None)
      then Inl ''tls.cert_file and tls.key_file must be set together''
      else if require_starttls c \<and> cert_file c = None
      then Inl ''tls.require_starttls is true but no cert_file/key_file given''
      else Inr c)"

definition tls_enabled :: "tls_config \<Rightarrow> bool" where
  "tls_enabled c \<longleftrightarrow> cert_file c \<noteq> None"

text \<open>The first entry that is not a network is reported.\<close>

definition validate_cidrs :: "string list \<Rightarrow> string + string list" where
  "validate_cidrs v = (case find (\<lambda>entry. ip_network entry = None) v of Some entry \<Rightarrow> Inl entry | None \<Rightarrow> Inr v)"

definition check_order :: "retry_config \<Rightarrow> string + retry_config" where
  "check_order c =
     (if max_delay_seconds c < base_delay_seconds c
      then Inl ''retry.max_delay_seconds must be >= base_delay_seconds''
      else Inr c)"

definition check_tls_mode :: "provider_smtp \<Rightarrow> string + provider_smtp" where
  "check_tls_mode c =
     (if implicit_tls c \<and> starttls c
      then Inl ''provider smtp: set only one of tls (implicit) or starttls''
      else Inr c)"

text \<open>\<open>dupes = {n for n in names if names.count(n) > 1}\<close>, kept as a list.\<close>

definition dupes :: "string list \<Rightarrow> string list" where
  "dupes names = filter (\<lambda>n. count_list names n > 1) names"

datatype settings_error = Duplicate_provider_names "string list"

definition validate_providers :: "settings \<Rightarrow> settings_error + settings" where
  "validate_providers s =
     (let names = map prov_name (providers s); d = remdups (dupes names)
      in if d \<noteq> [] then Inl (Duplicate_provider_names (sort d)) else Inr s)"

section \<open>Field constraints\<close>

definition pos_opt :: "int option \<Rightarrow> bool" where
  "pos_opt x \<longleftrightarrow> (case x of None \<Rightarrow> True | Some n \<Rightarrow> 0 < n)"

definition valid_limits :: "provider_limits \<Rightarrow> bool" where
  "valid_limits l \<longleftrightarrow>
     pos_opt (max_concurrent l) \<and> pos_opt (per_second l) \<and> pos_opt (per_minute l) \<and>
     pos_opt (per_hour l) \<and> pos_opt (per_day l) \<and> pos_opt (per_month l) \<and>
     1 \<le> month_reset_day l \<and> month_reset_day l \<le> 28"

definition valid_retry :: "retry_config \<Rightarrow> bool" where
  "valid_retry r \<longleftrightarrow>
     0 < base_delay_seconds r \<and> 0 < max_delay_seconds r \<and> 0 < max_attempts r \<and>
     0 < max_age_hours r \<and> 0 \<le> jitter_ratio r \<and> jitter_ratio r \<le> 1 \<and>
     check_order r = Inr r"

definition valid_dispatch :: "dispatch_config \<Rightarrow> bool" where
  "valid_dispatch d \<longleftrightarrow>
     0 < workers d \<and> 0 < claim_batch_size d \<and> 0 < poll_interval_seconds d \<and>
     0 < failover_per_tick d \<and> 0 < no_capacity_backoff_seconds d \<and> valid_retry (retry d) \<and>
     0 \<le> sent_retention_hours d \<and> 0 \<le> deadletter_retention_hours d"

text \<open>The pattern \<open>^[a-z0-9][a-z0-9_-]*$\<close> of a provider name.\<close>

definition is_lower_alnum :: "char \<Rightarrow> bool" where
  "is_lower_alnum c \<longleftrightarrow>
     (CHR ''a'' \<le> c \<and> c \<le> CHR ''z'') \<or> (CHR ''0'' \<le> c \<and> c \<le> CHR ''9'')"

definition valid_provider_name :: "string \<Rightarrow> bool" where
  "valid_provider_name s \<longleftrightarrow>
     (case s of [] \<Rightarrow> False
      | c # cs \<Rightarrow> is_lower_alnum c \<and>
          list_all (\<lambda>c. is_lower_alnum c \<or> c = CHR ''_'' \<or> c = CHR ''-'') cs)"

definition valid_smtp :: "provider_smtp \<Rightarrow> bool" where
  "valid_smtp c \<longleftrightarrow> 0 < smtp_port c \<and> 0 < timeout_seconds c \<and> check_tls_mode c = Inr c"

definition valid_provider :: "provider_config \<Rightarrow> bool" where
  "valid_provider p \<longleftrightarrow>
     valid_provider_name (prov_name p) \<and> valid_smtp (smtp p) \<and> valid_limits (limits p)"

definition valid_breaker :: "circuit_breaker_config \<Rightarrow> bool" where
  "valid_breaker c \<longleftrightarrow>
     0 < failure_threshold c \<and> 0 < cooldown_seconds c \<and> 0 < half_open_max_probes c"

definition valid_ingress :: "ingress_config \<Rightarrow> bool" where
  "valid_ingress c \<longleftrightarrow>
     0 \<le> ing_port c \<and> 0 < max_message_bytes c \<and> check_pair (ing_tls c) = Inr (ing_tls c) \<and>
     validate_cidrs (allowed_ips c) = Inr (allowed_ips c)"

definition valid_web :: "web_config \<Rightarrow> bool" where
  "valid_web c \<longleftrightarrow>
     0 \<le> web_port c \<and> 8 \<le> length (session_secret c) \<and> 0 < session_ttl_seconds c"

text \<open>What every settings object that construction did not reject satisfies.\<close>

definition valid_settings :: "settings \<Rightarrow> bool" where
  "valid_settings s \<longleftrightarrow>
     valid_ingress (ingress s) \<and> valid_dispatch (dispatch s) \<and>
     list_all valid_provider (providers s) \<and> valid_breaker (circuit_breaker s) \<and>
     valid_web (web s) \<and> validate_providers s = Inr s"

section \<open>Derived properties\<close>

definition allowed_networks :: "ingress_config \<Rightarrow> ip_net list option" where
  "allowed_networks c = those (map ip_network (allowed_ips c))"

definition sliding_windows :: "provider_limits \<Rightarrow> (string \<times> int \<times> int) list" where
  "sliding_windows l =
     (if truthy_int (per_second l) then [(''per_second'', 1, the (per_second l))] else []) @
     (if truthy_int (per_minute l) then [(''per_minute'', 60, the (per_minute l))] else []) @
     (if truthy_int (per_hour l) then [(''per_hour'', 3600, the (per_hour l))] else [])"

definition max_window_span :: "provider_limits \<Rightarrow> int" where
  "max_window_span l =
     (let spans = map (\<lambda>(_, sp, _). sp) (sliding_windows l)
      in if spans = [] then 0 else Max (set spans))"

definition prio_key :: "provider_config \<Rightarrow> int \<times> string" where
  "prio_key p = (priority p, prov_name p)"

definition settings_enabled_providers :: "settings \<Rightarrow> provider_config list" where
  "settings_enabled_providers s = sort_key prio_key (filter prov_enabled (providers s))"

definition provider :: "settings \<Rightarrow> string \<Rightarrow> provider_config option" where
  "provider s name = find (\<lambda>p. prov_name p = name) (providers s)"

section \<open>Lemmas\<close>

lemma dupes_empty_iff: "dupes names = [] \<longleftrightarrow> distinct names"
proof -
  have "dupes names = [] \<longleftrightarrow> (\<forall>n\<in>set names. count_list names n \<le> 1)"
    by (auto simp: dupes_def filter_empty_conv not_less)
  also have "\<dots> \<longleftrightarrow> (\<forall>n\<in>set names. count_list names n = 1)"
    by (metis count_list_0_iff le_antisym less_one linorder_not_less)
  also have "\<dots> \<longleftrightarrow> distinct names"
    using distinct_count_atmost_1 [of names] by (auto simp: count_mset count_list_0_iff)
  finally show ?thesis .
qed

lemma validate_providers_ok_iff:
  "validate_providers s = Inr s' \<longleftrightarrow> s' = s \<and> distinct (map prov_name (providers s))"
  by (auto simp: validate_providers_def Let_def dupes_empty_iff)

lemma valid_settings_distinct: "valid_settings s \<Longrightarrow> distinct (map prov_name (providers s))"
  by (simp add: valid_settings_def validate_providers_ok_iff)

lemma valid_settings_provider:
  "valid_settings s \<Longrightarrow> p \<in> set (providers s) \<Longrightarrow> valid_provider p"
  by (simp add: valid_settings_def list_all_iff)

lemma provider_SomeD: "provider s n = Some p \<Longrightarrow> p \<in> set (providers s) \<and> prov_name p = n"
  by (auto simp: provider_def find_Some_iff)

lemma provider_in:
  "distinct (map prov_name (providers s)) \<Longrightarrow> p \<in> set (providers s) \<Longrightarrow>
   provider s (prov_name p) = Some p"
  using get_by_distinct [of prov_name "providers s" p] by (simp add: provider_def get_by_def)

lemma those_map_Some: "(\<And>x. x \<in> set xs \<Longrightarrow> f x \<noteq> None) \<Longrightarrow> those (map f xs) = Some (map (the \<circ> f) xs)"
  by (induction xs) (auto split: option.splits)

lemma allowed_networks_valid:
  assumes "valid_ingress c"
  shows "allowed_networks c = Some (map (the \<circ> ip_network) (allowed_ips c))"
proof -
  have "ip_network e \<noteq> None" if "e \<in> set (allowed_ips c)" for e
    using assms that by (auto simp: valid_ingress_def validate_cidrs_def find_None_iff split: option.splits)
  then show ?thesis unfolding allowed_networks_def by (rule those_map_Some)
qed

lemma sliding_windows_member:
  "(w, sp, lm) \<in> set (sliding_windows l) \<longleftrightarrow>
     (w = ''per_second'' \<and> sp = 1 \<and> per_second l = Some lm \<and> lm \<noteq> 0) \<or>
     (w = ''per_minute'' \<and> sp = 60 \<and> per_minute l = Some lm \<and> lm \<noteq> 0) \<or>
     (w = ''per_hour'' \<and> sp = 3600 \<and> per_hour l = Some lm \<and> lm \<noteq> 0)"
  by (cases "per_second l"; cases "per_minute l"; cases "per_hour l")
     (auto simp: sliding_windows_def)

lemma sliding_windows_limit_pos:
  "valid_limits l \<Longrightarrow> (w, sp, lm) \<in> set (sliding_windows l) \<Longrightarrow> 0 < lm \<and> 0 < sp"
  by (auto simp: sliding_windows_member valid_limits_def pos_opt_def)

lemma max_window_span_ge:
  "(w, sp, lm) \<in> set (sliding_windows l) \<Longrightarrow> sp \<le> max_window_span l"
proof -
  assume mem: "(w, sp, lm) \<in> set (sliding_windows l)"
  let ?spans = "map (\<lambda>(_, sp, _). sp) (sliding_windows l)"
  have "sp \<in> set ?spans" using mem by force
  moreover from this have "?spans \<noteq> []" by auto
  ultimately show ?thesis unfolding max_window_span_def Let_def by simp
qed

lemma max_window_span_nonneg: "0 \<le> max_window_span l"
proof (cases "sliding_windows l")
  case (Cons x xs)
  obtain w sp lm where x: "x = (w, sp, lm)" by (cases x) auto
  with Cons have mem: "(w, sp, lm) \<in> set (sliding_windows l)" by simp
  then have "0 \<le> sp" by (auto simp: sliding_windows_member)
  with max_window_span_ge [OF mem] show ?thesis by simp
qed (simp add: max_window_span_def)

lemma max_window_span_pos_iff: "0 < max_window_span l \<longleftrightarrow> sliding_windows l \<noteq> []"
proof
  assume "sliding_windows l \<noteq> []"
  then obtain w sp lm where mem: "(w, sp, lm) \<in> set (sliding_windows l)"
    by (metis list.set_intros(1) neq_Nil_conv prod_cases3)
  then have "0 < sp" by (auto simp: sliding_windows_member)
  with max_window_span_ge [OF mem] show "0 < max_window_span l" by simp
qed (auto simp: max_window_span_def)

section \<open>Properties\<close>

lemma sort_nonempty: "sort (remdups (dupes names)) = [] \<longleftrightarrow> distinct names"
  by (metis dupes_empty_iff remdups_eq_nil_iff set_empty set_sort)

text \<open>The configuration validators accept what they should. The provider list is accepted, and
  then unchanged, exactly when all names are different, and otherwise the error lists, sorted and
  once each, exactly the names that occur more than once; a TLS section is accepted exactly when
  certificate and key are both given or both missing and \<open>require_starttls\<close> comes with a certificate;
  an outbound section exactly when it does not ask for implicit TLS and \<open>STARTTLS\<close> at once.\<close>

theorem validators_accept_exactly:
  "(case validate_providers s of
      Inr s' \<Rightarrow> s' = s \<and> distinct (map prov_name (providers s))
    | Inl (Duplicate_provider_names d) \<Rightarrow> d \<noteq> [] \<and> sorted d \<and> distinct d \<and>
        set d = {n. count_list (map prov_name (providers s)) n > 1}) \<and>
   (check_pair t = Inr t \<longleftrightarrow>
      ((cert_file t \<noteq> None) = (key_file t \<noteq> None)) \<and> \<not> (require_starttls t \<and> cert_file t = None)) \<and>
   (check_tls_mode c = Inr c \<longleftrightarrow> \<not> (implicit_tls c \<and> starttls c))"
proof -
  have "set (dupes names) = {n. count_list names n > 1}" for names
    by (auto simp: dupes_def) (metis count_list_0_iff not_less_zero)
  then have "case validate_providers s of
      Inr s' \<Rightarrow> s' = s \<and> distinct (map prov_name (providers s))
    | Inl (Duplicate_provider_names d) \<Rightarrow> d \<noteq> [] \<and> sorted d \<and> distinct d \<and>
        set d = {n. count_list (map prov_name (providers s)) n > 1}"
    using sort_nonempty by (simp add: validate_providers_def Let_def dupes_empty_iff)
  moreover have "check_pair t = Inr t \<longleftrightarrow>
      ((cert_file t \<noteq> None) = (key_file t \<noteq> None)) \<and> \<not> (require_starttls t \<and> cert_file t = None)"
    "check_tls_mode c = Inr c \<longleftrightarrow> \<not> (implicit_tls c \<and> starttls c)"
    by (auto simp: check_pair_def check_tls_mode_def)
  ultimately show ?thesis by blast
qed

end
