(* ===== verification/Models.thy ===== *)
theory Models
  imports Config
begin

text \<open>
  \<open>src/smtp_switch/db/models.py\<close>: one record per table row and the database as a record of
  tables. A table whose rows are searched, ordered or deleted by condition is a list of rows in
  row id order; a table that is only read and written by its primary key is a map from the key.
\<close>

datatype message_status = QUEUED | SENDING | SENT | DEADLETTER

text \<open>The four outcome classifications of \<open>dispatch/sender.py\<close>, which
  \<open>delivery_attempts.result\<close> stores.\<close>

datatype classification = Sent | Transient | Permanent | Connect_error

record message =
  msg_id :: int
  received_at :: datetime
  submitting_account :: "string option"
  from_addr :: string
  rcpt_to :: "string list"
  subject :: "string option"
  message_id_header :: "string option"
  msg_size :: int
  spool_path :: string
  status :: message_status
  attempts :: int
  next_attempt_at :: datetime
  last_error :: "string option"
  provider_used :: "string option"
  sent_at :: "datetime option"
  claimed_at :: "datetime option"

record delivery_attempt =
  att_id :: int
  att_message_id :: int
  attempt_no :: int
  att_provider :: "string option"
  started_at :: datetime
  finished_at :: "datetime option"
  att_result :: classification
  smtp_code :: "int option"
  att_error :: "string option"

record send_log_entry =
  sl_id :: int
  sl_provider :: string
  sl_message_id :: "int option"
  sl_sent_at :: datetime

record provider_quota =
  q_count :: int
  q_updated_at :: datetime

record provider_state =
  healthy :: bool
  consecutive_failures :: int
  opened_at :: "datetime option"
  half_open_probes :: int
  last_failure_at :: "datetime option"
  last_success_at :: "datetime option"
  ps_updated_at :: datetime

record account =
  acct_id :: int
  acct_username :: string
  acct_password_hash :: string
  acct_description :: "string option"
  acct_enabled :: bool
  acct_created_at :: datetime
  acct_last_used_at :: "datetime option"

record dashboard_user =
  user_id :: int
  user_username :: string
  user_password_hash :: string
  user_enabled :: bool
  user_created_at :: datetime

record provider_override =
  ov_enabled :: "bool option"
  ov_note :: "string option"
  ov_updated_at :: datetime

text \<open>The primary key of \<open>provider_quota\<close>: provider, period key, scope.\<close>

type_synonym quota_key = "string \<times> string \<times> string"

record database =
  messages :: "message list"
  delivery_attempts :: "delivery_attempt list"
  send_log :: "send_log_entry list"
  quota :: "quota_key \<Rightarrow> provider_quota option"
  state_rows :: "string \<Rightarrow> provider_state option"
  accounts :: "account list"
  dashboard_users :: "dashboard_user list"
  override_rows :: "string \<Rightarrow> provider_override option"

definition empty_database :: database where
  "empty_database =
     \<lparr>messages = [], delivery_attempts = [], send_log = [], quota = Map.empty,
      state_rows = Map.empty, accounts = [], dashboard_users = [], override_rows = Map.empty\<rparr>"

definition quota_of :: "database \<Rightarrow> quota_key \<Rightarrow> int" where
  "quota_of d k = (case quota d k of None \<Rightarrow> 0 | Some row \<Rightarrow> q_count row)"

text \<open>Primary and foreign keys: what SQLite enforces on every committed transaction.\<close>

definition db_keys :: "database \<Rightarrow> bool" where
  "db_keys d \<longleftrightarrow>
     distinct (map msg_id (messages d)) \<and>
     distinct (map att_id (delivery_attempts d)) \<and>
     distinct (map sl_id (send_log d)) \<and>
     (\<forall>a \<in> set (delivery_attempts d). att_message_id a \<in> msg_id ` set (messages d))"

lemma db_keys_empty: "db_keys empty_database"
  by (simp add: db_keys_def empty_database_def)

end
