(* ===== verification/World.thy ===== *)
theory World
  imports Models
begin

text \<open>
  The state the operations of the program pass along. \<open>env\<close> is what the process reads from
  outside: the clock and the random generator, each a sequence indexed by the number of readings
  made so far, so that two calls of \<open>utcnow()\<close> in one operation are two readings. \<open>world\<close> is the
  rest: the database, the in-memory state of the rate limiter, the circuit breaker and the
  provider registry, the dispatcher's queue, the spool directory and the Prometheus counters.
\<close>

record env =
  clock :: "nat \<Rightarrow> datetime"
  rand :: "nat \<Rightarrow> rat"

text \<open>\<open>dispatch/health.py\<close>, class \<open>_State\<close> (its lock is implicit: operations are atomic).\<close>

record cb_state =
  cb_healthy :: bool
  cb_failures :: int
  cb_opened_at :: "datetime option"
  cb_probes :: int
  cb_last_failure_at :: "datetime option"
  cb_last_success_at :: "datetime option"

record counters =
  messages_received :: "string \<Rightarrow> int"
  messages_sent :: "string \<Rightarrow> int"
  messages_failed :: "string \<times> classification \<Rightarrow> int"
  messages_deadlettered :: "string \<Rightarrow> int"

record world =
  tick :: nat
  db :: database
  inflight :: "string \<Rightarrow> int"
  states :: "string \<Rightarrow> cb_state option"
  overrides :: "string \<Rightarrow> bool option option"
  queue :: "int list"
  wakeup :: bool
  spool :: "string \<Rightarrow> string option"
  metrics :: counters

text \<open>The exceptions an operation of the program lets through.\<close>

datatype exn =
    KeyError string
  | FileNotFoundError string
  | IntegrityError string
  | AttributeError string
  | Unexpected string

abbreviation bump_label :: "('a \<Rightarrow> int) \<Rightarrow> 'a \<Rightarrow> 'a \<Rightarrow> int" where
  "bump_label m l \<equiv> m(l := m l + 1)"

definition empty_counters :: counters where
  "empty_counters = \<lparr>messages_received = (\<lambda>_. 0), messages_sent = (\<lambda>_. 0),
     messages_failed = (\<lambda>_. 0), messages_deadlettered = (\<lambda>_. 0)\<rparr>"

definition init_world :: world where
  "init_world = \<lparr>tick = 0, db = empty_database, inflight = (\<lambda>_. 0), states = Map.empty,
     overrides = Map.empty, queue = [], wakeup = False, spool = Map.empty, metrics = empty_counters\<rparr>"

section \<open>Readings\<close>

definition utcnow :: "'e env_scheme \<Rightarrow> world \<Rightarrow> datetime \<times> world" where
  "utcnow e w = (clock e (tick w), w\<lparr>tick := Suc (tick w)\<rparr>)"

definition random_random :: "'e env_scheme \<Rightarrow> world \<Rightarrow> rat \<times> world" where
  "random_random e w = (rand e (tick w), w\<lparr>tick := Suc (tick w)\<rparr>)"

text \<open>A clock that is never set back, and readings of \<open>random.random()\<close> in their range.\<close>

definition mono_clock :: "'e env_scheme \<Rightarrow> bool" where
  "mono_clock e \<longleftrightarrow> (\<forall>m n. m \<le> n \<longrightarrow> clock e m \<le> clock e n)"

definition rand_ok :: "'e env_scheme \<Rightarrow> bool" where
  "rand_ok e \<longleftrightarrow> (\<forall>n. 0 \<le> rand e n \<and> rand e n < 1)"

lemma mono_clockD: "mono_clock e \<Longrightarrow> m \<le> n \<Longrightarrow> clock e m \<le> clock e n"
  by (simp add: mono_clock_def)

lemma utcnow_simps [simp]:
  "fst (utcnow e w) = clock e (tick w)"
  "snd (utcnow e w) = w\<lparr>tick := Suc (tick w)\<rparr>"
  by (simp_all add: utcnow_def)

lemma random_random_simps [simp]:
  "fst (random_random e w) = rand e (tick w)"
  "snd (random_random e w) = w\<lparr>tick := Suc (tick w)\<rparr>"
  by (simp_all add: random_random_def)

abbreviation upd_db :: "(database \<Rightarrow> database) \<Rightarrow> world \<Rightarrow> world" where
  "upd_db f w \<equiv> w\<lparr>db := f (db w)\<rparr>"

section \<open>A concrete configuration\<close>

text \<open>
  Two providers, a two-strike breaker, three failovers per tick and a clock that advances by a
  second per reading from 2026-08-31 05:00: the input at which the witnesses evaluate the model.
\<close>

definition demo_smtp :: provider_smtp where
  "demo_smtp = \<lparr>smtp_host = ''127.0.0.1'', smtp_port = 25, starttls = False, implicit_tls = False,
     username = None, password = None, timeout_seconds = 30, verify_cert = False\<rparr>"

definition demo_limits :: provider_limits where
  "demo_limits = \<lparr>max_concurrent = Some 2, per_second = None, per_minute = Some 3, per_hour = None,
     per_day = Some 5, per_month = Some 9, month_reset_day = 15\<rparr>"

definition no_limits :: provider_limits where
  "no_limits = \<lparr>max_concurrent = None, per_second = None, per_minute = None, per_hour = None,
     per_day = None, per_month = None, month_reset_day = 1\<rparr>"

definition demo_breaker :: circuit_breaker_config where
  "demo_breaker = \<lparr>failure_threshold = 2, cooldown_seconds = 60, half_open_max_probes = 1\<rparr>"

definition demo_a :: provider_config where
  "demo_a = \<lparr>prov_name = ''a'', prov_enabled = True, priority = 20, smtp = demo_smtp,
     limits = no_limits\<rparr>"

definition demo_b :: provider_config where
  "demo_b = \<lparr>prov_name = ''b'', prov_enabled = True, priority = 10, smtp = demo_smtp,
     limits = demo_limits\<rparr>"

definition demo_settings :: settings where
  "demo_settings =
     \<lparr>ingress = \<lparr>ing_host = ''127.0.0.1'', ing_port = 2525, ing_hostname = ''switch'',
        ing_tls = \<lparr>cert_file = None, key_file = None, require_starttls = False\<rparr>,
        allowed_ips = [''127.0.0.1/32''], max_message_bytes = 1000, require_auth = False\<rparr>,
      dispatch = \<lparr>workers = 2, spool_dir = ''spool'', claim_batch_size = 2,
        poll_interval_seconds = 1, failover_per_tick = 3, no_capacity_backoff_seconds = 20,
        retry = \<lparr>base_delay_seconds = 30, max_delay_seconds = 3600, max_attempts = 3,
          max_age_hours = 48, jitter_ratio = 0\<rparr>,
        sent_retention_hours = 168, deadletter_retention_hours = 720\<rparr>,
      providers = [demo_a, demo_b], circuit_breaker = demo_breaker,
      web = \<lparr>web_host = ''127.0.0.1'', web_port = 8080, session_secret = ''change-me'',
        session_ttl_seconds = 86400\<rparr>,
      database_cfg = \<lparr>url = ''sqlite'', echo = False, auto_create = True\<rparr>,
      logging = \<lparr>log_level = INFO, json_format = True\<rparr>,
      metrics_enabled = True\<rparr>"

definition demo_epoch :: datetime where
  "demo_epoch = mk_datetime 2026 8 31 5 0"

definition demo_env :: env where
  "demo_env = \<lparr>clock = (\<lambda>n. demo_epoch + int n * 1000000), rand = (\<lambda>_. 1/2)\<rparr>"

lemmas demo_defs = demo_smtp_def demo_limits_def no_limits_def demo_breaker_def demo_a_def demo_b_def
  demo_settings_def demo_env_def

lemma demo_breaker_valid [simp]: "valid_breaker demo_breaker"
  by (simp add: valid_breaker_def demo_breaker_def)

lemma demo_settings_valid [simp]: "valid_settings demo_settings"
  by code_simp

lemma demo_env_mono [simp]: "mono_clock demo_env"
  by (simp add: mono_clock_def demo_env_def)

lemma demo_env_rand [simp]: "rand_ok demo_env"
  by (simp add: rand_ok_def demo_env_def)

lemma demo_settings_breaker [simp]: "circuit_breaker demo_settings = demo_breaker"
  by (simp add: demo_settings_def)

lemma demo_provider [simp]:
  "provider demo_settings ''a'' = Some demo_a" "provider demo_settings ''b'' = Some demo_b"
  by (simp_all add: provider_def demo_defs)

lemma demo_epoch_value: "demo_epoch = 63923749200000000"
  by code_simp

end
