(* ===== verification/Accounts.thy ===== *)
theory Accounts
  imports World
begin

text \<open>
  \<open>src/smtp_switch/security.py\<close> and \<open>src/smtp_switch/ingress/auth.py\<close>: password hashing, the in-memory
  snapshot of the \<open>accounts\<close> table, the SMTP authenticator with the tasks it schedules, and the
  filter on the peer's address. The argon2 library and \<open>secrets\<close> are parameters (\<open>crypto\<close>): a hash is
  salted, so that two calls with one password are two readings.
\<close>

section \<open>Passwords\<close>

datatype verify_outcome = Verified | VerifyMismatchError | InvalidHashError | VerificationError

record crypto =
  hasher_hash :: "nat \<Rightarrow> string \<Rightarrow> string"
  hasher_verify :: "string \<Rightarrow> string \<Rightarrow> verify_outcome"
  hasher_check_needs_rehash :: "string \<Rightarrow> bool option"
  token_urlsafe :: "nat \<Rightarrow> string"

definition hash_password :: "crypto \<Rightarrow> string \<Rightarrow> world \<Rightarrow> string \<times> world" where
  "hash_password c plaintext w = (hasher_hash c (tick w) plaintext, w\<lparr>tick := Suc (tick w)\<rparr>)"

definition verify_password :: "crypto \<Rightarrow> string \<Rightarrow> string \<Rightarrow> exn + bool" where
  "verify_password c stored_hash plaintext =
     (case hasher_verify c stored_hash plaintext of
        Verified \<Rightarrow> Inr True
      | VerifyMismatchError \<Rightarrow> Inr False
      | InvalidHashError \<Rightarrow> Inr False
      | VerificationError \<Rightarrow> Inl (Unexpected ''VerificationError''))"

text \<open>\<open>None\<close> is an \<open>InvalidHashError\<close>.\<close>

definition needs_rehash :: "crypto \<Rightarrow> string \<Rightarrow> bool" where
  "needs_rehash c stored_hash =
     (case hasher_check_needs_rehash c stored_hash of Some b \<Rightarrow> b | None \<Rightarrow> True)"

text \<open>What argon2 documents: a hash it made verifies the password it was made from, and any other
  password is a mismatch.\<close>

definition argon2_ok :: "crypto \<Rightarrow> bool" where
  "argon2_ok c \<longleftrightarrow> (\<forall>n p q. hasher_verify c (hasher_hash c n p) q = (if q = p then Verified else VerifyMismatchError))"

section \<open>The peer filter\<close>

text \<open>\<open>session.peer\<close>: nothing, a tuple that starts with the host, or something else (the name of a
  local socket).\<close>

datatype peer = No_peer | Peer_tuple string | Peer_other string

definition unmap :: "ip_addr \<Rightarrow> ip_addr" where
  "unmap a = (case a of
       IPv6Address v _ \<Rightarrow> (case ipv4_mapped v of Some b \<Rightarrow> IPv4Address b | None \<Rightarrow> a)
     | IPv4Address _ \<Rightarrow> a)"

definition peer_allowed :: "peer \<Rightarrow> ip_net list \<Rightarrow> bool" where
  "peer_allowed p networks =
     (if networks = [] then True
      else case p of
             Peer_tuple host \<Rightarrow>
               (case ip_address host of
                  None \<Rightarrow> False
                | Some addr \<Rightarrow> list_ex (in_network (unmap addr)) networks)
           | _ \<Rightarrow> False)"

section \<open>The account store\<close>

record cached_account =
  ca_id :: int
  ca_password_hash :: string
  ca_enabled :: bool

text \<open>The snapshot, and the \<open>_touch_account\<close> tasks that have been created and have not run.\<close>

record account_store =
  acct_by_name :: "string \<Rightarrow> cached_account option"
  touches :: "(int \<times> string option) list"

definition cache_row :: "account \<Rightarrow> string \<times> cached_account" where
  "cache_row r = (acct_username r, \<lparr>ca_id = acct_id r, ca_password_hash = acct_password_hash r, ca_enabled = acct_enabled r\<rparr>)"

definition store_refresh :: "world \<Rightarrow> account_store \<Rightarrow> account_store" where
  "store_refresh w st = st\<lparr>acct_by_name := map_of (rev (map cache_row (accounts (db w))))\<rparr>"

definition schedule_touch :: "int \<Rightarrow> string option \<Rightarrow> account_store \<Rightarrow> account_store" where
  "schedule_touch account_id pw st = st\<lparr>touches := touches st @ [(account_id, pw)]\<rparr>"

definition store_verify :: "crypto \<Rightarrow> string \<Rightarrow> string \<Rightarrow> account_store \<Rightarrow> (exn + string option) \<times> account_store" where
  "store_verify c user pw st =
     (case acct_by_name st user of
        None \<Rightarrow> (Inr None, st)
      | Some acct \<Rightarrow>
          if \<not> ca_enabled acct then (Inr None, st)
          else (case verify_password c (ca_password_hash acct) pw of
                  Inl x \<Rightarrow> (Inl x, st)
                | Inr False \<Rightarrow> (Inr None, st)
                | Inr True \<Rightarrow>
                    (Inr (Some user),
                     schedule_touch (ca_id acct)
                       (if needs_rehash c (ca_password_hash acct) then Some pw else None) st)))"

section \<open>The authenticator\<close>

datatype py_value = PyBytes string | PyStr string | PyNone

text \<open>\<open>bytes.decode('utf-8', 'replace')\<close> is an argument: its results contain characters with codes
  above 255.\<close>

definition decode_value :: "(string \<Rightarrow> string) \<Rightarrow> py_value \<Rightarrow> string" where
  "decode_value utf8 v = (case v of PyBytes b \<Rightarrow> utf8 b | PyStr s \<Rightarrow> s | PyNone \<Rightarrow> [])"

datatype auth_data = LoginPassword py_value py_value | Other_auth_data

record auth_result =
  auth_success :: bool
  auth_handled :: bool
  auth_user :: "string option"

definition auth_refused :: auth_result where
  "auth_refused = \<lparr>auth_success = False, auth_handled = False, auth_user = None\<rparr>"

definition authenticator ::
  "crypto \<Rightarrow> (string \<Rightarrow> string) \<Rightarrow> auth_data \<Rightarrow> account_store \<Rightarrow> (exn + auth_result) \<times> account_store" where
  "authenticator c utf8 ad st =
     (case ad of
        Other_auth_data \<Rightarrow> (Inr auth_refused, st)
      | LoginPassword l p \<Rightarrow>
          let user = decode_value utf8 l; pw = decode_value utf8 p in
          if user = [] \<or> pw = [] then (Inr auth_refused, st)
          else (case store_verify c user pw st of
                  (Inl x, st) \<Rightarrow> (Inl x, st)
                | (Inr None, st) \<Rightarrow> (Inr auth_refused, st)
                | (Inr (Some _), st) \<Rightarrow>
                    (Inr \<lparr>auth_success = True, auth_handled = True, auth_user = Some user\<rparr>, st)))"

definition update_accounts :: "(account \<Rightarrow> bool) \<Rightarrow> (account \<Rightarrow> account) \<Rightarrow> world \<Rightarrow> world" where
  "update_accounts P f w = w\<lparr>db := (db w)\<lparr>accounts := update_where P f (accounts (db w))\<rparr>\<rparr>"

definition touch_account :: "'e env_scheme \<Rightarrow> crypto \<Rightarrow> int \<Rightarrow> string option \<Rightarrow> world \<Rightarrow> world" where
  "touch_account e c account_id pw w =
     (case get_by acct_id account_id (accounts (db w)) of
        None \<Rightarrow> w
      | Some _ \<Rightarrow>
          let (now, w) = utcnow e w;
              w = update_accounts (\<lambda>a. acct_id a = account_id) (\<lambda>a. a\<lparr>acct_last_used_at := Some now\<rparr>) w
          in case pw of
               Some p \<Rightarrow>
                 if p = [] then w
                 else (let (h, w) = hash_password c p w
                       in update_accounts (\<lambda>a. acct_id a = account_id) (\<lambda>a. a\<lparr>acct_password_hash := h\<rparr>) w)
             | None \<Rightarrow> w)"

text \<open>The event loop starts the oldest task.\<close>

definition run_touch :: "'e env_scheme \<Rightarrow> crypto \<Rightarrow> account_store \<times> world \<Rightarrow> account_store \<times> world" where
  "run_touch e c = (\<lambda>(st, w).
     case touches st of
       [] \<Rightarrow> (st, w)
     | (account_id, pw) # rest \<Rightarrow> (st\<lparr>touches := rest\<rparr>, touch_account e c account_id pw w))"

section \<open>Lemmas\<close>

text \<open>Primary key and unique constraint of the table.\<close>

definition acct_table_ok :: "world \<Rightarrow> bool" where
  "acct_table_ok w \<longleftrightarrow> distinct (map acct_id (accounts (db w))) \<and> distinct (map acct_username (accounts (db w)))"

definition account_of :: "world \<Rightarrow> string \<Rightarrow> account option" where
  "account_of w user = get_by acct_username user (accounts (db w))"

lemma map_of_rev_cache:
  "distinct (map acct_username rows) \<Longrightarrow>
   map_of (rev (map cache_row rows)) user = map_option (snd \<circ> cache_row) (get_by acct_username user rows)"
proof (induction rows)
  case (Cons r rows)
  show ?case
  proof (cases "acct_username r = user")
    case True
    then have "get_by acct_username user rows = None" using Cons.prems by (auto simp: get_by_None_iff)
    then show ?thesis using Cons True by (simp add: map_add_def get_by_def cache_row_def)
  next
    case False
    then show ?thesis using Cons by (simp add: map_add_def get_by_def cache_row_def split: option.splits)
  qed
qed (simp add: get_by_def)

lemma refresh_lookup:
  "acct_table_ok w \<Longrightarrow> acct_by_name (store_refresh w st) user = map_option (snd \<circ> cache_row) (account_of w user)"
  by (simp add: store_refresh_def acct_table_ok_def account_of_def map_of_rev_cache)

text \<open>What the snapshot grants, without the exception that argon2 raises on a damaged hash.\<close>

definition grants :: "crypto \<Rightarrow> account_store \<Rightarrow> string \<Rightarrow> string \<Rightarrow> bool" where
  "grants c st user pw \<longleftrightarrow> (\<exists>acct. acct_by_name st user = Some acct \<and> ca_enabled acct \<and>
     hasher_verify c (ca_password_hash acct) pw = Verified)"

definition succeeds :: "(exn + auth_result) \<times> account_store \<Rightarrow> bool" where
  "succeeds r \<longleftrightarrow> (case fst r of Inr a \<Rightarrow> auth_success a | Inl _ \<Rightarrow> False)"

lemma verify_grants: "(\<exists>u. fst (store_verify c user pw st) = Inr (Some u)) \<longleftrightarrow> grants c st user pw"
  by (auto simp: store_verify_def grants_def verify_password_def split: option.splits verify_outcome.splits)

lemma update_accounts_simps [simp]:
  "messages (db (update_accounts P f w)) = messages (db w)"
  "delivery_attempts (db (update_accounts P f w)) = delivery_attempts (db w)"
  "send_log (db (update_accounts P f w)) = send_log (db w)"
  "quota (db (update_accounts P f w)) = quota (db w)"
  "accounts (db (update_accounts P f w)) = update_where P f (accounts (db w))"
  "tick (update_accounts P f w) = tick w" "spool (update_accounts P f w) = spool w"
  "queue (update_accounts P f w) = queue w" "inflight (update_accounts P f w) = inflight w"
  by (simp_all add: update_accounts_def)

text \<open>Everything but the account table and the clock is unchanged.\<close>

definition account_frame :: "world \<Rightarrow> world \<Rightarrow> bool" where
  "account_frame w w' \<longleftrightarrow> (\<exists>n rows. w' = w\<lparr>tick := tick w + n, db := (db w)\<lparr>accounts := rows\<rparr>\<rparr>)"

lemma account_frame_refl [simp]: "account_frame w w"
  unfolding account_frame_def by (rule exI [of _ 0], rule exI [of _ "accounts (db w)"]) simp

lemma account_frame_trans: "account_frame u v \<Longrightarrow> account_frame v w \<Longrightarrow> account_frame u w"
  unfolding account_frame_def by (elim exE, hypsubst, simp add: add.assoc) blast

lemma account_frame_tick: "account_frame w (w\<lparr>tick := Suc (tick w)\<rparr>)"
  unfolding account_frame_def by (rule exI [of _ 1], rule exI [of _ "accounts (db w)"]) simp

lemma account_frame_update: "account_frame w (update_accounts P f w)"
  unfolding account_frame_def by (rule exI [of _ 0]) (auto simp: update_accounts_def)

lemma account_frame_fields:
  assumes "account_frame w w'"
  shows "messages (db w') = messages (db w)" "delivery_attempts (db w') = delivery_attempts (db w)"
    "send_log (db w') = send_log (db w)" "quota (db w') = quota (db w)" "state_rows (db w') = state_rows (db w)"
    "override_rows (db w') = override_rows (db w)" "dashboard_users (db w') = dashboard_users (db w)"
    "inflight w' = inflight w" "spool w' = spool w" "queue w' = queue w" "states w' = states w"
    "overrides w' = overrides w" "tick w \<le> tick w'"
  using assms by (auto simp: account_frame_def)

lemma touch_frame: "account_frame w (touch_account e c i pw w)"
proof -
  let ?w1 = "w\<lparr>tick := Suc (tick w)\<rparr>"
  let ?w2 = "update_accounts (\<lambda>a. acct_id a = i) (\<lambda>a. a\<lparr>acct_last_used_at := Some (clock e (tick w))\<rparr>) ?w1"
  have 2: "account_frame w ?w2" by (rule account_frame_trans [OF account_frame_tick account_frame_update])
  have 3: "account_frame w (update_accounts P f (?w2\<lparr>tick := Suc (tick ?w2)\<rparr>))" for P f
    by (rule account_frame_trans [OF account_frame_trans [OF 2 account_frame_tick] account_frame_update])
  show ?thesis using 2 3
    by (auto simp: touch_account_def utcnow_def hash_password_def Let_def split: option.splits)
qed

text \<open>The effect of a touch on the account with that id.\<close>

definition touched :: "'e env_scheme \<Rightarrow> crypto \<Rightarrow> string option \<Rightarrow> nat \<Rightarrow> account \<Rightarrow> account" where
  "touched e c pw n a = a\<lparr>acct_last_used_at := Some (clock e n),
     acct_password_hash := (case pw of Some p \<Rightarrow> if p = [] then acct_password_hash a else hasher_hash c (Suc n) p
                            | None \<Rightarrow> acct_password_hash a)\<rparr>"

lemma touch_rows:
  "accounts (db (touch_account e c i pw w)) = update_where (\<lambda>a. acct_id a = i) (touched e c pw (tick w)) (accounts (db w))"
proof (cases "get_by acct_id i (accounts (db w))")
  case None
  then have "acct_id a \<noteq> i" if "a \<in> set (accounts (db w))" for a using that by (auto simp: get_by_None_iff)
  then have "update_where (\<lambda>a. acct_id a = i) f (accounts (db w)) = accounts (db w)" for f
    by (simp add: update_where_def map_idI)
  then show ?thesis using None by (simp add: touch_account_def)
next
  case (Some a)
  then show ?thesis
    by (cases pw) (auto simp: touch_account_def Let_def utcnow_def hash_password_def touched_def update_where_def)
qed

lemma touch_table_ok: "acct_table_ok w \<Longrightarrow> acct_table_ok (touch_account e c i pw w)"
  using map_update_where [of "\<lambda>a. acct_id a = i" acct_id "touched e c pw (tick w)"]
    map_update_where [of "\<lambda>a. acct_id a = i" acct_username "touched e c pw (tick w)"]
  by (simp add: acct_table_ok_def touch_rows touched_def)

section \<open>Properties\<close>

lemma peer_allowed_tuple:
  "ip_address host = Some a \<Longrightarrow> peer_allowed (Peer_tuple host) [n] \<longleftrightarrow> in_network (unmap a) n"
  by (simp add: peer_allowed_def)



text \<open>Claim C36: the authenticator lets in exactly the holders of an enabled account. After a refresh of
  the snapshot, and with hashes that argon2 can read, a login succeeds exactly when user name and
  password are not empty, the table has an enabled account of that name and argon2 verifies the
  password against its hash; it then reports that name and schedules one touch of that account,
  and a refused login leaves the store as it was.\<close>

theorem authenticator_decides_by_account:
  assumes "acct_table_ok w" "\<forall>a \<in> set (accounts (db w)). \<forall>p. hasher_verify c (acct_password_hash a) p \<noteq> VerificationError"
  shows "\<exists>r st'. authenticator c utf8 (LoginPassword l p) (store_refresh w st) = (Inr r, st') \<and>
    (auth_success r \<longleftrightarrow> decode_value utf8 l \<noteq> [] \<and> decode_value utf8 p \<noteq> [] \<and>
       (\<exists>a. account_of w (decode_value utf8 l) = Some a \<and> acct_enabled a \<and>
          hasher_verify c (acct_password_hash a) (decode_value utf8 p) = Verified)) \<and>
    (auth_success r \<longrightarrow> auth_user r = Some (decode_value utf8 l) \<and>
       (\<exists>a pw. account_of w (decode_value utf8 l) = Some a \<and> touches st' = touches st @ [(acct_id a, pw)])) \<and>
    (\<not> auth_success r \<longrightarrow> r = auth_refused \<and> st' = store_refresh w st)"
proof -
  let ?u = "decode_value utf8 l" and ?p = "decode_value utf8 p"
  have row: "a \<in> set (accounts (db w))" if "account_of w ?u = Some a" for a
    using that get_by_Some_in [of acct_username] by (auto simp: account_of_def)
  show ?thesis
  proof (cases "account_of w ?u")
    case None
    then show ?thesis using refresh_lookup [OF assms(1), of st ?u]
      by (simp add: authenticator_def store_verify_def auth_refused_def Let_def)
  next
    case (Some a)
    then have look: "acct_by_name (store_refresh w st) ?u = Some (snd (cache_row a))"
      using refresh_lookup [OF assms(1), of st ?u] by simp
    have "hasher_verify c (acct_password_hash a) ?p \<noteq> VerificationError" using assms(2) row [OF Some] by blast
    then show ?thesis using look Some
      by (cases "hasher_verify c (acct_password_hash a) ?p")
         (auto simp: authenticator_def store_verify_def auth_refused_def Let_def cache_row_def verify_password_def
            schedule_touch_def store_refresh_def)
  qed
qed

text \<open>An instance of the library's contract: a hash that keeps its password, outdated when it starts
  with \<open>o\<close>.\<close>

definition demo_crypto :: crypto where
  "demo_crypto = \<lparr>hasher_hash = (\<lambda>_ p. CHR ''h'' # p),
     hasher_verify = (\<lambda>h p. if tl h = p then Verified else VerifyMismatchError),
     hasher_check_needs_rehash = (\<lambda>h. if h = [] then None else Some (hd h = CHR ''o'')),
     token_urlsafe = (\<lambda>_. ''token'')\<rparr>"

lemma demo_argon2_ok [simp]: "argon2_ok demo_crypto"
  by (auto simp: argon2_ok_def demo_crypto_def)

definition demo_account :: account where
  "demo_account = \<lparr>acct_id = 1, acct_username = ''svc'', acct_password_hash = ''osecret99'', acct_description = None,
     acct_enabled = True, acct_created_at = demo_epoch, acct_last_used_at = None\<rparr>"

definition demo_account_world :: world where
  "demo_account_world = init_world\<lparr>db := empty_database\<lparr>accounts := [demo_account]\<rparr>\<rparr>"

definition empty_store :: account_store where
  "empty_store = \<lparr>acct_by_name = Map.empty, touches = []\<rparr>"

lemma demo_table_ok: "acct_table_ok demo_account_world"
  by (simp add: acct_table_ok_def demo_account_world_def)

theorem authenticator_decides_by_account_witness:
  "\<exists>r st'. authenticator demo_crypto id (LoginPassword (PyBytes ''svc'') (PyBytes ''secret99''))
       (store_refresh demo_account_world empty_store) = (Inr r, st') \<and> auth_success r \<and> auth_user r = Some ''svc''"
proof -
  have "\<forall>a \<in> set (accounts (db demo_account_world)). \<forall>p. hasher_verify demo_crypto (acct_password_hash a) p \<noteq> VerificationError"
    by (simp add: demo_crypto_def)
  from authenticator_decides_by_account [OF demo_table_ok this, of id "PyBytes ''svc''" "PyBytes ''secret99''" empty_store]
  show ?thesis
    by (auto simp: decode_value_def account_of_def demo_account_world_def demo_account_def get_by_def demo_crypto_def)
qed

text \<open>The bookkeeping after a login never locks an account out. Whatever touch runs, all other
  accounts and all other tables keep their contents, the account keeps its name, its switch and its
  creation time, ids and names stay unique, and the password of the login still verifies
  afterwards, also when its hash was renewed.\<close>

theorem touch_keeps_password:
  assumes "argon2_ok c" "acct_table_ok w" "account_of w user = Some a"
    "hasher_verify c (acct_password_hash a) p = Verified"
    "w' = touch_account e c (acct_id a) (if needs_rehash c (acct_password_hash a) then Some p else None) w"
  shows "\<exists>a'. account_of w' user = Some a' \<and> hasher_verify c (acct_password_hash a') p = Verified \<and>
    acct_id a' = acct_id a \<and> acct_enabled a' = acct_enabled a \<and> acct_created_at a' = acct_created_at a \<and>
    acct_last_used_at a' = Some (clock e (tick w)) \<and>
    (\<forall>other. other \<noteq> user \<longrightarrow> account_of w' other = account_of w other) \<and> acct_table_ok w' \<and> account_frame w w'"
proof -
  let ?pw = "if needs_rehash c (acct_password_hash a) then Some p else None"
  have a: "a \<in> set (accounts (db w))" "acct_username a = user"
    using assms(3) get_by_Some_in [of acct_username] by (auto simp: account_of_def)
  have inj: "acct_id b = acct_id a \<longleftrightarrow> acct_username b = user" if "b \<in> set (accounts (db w))" for b
    using assms(2) a that by (auto simp: acct_table_ok_def distinct_map inj_on_def)
  have get: "get_by acct_username u (update_where (\<lambda>b. acct_id b = acct_id a) (touched e c ?pw (tick w)) rows) =
      map_option (\<lambda>b. if acct_id b = acct_id a then touched e c ?pw (tick w) b else b) (get_by acct_username u rows)"
    for u rows by (induction rows) (auto simp: get_by_def update_where_def touched_def)
  have eff: "account_of w' u = map_option (\<lambda>b. if acct_id b = acct_id a then touched e c ?pw (tick w) b else b) (account_of w u)"
    for u by (simp only: account_of_def assms(5) touch_rows get)
  have "account_of w' other = account_of w other" if "other \<noteq> user" for other
  proof (cases "account_of w other")
    case (Some b)
    then have "b \<in> set (accounts (db w))" "acct_username b = other"
      using get_by_Some_in [of acct_username] by (auto simp: account_of_def)
    then show ?thesis using inj that Some eff by simp
  qed (simp add: eff)
  moreover have "account_of w' user = Some (touched e c ?pw (tick w) a)" using eff assms(3) by simp
  moreover have "hasher_verify c (acct_password_hash (touched e c ?pw (tick w) a)) p = Verified"
    using assms(1,4) by (auto simp: touched_def argon2_ok_def)
  moreover have "acct_table_ok w'" "account_frame w w'"
    unfolding assms(5) by (rule touch_table_ok [OF assms(2)], rule touch_frame)
  moreover have "acct_id (touched e c ?pw (tick w) a) = acct_id a" "acct_enabled (touched e c ?pw (tick w) a) = acct_enabled a"
    "acct_created_at (touched e c ?pw (tick w) a) = acct_created_at a"
    "acct_last_used_at (touched e c ?pw (tick w) a) = Some (clock e (tick w))" by (simp_all add: touched_def)
  ultimately show ?thesis by blast
qed

theorem touch_keeps_password_witness:
  "\<exists>a'. account_of (touch_account demo_env demo_crypto 1 (Some ''secret99'') demo_account_world) ''svc'' = Some a' \<and>
     hasher_verify demo_crypto (acct_password_hash a') ''secret99'' = Verified"
proof -
  have "account_of demo_account_world ''svc'' = Some demo_account"
    by (simp add: account_of_def demo_account_world_def demo_account_def get_by_def)
  moreover have "hasher_verify demo_crypto (acct_password_hash demo_account) ''secret99'' = Verified"
    "needs_rehash demo_crypto (acct_password_hash demo_account)" "acct_id demo_account = 1"
    by (simp_all add: demo_crypto_def demo_account_def needs_rehash_def)
  ultimately show ?thesis
    using touch_keeps_password [OF demo_argon2_ok demo_table_ok, of "''svc''" demo_account "''secret99''" _ demo_env] by auto
qed

end
