(* ===== verification/Registry.thy ===== *)
theory Registry
  imports World
begin

text \<open>
  \<open>src/smtp_switch/providers/registry.py\<close>: the effective provider list, the configuration with
  the operator's overrides on top. The static part (\<open>_by_name\<close>) is a function of the settings; the
  overrides are a field of the world, backed by the table \<open>provider_overrides\<close>.
\<close>

section \<open>Operations\<close>

definition by_name :: "settings \<Rightarrow> (string \<times> provider_config) list" where
  "by_name s = dict_by prov_name (providers s)"

definition refresh_overrides :: "world \<Rightarrow> world" where
  "refresh_overrides w = w\<lparr>overrides := (\<lambda>p. map_option ov_enabled (override_rows (db w) p))\<rparr>"

text \<open>
  \<open>set_enabled\<close>: the row is created or changed (an \<open>UPDATE\<close>, with its \<open>onupdate\<close> timestamp, is
  issued only when a column changed), then the cached override.
\<close>

definition override_row ::
  "datetime \<Rightarrow> bool option \<Rightarrow> string option \<Rightarrow> provider_override option \<Rightarrow> provider_override" where
  "override_row now en note row =
     (case row of
        None \<Rightarrow> \<lparr>ov_enabled = en, ov_note = note, ov_updated_at = now\<rparr>
      | Some r \<Rightarrow> if ov_enabled r = en \<and> ov_note r = note then r
                  else r\<lparr>ov_enabled := en, ov_note := note, ov_updated_at := now\<rparr>)"

definition set_enabled ::
  "'e env_scheme \<Rightarrow> settings \<Rightarrow> string \<Rightarrow> bool option \<Rightarrow> string option \<Rightarrow> world \<Rightarrow> (exn + unit) \<times> world"
where
  "set_enabled e s name en note w =
     (if name \<notin> fst ` set (by_name s) then (Inl (KeyError name), w)
      else let (now, w) = utcnow e w;
               row = override_row now en note (override_rows (db w) name);
               w = upd_db (\<lambda>d. d\<lparr>override_rows := (override_rows d)(name \<mapsto> row)\<rparr>) w
           in (Inr (), w\<lparr>overrides := (overrides w)(name \<mapsto> en)\<rparr>))"

definition registry_all :: "settings \<Rightarrow> provider_config list" where
  "registry_all s = map snd (by_name s)"

definition registry_get :: "settings \<Rightarrow> string \<Rightarrow> provider_config option" where
  "registry_get s name = map_of (by_name s) name"

definition is_enabled :: "settings \<Rightarrow> world \<Rightarrow> string \<Rightarrow> bool" where
  "is_enabled s w name =
     (case registry_get s name of
        None \<Rightarrow> False
      | Some cfg \<Rightarrow> (case overrides w name of
            None \<Rightarrow> prov_enabled cfg
          | Some None \<Rightarrow> prov_enabled cfg
          | Some (Some b) \<Rightarrow> b))"

definition enabled_providers :: "settings \<Rightarrow> world \<Rightarrow> provider_config list" where
  "enabled_providers s w =
     sort_key prio_key (filter (\<lambda>p. is_enabled s w (prov_name p)) (registry_all s))"

section \<open>Lemmas\<close>

lemma by_name_valid:
  "valid_settings s \<Longrightarrow> by_name s = map (\<lambda>p. (prov_name p, p)) (providers s)"
  by (simp add: by_name_def dict_by_distinct valid_settings_distinct)

lemma registry_all_valid: "valid_settings s \<Longrightarrow> registry_all s = providers s"
  by (simp add: registry_all_def by_name_valid comp_def)

lemma registry_get_valid: "valid_settings s \<Longrightarrow> registry_get s n = provider s n"
  by (simp add: registry_get_def by_name_valid map_of_map_key valid_settings_distinct provider_def)

lemma by_name_keys: "valid_settings s \<Longrightarrow> fst ` set (by_name s) = prov_name ` set (providers s)"
  by (simp add: by_name_valid image_image)

lemma enabled_providers_sorted: "sorted (map prio_key (enabled_providers s w))"
  by (simp add: enabled_providers_def)

lemma set_enabled_providers:
  "set (enabled_providers s w) = {p \<in> set (registry_all s). is_enabled s w (prov_name p)}"
  by (auto simp: enabled_providers_def)

lemma enabled_provider_known:
  "valid_settings s \<Longrightarrow> p \<in> set (enabled_providers s w) \<Longrightarrow> provider s (prov_name p) = Some p"
  by (simp add: set_enabled_providers registry_all_valid provider_in valid_settings_distinct)

lemma distinct_sort_key_map: "distinct (map f (sort_key k xs)) = distinct (map f xs)"
  by (metis distinct_map distinct_sort set_sort)

lemma enabled_providers_distinct:
  "valid_settings s \<Longrightarrow> distinct (map prov_name (enabled_providers s w))"
  using valid_settings_distinct [of s]
  by (simp add: enabled_providers_def registry_all_valid distinct_sort_key_map distinct_map_filter)

lemma enabled_providers_cong: "overrides w' = overrides w \<Longrightarrow> enabled_providers s w' = enabled_providers s w"
proof -
  assume "overrides w' = overrides w"
  then have "is_enabled s w' = is_enabled s w" by (simp add: is_enabled_def fun_eq_iff split: option.splits)
  then show ?thesis by (simp add: enabled_providers_def)
qed

text \<open>Strictly increasing keys: no two enabled providers tie.\<close>

lemma enabled_providers_strict:
  assumes "valid_settings s"
  shows "sorted_wrt (\<lambda>p q. prio_key p < prio_key q) (enabled_providers s w)"
proof -
  let ?xs = "enabled_providers s w"
  have "distinct (map prio_key ?xs)"
    using enabled_providers_distinct [OF assms, of w]
    by (auto simp: distinct_map inj_on_def prio_key_def)
  with enabled_providers_sorted [of s w] have "sorted_wrt (<) (map prio_key ?xs)"
    by (simp add: strict_sorted_iff)
  then show ?thesis by (simp add: sorted_wrt_map)
qed

lemma set_enabled_unknown:
  "name \<notin> fst ` set (by_name s) \<Longrightarrow> set_enabled e s name en note w = (Inl (KeyError name), w)"
  by (simp add: set_enabled_def)

lemma set_enabled_known:
  "name \<in> fst ` set (by_name s) \<Longrightarrow>
   fst (set_enabled e s name en note w) = Inr () \<and>
   overrides (snd (set_enabled e s name en note w)) = (overrides w)(name \<mapsto> en) \<and>
   map_option ov_enabled (override_rows (db (snd (set_enabled e s name en note w))) name) = Some en"
  by (auto simp: set_enabled_def utcnow_def Let_def override_row_def split: option.splits)

text \<open>The cache agrees with the table.\<close>

definition overrides_synced :: "world \<Rightarrow> bool" where
  "overrides_synced w \<longleftrightarrow> overrides w = (\<lambda>p. map_option ov_enabled (override_rows (db w) p))"

lemma set_enabled_synced:
  "overrides_synced w \<Longrightarrow> overrides_synced (snd (set_enabled e s name en note w))"
  by (auto simp: overrides_synced_def set_enabled_def utcnow_def Let_def override_row_def
      fun_eq_iff split: option.splits)

lemma refresh_overrides_synced [simp]: "overrides_synced (refresh_overrides w)"
  by (simp add: overrides_synced_def refresh_overrides_def)

lemma refresh_overrides_id: "overrides_synced w \<Longrightarrow> refresh_overrides w = w"
  by (simp add: overrides_synced_def refresh_overrides_def)

section \<open>Properties\<close>

text \<open>The routing order is the configured one. On a valid configuration \<open>enabled_providers\<close>
  lists exactly the configured providers that are enabled (by the operator's override if there is
  one, else by the file), each once, in strictly increasing order of (priority, name).\<close>

theorem enabled_providers_order:
  assumes "valid_settings s"
  shows "sorted_wrt (\<lambda>p q. prio_key p < prio_key q) (enabled_providers s w) \<and>
    distinct (map prov_name (enabled_providers s w)) \<and>
    set (enabled_providers s w) =
      {p \<in> set (providers s). (case overrides w (prov_name p) of Some (Some b) \<Rightarrow> b | _ \<Rightarrow> prov_enabled p)}"
proof -
  have "set (enabled_providers s w) = {p \<in> set (providers s). is_enabled s w (prov_name p)}"
    using set_enabled_providers registry_all_valid [OF assms] by simp
  moreover have "is_enabled s w (prov_name p) \<longleftrightarrow>
      (case overrides w (prov_name p) of Some (Some b) \<Rightarrow> b | _ \<Rightarrow> prov_enabled p)" if "p \<in> set (providers s)" for p
    using provider_in [OF valid_settings_distinct [OF assms] that] registry_get_valid [OF assms]
    by (simp add: is_enabled_def split: option.splits)
  ultimately show ?thesis
    using enabled_providers_strict [OF assms] enabled_providers_distinct [OF assms] by auto
qed

theorem enabled_providers_order_witness:
  "distinct (map prov_name (enabled_providers demo_settings init_world)) \<and>
   map prov_name (enabled_providers demo_settings init_world) = [''b'', ''a'']"
proof -
  have "map prov_name (enabled_providers demo_settings init_world) = [''b'', ''a'']" by code_simp
  then show ?thesis using enabled_providers_order [OF demo_settings_valid, of init_world] by simp
qed

text \<open>An operator's override takes effect at once and survives a restart. Setting it for a
  configured provider changes the enablement of that provider only, to the given value or back to the
  file's when it is cleared; a process that reloads the overrides from the database afterwards sees
  exactly the same providers enabled. For an unknown name it raises \<open>KeyError\<close> and changes nothing.\<close>

theorem override_persists:
  assumes "overrides_synced w"
  shows "case set_enabled e s name en nt w of
      (Inl x, w') \<Rightarrow> registry_get s name = None \<and> x = KeyError name \<and> w' = w
    | (Inr _, w') \<Rightarrow> (\<exists>cfg. registry_get s name = Some cfg \<and>
          is_enabled s w' name = (case en of None \<Rightarrow> prov_enabled cfg | Some b \<Rightarrow> b)) \<and>
        (\<forall>n. n \<noteq> name \<longrightarrow> is_enabled s w' n = is_enabled s w n) \<and>
        enabled_providers s (refresh_overrides (w'\<lparr>overrides := Map.empty\<rparr>)) = enabled_providers s w'"
proof (cases "name \<in> fst ` set (by_name s)")
  case True
  obtain w' where w': "set_enabled e s name en nt w = (Inr (), w')"
    using True by (auto simp: set_enabled_def utcnow_def Let_def)
  have ov: "overrides w' = (overrides w)(name \<mapsto> en)"
    using set_enabled_known [OF True, where e = e and en = en and w = w] w' by (metis snd_conv)
  have sy: "overrides_synced w'"
    using set_enabled_synced [OF assms, where e = e and s = s and name = name and en = en] w' by (metis snd_conv)
  obtain cfg where cfg: "registry_get s name = Some cfg"
    using True by (cases "registry_get s name") (auto simp: registry_get_def map_of_eq_None_iff)
  have "overrides (refresh_overrides (w'\<lparr>overrides := Map.empty\<rparr>)) = overrides w'"
    using sy by (simp add: refresh_overrides_def overrides_synced_def)
  then have "enabled_providers s (refresh_overrides (w'\<lparr>overrides := Map.empty\<rparr>)) = enabled_providers s w'"
    by (rule enabled_providers_cong)
  moreover have "is_enabled s w' name = (case en of None \<Rightarrow> prov_enabled cfg | Some b \<Rightarrow> b)"
    using cfg by (simp add: is_enabled_def ov split: option.splits)
  moreover have "is_enabled s w' n = is_enabled s w n" if "n \<noteq> name" for n
    using that by (simp add: is_enabled_def ov split: option.splits)
  ultimately show ?thesis using w' cfg by simp
next
  case False
  then show ?thesis by (simp add: set_enabled_unknown registry_get_def map_of_eq_None_iff)
qed

theorem override_persists_witness:
  "\<exists>w'. set_enabled demo_env demo_settings ''b'' (Some False) None init_world = (Inr (), w') \<and>
     \<not> is_enabled demo_settings w' ''b'' \<and>
     enabled_providers demo_settings (refresh_overrides (w'\<lparr>overrides := Map.empty\<rparr>)) =
       enabled_providers demo_settings w'"
proof -
  have k: "''b'' \<in> fst ` set (by_name demo_settings)" by (simp add: by_name_keys) (simp add: demo_defs)
  obtain w' where w': "set_enabled demo_env demo_settings ''b'' (Some False) None init_world = (Inr (), w')"
    using set_enabled_known [OF k, where e = demo_env and en = "Some False" and w = init_world]
    by (metis prod.collapse)
  have "overrides_synced init_world" by (simp add: overrides_synced_def init_world_def empty_database_def)
  from override_persists [OF this, where e = demo_env and s = demo_settings and name = "''b''" and en = "Some False"
      and nt = None] w'
  show ?thesis by auto
qed

end
