(* ===== verification/Health.thy ===== *)
theory Health
  imports World
begin

text \<open>
  \<open>src/smtp_switch/dispatch/health.py\<close>: the per-provider circuit breaker. The in-memory
  \<open>_states\<close> dictionary and the table \<open>provider_state\<close> are fields of the world. Every
  operation runs under the breaker's lock, so it is one atomic state transformer.
\<close>

section \<open>Operations\<close>

datatype breaker_status = Closed | Open | Half_open

definition default_state :: cb_state where
  "default_state = \<lparr>cb_healthy = True, cb_failures = 0, cb_opened_at = None, cb_probes = 0,
     cb_last_failure_at = None, cb_last_success_at = None\<rparr>"

definition st_get :: "string \<Rightarrow> world \<Rightarrow> cb_state \<times> world" where
  "st_get p w =
     (case states w p of
        Some st \<Rightarrow> (st, w)
      | None \<Rightarrow> (default_state, w\<lparr>states := (states w)(p \<mapsto> default_state)\<rparr>))"

definition put_state :: "string \<Rightarrow> cb_state \<Rightarrow> world \<Rightarrow> world" where
  "put_state p st w = w\<lparr>states := (states w)(p \<mapsto> st)\<rparr>"

definition state_of_row :: "provider_state \<Rightarrow> cb_state" where
  "state_of_row r = \<lparr>cb_healthy = healthy r, cb_failures = consecutive_failures r,
     cb_opened_at = opened_at r, cb_probes = half_open_probes r,
     cb_last_failure_at = last_failure_at r, cb_last_success_at = last_success_at r\<rparr>"

definition load :: "world \<Rightarrow> world" where
  "load w = w\<lparr>states := (\<lambda>p. case state_rows (db w) p of
                               Some r \<Rightarrow> Some (state_of_row r)
                             | None \<Rightarrow> states w p)\<rparr>"

definition breaker_status ::
  "'e env_scheme \<Rightarrow> circuit_breaker_config \<Rightarrow> string \<Rightarrow> world \<Rightarrow> breaker_status \<times> world" where
  "breaker_status e cfg p w =
     (let (st, w) = st_get p w in
      if cb_healthy st then (Closed, w)
      else case cb_opened_at st of
             None \<Rightarrow> (Open, w)
           | Some t \<Rightarrow>
               (let (now, w) = utcnow e w; elapsed = now - t
                in (if elapsed \<ge> seconds_td (cooldown_seconds cfg) then Half_open else Open, w)))"

definition is_available ::
  "'e env_scheme \<Rightarrow> circuit_breaker_config \<Rightarrow> string \<Rightarrow> world \<Rightarrow> bool \<times> world" where
  "is_available e cfg p w =
     (let (state, w) = breaker_status e cfg p w in
      case state of
        Closed \<Rightarrow> (True, w)
      | Open \<Rightarrow> (False, w)
      | Half_open \<Rightarrow> (let (st, w) = st_get p w in (cb_probes st < half_open_max_probes cfg, w)))"

definition persist :: "'e env_scheme \<Rightarrow> string \<Rightarrow> world \<Rightarrow> world" where
  "persist e p w =
     (let (st, w) = st_get p w; (now, w) = utcnow e w;
          row = \<lparr>healthy = cb_healthy st, consecutive_failures = cb_failures st,
                 opened_at = cb_opened_at st, half_open_probes = cb_probes st,
                 last_failure_at = cb_last_failure_at st,
                 last_success_at = cb_last_success_at st, ps_updated_at = now\<rparr>
      in upd_db (\<lambda>d. d\<lparr>state_rows := (state_rows d)(p \<mapsto> row)\<rparr>) w)"

definition begin_probe ::
  "'e env_scheme \<Rightarrow> circuit_breaker_config \<Rightarrow> string \<Rightarrow> world \<Rightarrow> bool \<times> world" where
  "begin_probe e cfg p w =
     (let (st, w) = st_get p w; (state, w) = breaker_status e cfg p w in
      case state of
        Closed \<Rightarrow> (True, w)
      | Open \<Rightarrow> (False, w)
      | Half_open \<Rightarrow>
          if cb_probes st \<ge> half_open_max_probes cfg then (False, w)
          else (True, persist e p (put_state p (st\<lparr>cb_probes := cb_probes st + 1\<rparr>) w)))"

definition record_success :: "'e env_scheme \<Rightarrow> string \<Rightarrow> world \<Rightarrow> world" where
  "record_success e p w =
     (let (st, w) = st_get p w; (now, w) = utcnow e w;
          st = st\<lparr>cb_healthy := True, cb_failures := 0, cb_opened_at := None, cb_probes := 0,
                  cb_last_success_at := Some now\<rparr>
      in persist e p (put_state p st w))"

definition record_failure ::
  "'e env_scheme \<Rightarrow> circuit_breaker_config \<Rightarrow> string \<Rightarrow> world \<Rightarrow> world" where
  "record_failure e cfg p w =
     (let (st, w) = st_get p w; (now, w) = utcnow e w;
          st = st\<lparr>cb_failures := cb_failures st + 1, cb_last_failure_at := Some now\<rparr>;
          w = put_state p st w;
          (state, w) = breaker_status e cfg p w
      in if state = Half_open \<or>
            (cb_healthy st \<and> cb_failures st \<ge> failure_threshold cfg)
         then (let (now, w) = utcnow e w;
                   st = st\<lparr>cb_healthy := False, cb_opened_at := Some now, cb_probes := 0\<rparr>
               in persist e p (put_state p st w))
         else persist e p w)"

section \<open>The state of one breaker\<close>

text \<open>
  \<open>cb_of\<close> reads a breaker the way \<open>_st\<close> does, and \<open>status_at\<close>, \<open>success_at\<close>, \<open>failure_at\<close> and
  \<open>probe_at\<close> are the operations on that one record at given clock readings: the
  abstract circuit breaker that the world-level operations implement.
\<close>

definition cb_of :: "world \<Rightarrow> string \<Rightarrow> cb_state" where
  "cb_of w p = (case states w p of Some st \<Rightarrow> st | None \<Rightarrow> default_state)"

definition status_at :: "circuit_breaker_config \<Rightarrow> datetime \<Rightarrow> cb_state \<Rightarrow> breaker_status" where
  "status_at cfg now st =
     (if cb_healthy st then Closed
      else case cb_opened_at st of None \<Rightarrow> Open
           | Some t \<Rightarrow> if now - t \<ge> seconds_td (cooldown_seconds cfg) then Half_open else Open)"

definition available_at :: "circuit_breaker_config \<Rightarrow> datetime \<Rightarrow> cb_state \<Rightarrow> bool" where
  "available_at cfg now st \<longleftrightarrow>
     (case status_at cfg now st of Closed \<Rightarrow> True | Open \<Rightarrow> False
      | Half_open \<Rightarrow> cb_probes st < half_open_max_probes cfg)"

definition probe_at :: "circuit_breaker_config \<Rightarrow> datetime \<Rightarrow> cb_state \<Rightarrow> cb_state" where
  "probe_at cfg now st =
     (if status_at cfg now st = Half_open \<and> cb_probes st < half_open_max_probes cfg
      then st\<lparr>cb_probes := cb_probes st + 1\<rparr> else st)"

definition success_at :: "datetime \<Rightarrow> cb_state \<Rightarrow> cb_state" where
  "success_at now st =
     st\<lparr>cb_healthy := True, cb_failures := 0, cb_opened_at := None, cb_probes := 0,
        cb_last_success_at := Some now\<rparr>"

definition failure_at ::
  "circuit_breaker_config \<Rightarrow> datetime \<Rightarrow> datetime \<Rightarrow> datetime \<Rightarrow> cb_state \<Rightarrow> cb_state" where
  "failure_at cfg now now' now'' st =
     (let st = st\<lparr>cb_failures := cb_failures st + 1, cb_last_failure_at := Some now\<rparr>
      in if status_at cfg now' st = Half_open \<or>
            (cb_healthy st \<and> cb_failures st \<ge> failure_threshold cfg)
         then st\<lparr>cb_healthy := False, cb_opened_at := Some now'', cb_probes := 0\<rparr>
         else st)"

section \<open>The operations implement the abstract breaker\<close>

lemma st_get_simps [simp]:
  "fst (st_get p w) = cb_of w p"
  "cb_of (snd (st_get p w)) q = cb_of w q"
  "states (snd (st_get p w)) p = Some (cb_of w p)"
  "tick (snd (st_get p w)) = tick w"
  "db (snd (st_get p w)) = db w"
  "inflight (snd (st_get p w)) = inflight w"
  "overrides (snd (st_get p w)) = overrides w"
  "queue (snd (st_get p w)) = queue w"
  "wakeup (snd (st_get p w)) = wakeup w"
  "spool (snd (st_get p w)) = spool w"
  "metrics (snd (st_get p w)) = metrics w"
  by (auto simp: st_get_def cb_of_def split: option.splits)

lemma cb_of_put_state [simp]: "cb_of (put_state p st w) q = (if q = p then st else cb_of w q)"
  by (simp add: put_state_def cb_of_def)

lemma cb_of_tick [simp]: "cb_of (w\<lparr>tick := n\<rparr>) q = cb_of w q"
  by (simp add: cb_of_def)

lemma cb_of_db [simp]: "cb_of (w\<lparr>db := d\<rparr>) q = cb_of w q"
  by (simp add: cb_of_def)

lemma put_state_frame [simp]:
  "tick (put_state p st w) = tick w" "db (put_state p st w) = db w"
  "inflight (put_state p st w) = inflight w" "overrides (put_state p st w) = overrides w"
  "queue (put_state p st w) = queue w" "wakeup (put_state p st w) = wakeup w"
  "spool (put_state p st w) = spool w" "metrics (put_state p st w) = metrics w"
  by (simp_all add: put_state_def)

lemma breaker_status_unfold:
  "breaker_status e cfg p w =
     (status_at cfg (clock e (tick w)) (cb_of w p),
      (if cb_healthy (cb_of w p) \<or> cb_opened_at (cb_of w p) = None then snd (st_get p w)
       else (snd (st_get p w))\<lparr>tick := Suc (tick w)\<rparr>))"
  by (auto simp: breaker_status_def status_at_def utcnow_def Let_def prod.case_eq_if
      split: option.splits)

lemma breaker_status_fst: "fst (breaker_status e cfg p w) = status_at cfg (clock e (tick w)) (cb_of w p)"
  by (simp add: breaker_status_unfold)

lemma breaker_status_cb [simp]: "cb_of (snd (breaker_status e cfg p w)) q = cb_of w q"
  by (simp add: breaker_status_unfold)

lemma breaker_status_frame [frame_simps]:
  "db (snd (breaker_status e cfg p w)) = db w"
  "inflight (snd (breaker_status e cfg p w)) = inflight w"
  "overrides (snd (breaker_status e cfg p w)) = overrides w"
  "queue (snd (breaker_status e cfg p w)) = queue w"
  "wakeup (snd (breaker_status e cfg p w)) = wakeup w"
  "spool (snd (breaker_status e cfg p w)) = spool w"
  "metrics (snd (breaker_status e cfg p w)) = metrics w"
  by (simp_all add: breaker_status_unfold)

lemma breaker_status_tick: "tick w \<le> tick (snd (breaker_status e cfg p w))"
  by (simp add: breaker_status_unfold)

lemma is_available_fst: "fst (is_available e cfg p w) = available_at cfg (clock e (tick w)) (cb_of w p)"
  by (auto simp: is_available_def available_at_def breaker_status_unfold Let_def prod.case_eq_if
      split: breaker_status.splits)

lemma is_available_cb [simp]: "cb_of (snd (is_available e cfg p w)) q = cb_of w q"
  by (auto simp: is_available_def Let_def prod.case_eq_if split: breaker_status.splits)

lemma is_available_frame [frame_simps]:
  "db (snd (is_available e cfg p w)) = db w"
  "inflight (snd (is_available e cfg p w)) = inflight w"
  "overrides (snd (is_available e cfg p w)) = overrides w"
  "queue (snd (is_available e cfg p w)) = queue w"
  "wakeup (snd (is_available e cfg p w)) = wakeup w"
  "spool (snd (is_available e cfg p w)) = spool w"
  "metrics (snd (is_available e cfg p w)) = metrics w"
  by (auto simp: is_available_def Let_def prod.case_eq_if frame_simps split: breaker_status.splits)

lemma is_available_tick: "tick w \<le> tick (snd (is_available e cfg p w))"
  by (auto simp: is_available_def Let_def prod.case_eq_if breaker_status_tick
      split: breaker_status.splits)

section \<open>What the breaker leaves alone\<close>

text \<open>\<open>w'\<close> differs from \<open>w\<close> at most in the clock position, the breaker dictionary and the
  breaker table.\<close>

definition breaker_frame :: "world \<Rightarrow> world \<Rightarrow> bool" where
  "breaker_frame w w' \<longleftrightarrow>
     tick w \<le> tick w' \<and> inflight w' = inflight w \<and> overrides w' = overrides w \<and>
     queue w' = queue w \<and> wakeup w' = wakeup w \<and> spool w' = spool w \<and> metrics w' = metrics w \<and>
     db w' = (db w)\<lparr>state_rows := state_rows (db w')\<rparr>"

lemma breaker_frame_refl [simp]: "breaker_frame w w"
  by (simp add: breaker_frame_def)

lemma breaker_frame_trans:
  assumes "breaker_frame w w'" "breaker_frame w' w''"
  shows "breaker_frame w w''"
proof -
  have "db w' = (db w)\<lparr>state_rows := state_rows (db w')\<rparr>"
    "db w'' = (db w')\<lparr>state_rows := state_rows (db w'')\<rparr>"
    using assms by (simp_all only: breaker_frame_def)
  then have "db w'' = (db w)\<lparr>state_rows := state_rows (db w'')\<rparr>"
    by (metis database.fold_congs(5) database.surjective database.update_convs(5))
  with assms show ?thesis by (auto simp: breaker_frame_def)
qed

lemma breaker_frame_db:
  assumes "breaker_frame w w'"
  shows "messages (db w') = messages (db w)" "delivery_attempts (db w') = delivery_attempts (db w)"
    "send_log (db w') = send_log (db w)" "quota (db w') = quota (db w)"
    "accounts (db w') = accounts (db w)" "dashboard_users (db w') = dashboard_users (db w)"
    "override_rows (db w') = override_rows (db w)"
proof -
  have d: "db w' = (db w)\<lparr>state_rows := state_rows (db w')\<rparr>"
    using assms by (simp only: breaker_frame_def)
  show "messages (db w') = messages (db w)" "delivery_attempts (db w') = delivery_attempts (db w)"
    "send_log (db w') = send_log (db w)" "quota (db w') = quota (db w)"
    "accounts (db w') = accounts (db w)" "dashboard_users (db w') = dashboard_users (db w)"
    "override_rows (db w') = override_rows (db w)"
    by (subst d, simp)+
qed

lemma breaker_frame_fields:
  assumes "breaker_frame w w'"
  shows "inflight w' = inflight w" "overrides w' = overrides w" "queue w' = queue w"
    "wakeup w' = wakeup w" "spool w' = spool w" "metrics w' = metrics w"
  using assms by (simp_all only: breaker_frame_def)

lemma breaker_frame_tick: "breaker_frame w w' \<Longrightarrow> tick w \<le> tick w'"
  by (simp only: breaker_frame_def)

lemma st_get_breaker_frame: "breaker_frame w (snd (st_get p w))"
  by (simp add: breaker_frame_def)

lemma breaker_status_breaker_frame: "breaker_frame w (snd (breaker_status e cfg p w))"
  by (simp add: breaker_frame_def breaker_status_tick frame_simps)

lemma is_available_breaker_frame: "breaker_frame w (snd (is_available e cfg p w))"
  by (simp add: breaker_frame_def is_available_tick frame_simps)

definition row_of_state :: "datetime \<Rightarrow> cb_state \<Rightarrow> provider_state" where
  "row_of_state now st = \<lparr>healthy = cb_healthy st, consecutive_failures = cb_failures st,
     opened_at = cb_opened_at st, half_open_probes = cb_probes st,
     last_failure_at = cb_last_failure_at st, last_success_at = cb_last_success_at st,
     ps_updated_at = now\<rparr>"

lemma state_of_row_of_state [simp]: "state_of_row (row_of_state now st) = st"
  by (simp add: state_of_row_def row_of_state_def)

lemma persist_unfold:
  "persist e p w = (snd (st_get p w))\<lparr>tick := Suc (tick w),
     db := (db w)\<lparr>state_rows := (state_rows (db w))(p \<mapsto> row_of_state (clock e (tick w)) (cb_of w p))\<rparr>\<rparr>"
  by (simp add: persist_def Let_def prod.case_eq_if utcnow_def row_of_state_def)

lemma persist_cb [simp]: "cb_of (persist e p w) q = cb_of w q"
  by (simp add: persist_unfold)

lemma persist_rows:
  "state_rows (db (persist e p w)) =
     (state_rows (db w))(p \<mapsto> row_of_state (clock e (tick w)) (cb_of w p))"
  by (simp add: persist_unfold)

lemma persist_breaker_frame: "breaker_frame w (persist e p w)"
  by (simp add: breaker_frame_def persist_unfold)

lemma persist_put_frame: "breaker_frame w w' \<Longrightarrow> breaker_frame w (persist e p (put_state p st w'))"
  by (rule breaker_frame_trans [OF _ persist_breaker_frame]) (simp add: breaker_frame_def)

lemma tick_breaker_frame: "breaker_frame w (w\<lparr>tick := Suc (tick w)\<rparr>)"
  by (simp add: breaker_frame_def)

lemma begin_probe_fst:
  "fst (begin_probe e cfg p w) = available_at cfg (clock e (tick w)) (cb_of w p)"
  by (auto simp: begin_probe_def Let_def prod.case_eq_if breaker_status_fst available_at_def
      split: breaker_status.splits)

lemma begin_probe_cb:
  "cb_of (snd (begin_probe e cfg p w)) q =
     (if q = p then probe_at cfg (clock e (tick w)) (cb_of w p) else cb_of w q)"
  by (auto simp: begin_probe_def Let_def prod.case_eq_if breaker_status_fst probe_at_def
      split: breaker_status.splits)

lemma begin_probe_breaker_frame: "breaker_frame w (snd (begin_probe e cfg p w))"
proof -
  let ?w = "snd (breaker_status e cfg p (snd (st_get p w)))"
  have f: "breaker_frame w ?w"
    by (rule breaker_frame_trans [OF st_get_breaker_frame breaker_status_breaker_frame])
  then show ?thesis
    by (auto simp: begin_probe_def Let_def prod.case_eq_if intro: persist_put_frame
        split: breaker_status.splits)
qed

lemma record_success_cb:
  "cb_of (record_success e p w) q =
     (if q = p then success_at (clock e (tick w)) (cb_of w p) else cb_of w q)"
  by (simp add: record_success_def Let_def prod.case_eq_if success_at_def)

lemma record_success_breaker_frame: "breaker_frame w (record_success e p w)"
proof -
  have "breaker_frame w ((snd (st_get p w))\<lparr>tick := Suc (tick w)\<rparr>)"
    by (simp add: breaker_frame_def)
  then show ?thesis
    by (simp add: record_success_def Let_def prod.case_eq_if persist_put_frame)
qed

text \<open>The clock readings \<open>record_failure\<close> makes: the failure time, the reading inside
  \<open>status\<close> (if it makes one) and the opening time.\<close>

definition failure_open_tick :: "world \<Rightarrow> string \<Rightarrow> nat" where
  "failure_open_tick w p =
     (if cb_healthy (cb_of w p) \<or> cb_opened_at (cb_of w p) = None then Suc (tick w)
      else Suc (Suc (tick w)))"

lemma record_failure_cb:
  "cb_of (record_failure e cfg p w) q =
     (if q = p
      then failure_at cfg (clock e (tick w)) (clock e (Suc (tick w)))
             (clock e (failure_open_tick w p)) (cb_of w p)
      else cb_of w q)"
  by (simp add: record_failure_def Let_def prod.case_eq_if breaker_status_unfold failure_at_def
      failure_open_tick_def)

lemma record_failure_breaker_frame: "breaker_frame w (record_failure e cfg p w)"
proof -
  let ?w1 = "(snd (st_get p w))\<lparr>tick := Suc (tick w)\<rparr>"
  have f1: "breaker_frame w (put_state p st ?w1)" for st
    by (simp add: breaker_frame_def)
  have f2: "breaker_frame w (snd (breaker_status e cfg p (put_state p st ?w1)))" for st
    by (rule breaker_frame_trans [OF f1 breaker_status_breaker_frame])
  have f3: "breaker_frame w (persist e p (snd (breaker_status e cfg p (put_state p st ?w1))))" for st
    by (rule breaker_frame_trans [OF f2 persist_breaker_frame])
  show ?thesis
    unfolding record_failure_def Let_def prod.case_eq_if utcnow_simps st_get_simps
    using f3 breaker_frame_trans [OF f2 tick_breaker_frame]
    by (auto intro!: persist_put_frame)
qed

section \<open>The breaker as a transition system\<close>

definition cb_inv :: "circuit_breaker_config \<Rightarrow> cb_state \<Rightarrow> bool" where
  "cb_inv cfg st \<longleftrightarrow>
     0 \<le> cb_failures st \<and> 0 \<le> cb_probes st \<and> cb_probes st \<le> half_open_max_probes cfg \<and>
     (if cb_healthy st
      then cb_opened_at st = None \<and> cb_probes st = 0 \<and> cb_failures st < failure_threshold cfg
      else cb_opened_at st \<noteq> None)"

text \<open>The table row of a provider, where there is one, holds its in-memory state.\<close>

definition breaker_synced :: "world \<Rightarrow> bool" where
  "breaker_synced w \<longleftrightarrow>
     (\<forall>p. cb_of w p = (case state_rows (db w) p of None \<Rightarrow> default_state
                       | Some r \<Rightarrow> state_of_row r))"

definition breaker_inv :: "circuit_breaker_config \<Rightarrow> world \<Rightarrow> bool" where
  "breaker_inv cfg w \<longleftrightarrow> breaker_synced w \<and> (valid_breaker cfg \<longrightarrow> (\<forall>p. cb_inv cfg (cb_of w p)))"

text \<open>A new process: an empty dictionary, filled from the table.\<close>

definition restart_breaker :: "world \<Rightarrow> world" where
  "restart_breaker w = load (w\<lparr>states := Map.empty\<rparr>)"

inductive breaker_step :: "'e env_scheme \<Rightarrow> circuit_breaker_config \<Rightarrow> world \<Rightarrow> world \<Rightarrow> bool"
  for e cfg where
  avail: "breaker_step e cfg w (snd (is_available e cfg p w))"
| probe: "breaker_step e cfg w (snd (begin_probe e cfg p w))"
| success: "breaker_step e cfg w (record_success e p w)"
| failure: "breaker_step e cfg w (record_failure e cfg p w)"
| wait: "breaker_step e cfg w (w\<lparr>tick := Suc (tick w)\<rparr>)"
| restart: "breaker_step e cfg w (restart_breaker w)"

definition breaker_init :: "world \<Rightarrow> bool" where
  "breaker_init w \<longleftrightarrow> states w = Map.empty \<and> state_rows (db w) = Map.empty"

lemma cb_inv_default: "valid_breaker cfg \<Longrightarrow> cb_inv cfg default_state"
  by (simp add: cb_inv_def default_state_def valid_breaker_def)

lemma cb_inv_success: "valid_breaker cfg \<Longrightarrow> cb_inv cfg (success_at now st)"
  by (simp add: cb_inv_def success_at_def valid_breaker_def)

lemma cb_inv_probe: "cb_inv cfg st \<Longrightarrow> cb_inv cfg (probe_at cfg now st)"
  by (auto simp: cb_inv_def probe_at_def status_at_def split: if_splits)

lemma cb_inv_failure:
  "valid_breaker cfg \<Longrightarrow> cb_inv cfg st \<Longrightarrow> cb_inv cfg (failure_at cfg now now' now'' st)"
  by (auto simp: cb_inv_def failure_at_def Let_def valid_breaker_def split: if_splits)

lemma load_cb:
  "cb_of (load w) p = (case state_rows (db w) p of None \<Rightarrow> cb_of w p | Some r \<Rightarrow> state_of_row r)"
  by (simp add: load_def cb_of_def split: option.splits)

lemma restart_breaker_cb:
  "breaker_synced w \<Longrightarrow> cb_of (restart_breaker w) p = cb_of w p"
proof -
  assume "breaker_synced w"
  moreover have "cb_of (w\<lparr>states := Map.empty\<rparr>) p = default_state" by (simp add: cb_of_def)
  ultimately show ?thesis by (simp add: restart_breaker_def load_cb breaker_synced_def split: option.split)
qed

lemma restart_breaker_rows [simp]: "state_rows (db (restart_breaker w)) = state_rows (db w)"
  by (simp add: restart_breaker_def load_def)

lemma breaker_synced_cong:
  "breaker_synced w \<Longrightarrow> (\<And>p. cb_of w' p = cb_of w p) \<Longrightarrow>
   state_rows (db w') = state_rows (db w) \<Longrightarrow> breaker_synced w'"
  by (simp add: breaker_synced_def)

lemma breaker_synced_persist:
  assumes "breaker_synced w" "\<And>q. q \<noteq> p \<Longrightarrow> cb_of w' q = cb_of w q"
    "state_rows (db w') = state_rows (db w)"
  shows "breaker_synced (persist e p w')"
  using assms by (auto simp: breaker_synced_def persist_rows)

lemma record_success_synced: "breaker_synced w \<Longrightarrow> breaker_synced (record_success e p w)"
  unfolding record_success_def Let_def prod.case_eq_if
  by (rule breaker_synced_persist) simp_all

lemma record_failure_synced: "breaker_synced w \<Longrightarrow> breaker_synced (record_failure e cfg p w)"
  unfolding record_failure_def Let_def prod.case_eq_if
  by (auto intro!: breaker_synced_persist simp: frame_simps)

lemma is_available_rows: "state_rows (db (snd (is_available e cfg p w))) = state_rows (db w)"
  by (simp add: frame_simps)

lemma begin_probe_synced: "breaker_synced w \<Longrightarrow> breaker_synced (snd (begin_probe e cfg p w))"
proof -
  assume sy: "breaker_synced w"
  let ?w = "snd (breaker_status e cfg p (snd (st_get p w)))"
  have "breaker_synced ?w" using sy by (rule breaker_synced_cong) (simp_all add: frame_simps)
  moreover have "breaker_synced (persist e p (put_state p st ?w))" for st
    using sy by (rule breaker_synced_persist) (simp_all add: frame_simps)
  ultimately show ?thesis
    by (simp add: begin_probe_def Let_def prod.case_eq_if split: breaker_status.splits)
qed

interpretation cb_sys: invariant_system breaker_init "breaker_step e cfg" "breaker_inv cfg"
  for e cfg
proof
  show "breaker_inv cfg w" if "breaker_init w" for w
    using that by (simp add: breaker_init_def breaker_inv_def breaker_synced_def cb_of_def cb_inv_default)
  fix w w'
  assume inv: "breaker_inv cfg w" and step: "breaker_step e cfg w w'"
  then have sy: "breaker_synced w" by (simp add: breaker_inv_def)
  from step show "breaker_inv cfg w'"
  proof cases
    case (avail p)
    with inv show ?thesis
      by (auto simp: breaker_inv_def intro: breaker_synced_cong is_available_rows)
  next
    case (probe p)
    with inv show ?thesis
      by (auto simp: breaker_inv_def begin_probe_cb begin_probe_synced cb_inv_probe)
  next
    case (success p)
    with inv show ?thesis
      by (auto simp: breaker_inv_def record_success_cb record_success_synced cb_inv_success)
  next
    case (failure p)
    with inv show ?thesis
      by (auto simp: breaker_inv_def record_failure_cb record_failure_synced cb_inv_failure)
  next
    case wait
    with inv show ?thesis by (auto simp: breaker_inv_def intro: breaker_synced_cong)
  next
    case restart
    with inv sy show ?thesis
      by (auto simp: breaker_inv_def restart_breaker_cb intro: breaker_synced_cong)
  qed
qed

section \<open>Opening, cooling down, probing\<close>

text \<open>Consecutive failures of one provider.\<close>

primrec failures :: "'e env_scheme \<Rightarrow> circuit_breaker_config \<Rightarrow> string \<Rightarrow> nat \<Rightarrow> world \<Rightarrow> world" where
  "failures e cfg p 0 w = w"
| "failures e cfg p (Suc n) w = record_failure e cfg p (failures e cfg p n w)"

lemma failures_below:
  assumes "cb_healthy (cb_of w p)" "cb_failures (cb_of w p) + int n < failure_threshold cfg"
  shows "cb_healthy (cb_of (failures e cfg p n w) p) \<and>
         cb_failures (cb_of (failures e cfg p n w) p) = cb_failures (cb_of w p) + int n"
  using assms(2)
proof (induction n)
  case 0
  then show ?case using assms by simp
next
  case (Suc n)
  then show ?case by (auto simp: record_failure_cb failure_at_def Let_def status_at_def)
qed

lemma failures_at_threshold:
  assumes "cb_healthy (cb_of w p)" "cb_failures (cb_of w p) + int (Suc n) = failure_threshold cfg"
  shows "\<not> cb_healthy (cb_of (failures e cfg p (Suc n) w) p) \<and>
    cb_opened_at (cb_of (failures e cfg p (Suc n) w) p) =
      Some (clock e (Suc (tick (failures e cfg p n w))))"
  using failures_below [of w p n cfg e] assms
  by (simp add: record_failure_cb failure_at_def Let_def failure_open_tick_def status_at_def)

lemma half_open_stuck:
  assumes "\<not> cb_healthy st" "cb_probes st \<ge> half_open_max_probes cfg"
  shows "\<not> available_at cfg now st"
  using assms by (auto simp: available_at_def status_at_def split: option.splits)

text \<open>Successive calls of \<open>begin_probe\<close>, and how many of them were granted.\<close>

primrec probes_granted ::
  "'e env_scheme \<Rightarrow> circuit_breaker_config \<Rightarrow> string \<Rightarrow> nat \<Rightarrow> world \<Rightarrow> nat \<times> world" where
  "probes_granted e cfg p 0 w = (0, w)"
| "probes_granted e cfg p (Suc n) w =
     (let (k, w) = probes_granted e cfg p n w; (ok, w) = begin_probe e cfg p w
      in (if ok then Suc k else k, w))"

lemma status_half_open_mono:
  "status_at cfg now st = Half_open \<Longrightarrow> now \<le> now' \<Longrightarrow> status_at cfg now' st = Half_open"
  by (auto simp: status_at_def split: if_splits option.splits)

lemma status_at_probes [simp]: "status_at cfg now (st\<lparr>cb_probes := k\<rparr>) = status_at cfg now st"
  by (simp add: status_at_def)

lemma probes_granted_inv:
  assumes "mono_clock e" "status_at cfg (clock e (tick w)) (cb_of w p) = Half_open"
    "0 \<le> cb_probes (cb_of w p)" "cb_probes (cb_of w p) \<le> half_open_max_probes cfg"
  defines "room \<equiv> nat (half_open_max_probes cfg - cb_probes (cb_of w p))"
  shows "fst (probes_granted e cfg p n w) = min n room \<and>
    cb_of (snd (probes_granted e cfg p n w)) p =
      (cb_of w p)\<lparr>cb_probes := cb_probes (cb_of w p) + int (min n room)\<rparr> \<and>
    tick w \<le> tick (snd (probes_granted e cfg p n w))"
proof (induction n)
  case 0
  then show ?case by simp
next
  case (Suc n)
  let ?w = "snd (probes_granted e cfg p n w)"
  have cb: "cb_of ?w p = (cb_of w p)\<lparr>cb_probes := cb_probes (cb_of w p) + int (min n room)\<rparr>"
    and t: "tick w \<le> tick ?w" using Suc by auto
  have "status_at cfg (clock e (tick ?w)) (cb_of w p) = Half_open"
    using assms(2) mono_clockD [OF assms(1) t] by (rule status_half_open_mono)
  then have st: "status_at cfg (clock e (tick ?w)) (cb_of ?w p) = Half_open" by (simp add: cb)
  have t': "tick w \<le> tick (snd (begin_probe e cfg p ?w))"
    using t breaker_frame_tick [OF begin_probe_breaker_frame] by (rule order_trans)
  have room: "int room = half_open_max_probes cfg - cb_probes (cb_of w p)"
    using assms(4) by (simp add: room_def)
  show ?case
  proof (cases "n < room")
    case True
    then have "available_at cfg (clock e (tick ?w)) (cb_of ?w p)"
      using room st by (auto simp: available_at_def cb)
    with True st Suc t' room show ?thesis
      by (auto simp: Let_def prod.case_eq_if begin_probe_fst begin_probe_cb probe_at_def cb
          available_at_def min_def)
  next
    case False
    then have "\<not> available_at cfg (clock e (tick ?w)) (cb_of ?w p)"
      using room st by (auto simp: available_at_def cb)
    with False st Suc t' room show ?thesis
      by (auto simp: Let_def prod.case_eq_if begin_probe_fst begin_probe_cb probe_at_def cb
          available_at_def min_def)
  qed
qed

text \<open>
  Everything that can happen to the breakers while no attempt through provider \<open>p\<close> ends:
  availability checks and probe requests for any provider, outcomes of other providers, time,
  restarts.
\<close>

inductive step_without ::
  "'e env_scheme \<Rightarrow> circuit_breaker_config \<Rightarrow> string \<Rightarrow> world \<Rightarrow> world \<Rightarrow> bool" for e cfg p where
  "step_without e cfg p w (snd (is_available e cfg q w))"
| "step_without e cfg p w (snd (begin_probe e cfg q w))"
| "q \<noteq> p \<Longrightarrow> step_without e cfg p w (record_success e q w)"
| "q \<noteq> p \<Longrightarrow> step_without e cfg p w (record_failure e cfg q w)"
| "step_without e cfg p w (w\<lparr>tick := Suc (tick w)\<rparr>)"
| "step_without e cfg p w (restart_breaker w)"

definition probes_exhausted :: "circuit_breaker_config \<Rightarrow> string \<Rightarrow> world \<Rightarrow> bool" where
  "probes_exhausted cfg p w \<longleftrightarrow>
     breaker_synced w \<and> \<not> cb_healthy (cb_of w p) \<and> cb_probes (cb_of w p) \<ge> half_open_max_probes cfg"

interpretation stuck_sys: invariant_system
  "probes_exhausted cfg p" "step_without e cfg p" "probes_exhausted cfg p" for e cfg p
proof
  fix w w'
  assume st: "probes_exhausted cfg p w" and step: "step_without e cfg p w w'"
  have pr: "probe_at cfg now (cb_of w p) = cb_of w p" for now
    using st by (simp add: probes_exhausted_def probe_at_def)
  from step show "probes_exhausted cfg p w'"
  proof cases
    case (1 q)
    with st show ?thesis
      by (auto simp: probes_exhausted_def intro: breaker_synced_cong is_available_rows)
  next
    case (2 q)
    with st pr show ?thesis by (auto simp: probes_exhausted_def begin_probe_cb begin_probe_synced)
  next
    case (3 q)
    with st show ?thesis by (auto simp: probes_exhausted_def record_success_cb record_success_synced)
  next
    case (4 q)
    with st show ?thesis by (auto simp: probes_exhausted_def record_failure_cb record_failure_synced)
  next
    case 5
    with st show ?thesis by (auto simp: probes_exhausted_def intro: breaker_synced_cong)
  next
    case 6
    with st show ?thesis
      by (auto simp: probes_exhausted_def restart_breaker_cb intro: breaker_synced_cong)
  qed
qed auto

section \<open>Properties\<close>

text \<open>Claim C11: in every state the breaker operations, restarts and the passage of time can reach
  from an empty table, each provider's breaker is well formed: its failure and probe counts are
  not negative, the probes never exceed \<open>half_open_max_probes\<close>, a closed breaker has no opening
  time, no probes and fewer failures than the threshold, and a breaker that is not closed has an
  opening time.\<close>

theorem breaker_reachable_wf:
  assumes "breaker_init w0" "valid_breaker cfg" "(breaker_step e cfg)\<^sup>*\<^sup>* w0 w"
  shows "cb_inv cfg (cb_of w p)"
  using cb_sys.inv_reachable [OF assms(1,3)] assms(2) by (simp add: breaker_inv_def)

text \<open>Claim C17: a restart forgets nothing about a breaker: in every reachable state, the dictionary a
  new process loads from \<open>provider_state\<close> gives every provider the state it had, so the same status
  and the same availability at every time.\<close>

theorem breaker_survives_restart:
  assumes "breaker_init w0" "(breaker_step e cfg)\<^sup>*\<^sup>* w0 w"
  shows "cb_of (restart_breaker w) p = cb_of w p \<and>
         available_at cfg now (cb_of (restart_breaker w) p) = available_at cfg now (cb_of w p)"
  using cb_sys.inv_reachable [OF assms] by (simp add: breaker_inv_def restart_breaker_cb)

text \<open>Claim C16: a closed breaker with no recorded failures stays available through the first
  \<open>failure_threshold - 1\<close> consecutive failures; the next one opens it, and from its opening time it
  refuses every request until \<open>cooldown_seconds\<close> have passed and admits one again from then on.\<close>

theorem breaker_opens_at_threshold:
  assumes "valid_breaker cfg" "cb_healthy (cb_of w p)" "cb_failures (cb_of w p) = 0"
    and "n = nat (failure_threshold cfg)"
  shows "(\<forall>k<n. fst (is_available e cfg p (failures e cfg p k w))) \<and>
    (\<exists>t. cb_opened_at (cb_of (failures e cfg p n w) p) = Some t \<and>
       (\<forall>now. available_at cfg now (cb_of (failures e cfg p n w) p) \<longleftrightarrow>
              t + seconds_td (cooldown_seconds cfg) \<le> now))"
proof -
  have thr: "0 < failure_threshold cfg" "0 < half_open_max_probes cfg"
    using assms(1) by (simp_all add: valid_breaker_def)
  then obtain m where m: "n = Suc m" using assms(4) by (metis not0_implies_Suc zero_less_nat_eq less_irrefl)
  have below: "fst (is_available e cfg p (failures e cfg p k w))" if "k < n" for k
    using failures_below [of w p k cfg e] assms that
    by (simp add: is_available_fst available_at_def status_at_def)
  have sum: "cb_failures (cb_of w p) + int (Suc m) = failure_threshold cfg"
    using assms(3,4) m thr by simp
  note F = failures_at_threshold [OF assms(2) sum, of e]
  have "cb_probes (cb_of (failures e cfg p (Suc m) w) p) = 0"
    using failures_below [of w p m cfg e] assms(2,3) sum
    by (simp add: record_failure_cb failure_at_def Let_def)
  with F thr below show ?thesis unfolding m
    by (auto simp: available_at_def status_at_def simp del: failures.simps)
qed

theorem breaker_opens_at_threshold_witness:
  "fst (is_available demo_env demo_breaker ''b'' (failures demo_env demo_breaker ''b'' 1 init_world)) \<and>
   (\<exists>t. cb_opened_at (cb_of (failures demo_env demo_breaker ''b'' 2 init_world) ''b'') = Some t \<and>
     (\<forall>now. available_at demo_breaker now (cb_of (failures demo_env demo_breaker ''b'' 2 init_world) ''b'') \<longleftrightarrow>
            t + seconds_td (cooldown_seconds demo_breaker) \<le> now))"
proof -
  have "cb_healthy (cb_of init_world ''b'')" "cb_failures (cb_of init_world ''b'') = 0"
    "(2::nat) = nat (failure_threshold demo_breaker)"
    by (simp_all add: cb_of_def init_world_def default_state_def demo_breaker_def)
  from breaker_opens_at_threshold [OF demo_breaker_valid this, of demo_env] show ?thesis
    by (auto simp del: failures.simps)
qed

text \<open>A half-open breaker admits exactly the probes that are left: of any number of
  successive \<open>begin_probe\<close> calls, \<open>half_open_max_probes\<close> minus the probes already in flight are
  granted, and the others are refused.\<close>

theorem half_open_probe_budget:
  assumes "mono_clock e" "status_at cfg (clock e (tick w)) (cb_of w p) = Half_open"
    and "0 \<le> cb_probes (cb_of w p)" "cb_probes (cb_of w p) \<le> half_open_max_probes cfg"
  shows "int (fst (probes_granted e cfg p n w)) =
         min (int n) (half_open_max_probes cfg - cb_probes (cb_of w p))"
  using probes_granted_inv [OF assms, of n] assms(4) by (auto simp: min_def)

text \<open>A world whose provider \<open>b\<close> has an open breaker past its cooldown.\<close>

definition half_open_world :: world where
  "half_open_world = put_state ''b''
     (default_state\<lparr>cb_healthy := False, cb_failures := 2, cb_opened_at := Some 0\<rparr>) init_world"

lemma half_open_world_status:
  "status_at demo_breaker (clock demo_env (tick half_open_world)) (cb_of half_open_world ''b'') = Half_open"
  by (simp add: half_open_world_def status_at_def demo_env_def demo_breaker_def init_world_def
      seconds_td_def usec_per_second_def demo_epoch_value)

theorem half_open_probe_budget_witness:
  "int (fst (probes_granted demo_env demo_breaker ''b'' 5 half_open_world)) = 1"
  using half_open_probe_budget [OF demo_env_mono half_open_world_status, of 5]
  by (simp add: half_open_world_def default_state_def demo_breaker_def)

text \<open>The outcome of a probe decides a half-open breaker: a failure opens it again with a
  cooldown that starts at the failure (it is unavailable at every later time before the cooldown
  ends) and gives the probe slots back, a success closes it and clears the failure count.\<close>

theorem probe_outcome:
  assumes "mono_clock e" "status_at cfg (clock e (tick w)) (cb_of w p) = Half_open"
  shows "(\<exists>t. clock e (tick w) \<le> t \<and> cb_opened_at (cb_of (record_failure e cfg p w) p) = Some t \<and>
            cb_probes (cb_of (record_failure e cfg p w) p) = 0 \<and>
            (\<forall>now < t + seconds_td (cooldown_seconds cfg).
               status_at cfg now (cb_of (record_failure e cfg p w) p) = Open)) \<and>
         status_at cfg now' (cb_of (record_success e p w) p) = Closed \<and>
         cb_failures (cb_of (record_success e p w) p) = 0"
proof -
  let ?st = "(cb_of w p)\<lparr>cb_failures := cb_failures (cb_of w p) + 1,
      cb_last_failure_at := Some (clock e (tick w))\<rparr>"
  have "status_at cfg (clock e (Suc (tick w))) (cb_of w p) = Half_open"
    using assms(2) mono_clockD [OF assms(1), of "tick w" "Suc (tick w)"]
    by (auto intro: status_half_open_mono)
  then have "status_at cfg (clock e (Suc (tick w))) ?st = Half_open"
    by (auto simp: status_at_def split: if_splits)
  moreover have "clock e (tick w) \<le> clock e (failure_open_tick w p)"
    by (rule mono_clockD [OF assms(1)]) (simp add: failure_open_tick_def)
  ultimately show ?thesis
    by (auto simp: record_failure_cb record_success_cb failure_at_def success_at_def Let_def
        status_at_def)
qed

theorem probe_outcome_witness:
  "(\<exists>t. clock demo_env (tick half_open_world) \<le> t \<and>
      cb_opened_at (cb_of (record_failure demo_env demo_breaker ''b'' half_open_world) ''b'') = Some t \<and>
      cb_probes (cb_of (record_failure demo_env demo_breaker ''b'' half_open_world) ''b'') = 0 \<and>
      (\<forall>now < t + seconds_td (cooldown_seconds demo_breaker).
         status_at demo_breaker now
           (cb_of (record_failure demo_env demo_breaker ''b'' half_open_world) ''b'') = Open)) \<and>
   status_at demo_breaker 0 (cb_of (record_success demo_env ''b'' half_open_world) ''b'') = Closed \<and>
   cb_failures (cb_of (record_success demo_env ''b'' half_open_world) ''b'') = 0"
  by (rule probe_outcome [OF demo_env_mono half_open_world_status])

text \<open>A probe slot that is taken and never settled is never given back. When the last probe
  slot of a half-open breaker is claimed and the process stops before the attempt ends, the claim
  has been written to \<open>provider_state\<close>; from then on the provider is unavailable at every time,
  through any number of restarts, availability checks and outcomes of other providers. Only an
  outcome recorded for this very provider (which no routed message can produce any more) or the
  manual reset ends it.\<close>

theorem crashed_probe_blocks_provider:
  assumes "breaker_synced w" "status_at cfg (clock e (tick w)) (cb_of w p) = Half_open"
    and "cb_probes (cb_of w p) + 1 = half_open_max_probes cfg"
    and "(step_without e cfg p)\<^sup>*\<^sup>* (restart_breaker (snd (begin_probe e cfg p w))) w'"
  shows "fst (begin_probe e cfg p w) \<and> \<not> fst (is_available e cfg p w') \<and>
         (\<forall>now. \<not> available_at cfg now (cb_of w' p))"
proof -
  let ?w1 = "snd (begin_probe e cfg p w)"
  have un: "\<not> cb_healthy (cb_of w p)"
    using assms(2) by (auto simp: status_at_def split: if_splits)
  have sy: "breaker_synced ?w1" using assms(1) by (rule begin_probe_synced)
  have "probes_exhausted cfg p (restart_breaker ?w1)"
    using assms(2,3) un sy
    by (auto simp: probes_exhausted_def restart_breaker_cb begin_probe_cb probe_at_def
        intro: breaker_synced_cong)
  then have "probes_exhausted cfg p w'" using assms(4) by (rule stuck_sys.inv_reachable)
  then have "\<not> available_at cfg now (cb_of w' p)" for now
    by (auto simp: probes_exhausted_def dest: half_open_stuck)
  moreover have "fst (begin_probe e cfg p w)"
    using assms(2,3) by (simp add: begin_probe_fst available_at_def)
  ultimately show ?thesis by (simp add: is_available_fst)
qed

definition half_open_saved :: world where
  "half_open_saved = persist demo_env ''b'' half_open_world"

lemma half_open_saved_ok:
  "breaker_synced half_open_saved"
  "status_at demo_breaker (clock demo_env (tick half_open_saved)) (cb_of half_open_saved ''b'') = Half_open"
  "cb_probes (cb_of half_open_saved ''b'') + 1 = half_open_max_probes demo_breaker"
proof -
  have "breaker_synced init_world"
    by (simp add: breaker_synced_def cb_of_def init_world_def empty_database_def)
  then show "breaker_synced half_open_saved"
    unfolding half_open_saved_def half_open_world_def by (rule breaker_synced_persist) simp_all
  have t: "tick half_open_world \<le> tick half_open_saved"
    unfolding half_open_saved_def by (rule breaker_frame_tick [OF persist_breaker_frame])
  show "status_at demo_breaker (clock demo_env (tick half_open_saved)) (cb_of half_open_saved ''b'') = Half_open"
    using status_half_open_mono [OF half_open_world_status mono_clockD [OF demo_env_mono t]]
    by (simp add: half_open_saved_def)
  show "cb_probes (cb_of half_open_saved ''b'') + 1 = half_open_max_probes demo_breaker"
    by (simp add: half_open_saved_def half_open_world_def default_state_def demo_breaker_def)
qed

theorem crashed_probe_blocks_provider_witness:
  "fst (begin_probe demo_env demo_breaker ''b'' half_open_saved) \<and>
   \<not> fst (is_available demo_env demo_breaker ''b''
          (restart_breaker (snd (begin_probe demo_env demo_breaker ''b'' half_open_saved))))"
  using crashed_probe_blocks_provider [OF half_open_saved_ok rtranclp.rtrancl_refl] by simp

theorem breaker_reachable_wf_witness:
  "cb_inv demo_breaker (cb_of (record_failure demo_env demo_breaker ''b'' init_world) ''b'')"
  by (rule breaker_reachable_wf [of init_world demo_breaker demo_env])
     (auto simp: breaker_init_def init_world_def empty_database_def intro: breaker_step.failure)

theorem breaker_survives_restart_witness:
  "cb_of (restart_breaker (record_failure demo_env demo_breaker ''b'' init_world)) ''b'' =
     cb_of (record_failure demo_env demo_breaker ''b'' init_world) ''b'' \<and>
   available_at demo_breaker 0
     (cb_of (restart_breaker (record_failure demo_env demo_breaker ''b'' init_world)) ''b'') =
   available_at demo_breaker 0
     (cb_of (record_failure demo_env demo_breaker ''b'' init_world) ''b'')"
  by (rule breaker_survives_restart [of init_world demo_env demo_breaker])
     (auto simp: breaker_init_def init_world_def empty_database_def intro: breaker_step.failure)

end
