(* ===== verification/Rate_Limiter.thy ===== *)
theory Rate_Limiter
  imports World
begin

text \<open>
  \<open>src/smtp_switch/dispatch/rate_limiter.py\<close>: reservations against the sliding windows, the
  daily and monthly counters and the concurrency cap of a provider. An operation holds the
  provider's lock for its whole duration, so it is one atomic state transformer; the table
  \<open>send_log\<close>, the table \<open>provider_quota\<close> and the dictionary \<open>_inflight\<close> are fields of the world.
\<close>

section \<open>Operations\<close>

record reservation =
  res_provider :: string
  send_log_id :: int
  day_key :: "string option"
  month_key :: "string option"
  reset_day :: int

record limit_check =
  allowed :: bool
  blocking_window :: "string option"
  headroom :: "(string \<times> int) list"

text \<open>The number of ledger rows of a provider at or after an instant.\<close>

definition sent_since :: "database \<Rightarrow> string \<Rightarrow> datetime \<Rightarrow> int" where
  "sent_since d p since = count_where (\<lambda>r. sl_provider r = p \<and> sl_sent_at r \<ge> since) (send_log d)"

definition sliding_counts ::
  "'e env_scheme \<Rightarrow> string \<Rightarrow> provider_limits \<Rightarrow> world \<Rightarrow> (string \<times> int) list \<times> world" where
  "sliding_counts e p l w =
     (let (now, w) = utcnow e w
      in (map (\<lambda>(window, sp, _). (window, sent_since (db w) p (now - seconds_td sp)))
            (sliding_windows l), w))"

definition dict_get :: "(string \<times> int) list \<Rightarrow> string \<Rightarrow> int \<Rightarrow> int" where
  "dict_get d k dflt = (case map_of d k of None \<Rightarrow> dflt | Some v \<Rightarrow> v)"

definition bump_quota ::
  "'e env_scheme \<Rightarrow> string \<Rightarrow> string \<Rightarrow> string \<Rightarrow> int \<Rightarrow> world \<Rightarrow> world" where
  "bump_quota e p scope key delta w =
     (let c = quota_of (db w) (p, key, scope); (now, w) = utcnow e w;
          row = \<lparr>q_count = max 0 (c + delta), q_updated_at = now\<rparr>
      in upd_db (\<lambda>d. d\<lparr>quota := (quota d)((p, key, scope) \<mapsto> row)\<rparr>) w)"

definition bump_if ::
  "'e env_scheme \<Rightarrow> string \<Rightarrow> string \<Rightarrow> string option \<Rightarrow> int \<Rightarrow> world \<Rightarrow> world" where
  "bump_if e p scope key delta w =
     (case key of None \<Rightarrow> w | Some k \<Rightarrow> bump_quota e p scope k delta w)"

definition add_send_log :: "string \<Rightarrow> datetime \<Rightarrow> world \<Rightarrow> int \<times> world" where
  "add_send_log p now w =
     (let i = next_rowid sl_id (send_log (db w));
          row = \<lparr>sl_id = i, sl_provider = p, sl_message_id = None, sl_sent_at = now\<rparr>
      in (i, upd_db (\<lambda>d. d\<lparr>send_log := send_log d @ [row]\<rparr>) w))"

definition try_reserve ::
  "'e env_scheme \<Rightarrow> settings \<Rightarrow> string \<Rightarrow> world \<Rightarrow> (exn + reservation option) \<times> world" where
  "try_reserve e s p w =
     (case provider s p of
        None \<Rightarrow> (Inl (KeyError p), w)
      | Some cfg \<Rightarrow>
          (let l = limits cfg in
           if (case max_concurrent l of None \<Rightarrow> False | Some m \<Rightarrow> inflight w p \<ge> m)
           then (Inr None, w)
           else
             let (now, w) = utcnow e w;
                 (counts, w) = sliding_counts e p l w
             in if list_ex (\<lambda>(window, _, limit). dict_get counts window 0 \<ge> limit) (sliding_windows l)
                then (Inr None, w)
                else
                  let dk = map_option (\<lambda>_. day_period_key now) (per_day l);
                      mk = map_option (\<lambda>_. month_period_key now (month_reset_day l)) (per_month l)
                  in if (case per_day l of None \<Rightarrow> False
                         | Some lm \<Rightarrow> quota_of (db w) (p, the dk, ''day'') \<ge> lm)
                     then (Inr None, w)
                     else if (case per_month l of None \<Rightarrow> False
                              | Some lm \<Rightarrow> quota_of (db w) (p, the mk, ''month'') \<ge> lm)
                     then (Inr None, w)
                     else
                       let (i, w) = add_send_log p now w;
                           w = bump_if e p ''day'' dk 1 w;
                           w = bump_if e p ''month'' mk 1 w;
                           w = w\<lparr>inflight := (inflight w)(p := inflight w p + 1)\<rparr>
                       in (Inr (Some \<lparr>res_provider = p, send_log_id = i, day_key = dk,
                                      month_key = mk, reset_day = month_reset_day l\<rparr>), w)))"

definition free_slot :: "string \<Rightarrow> world \<Rightarrow> world" where
  "free_slot p w = w\<lparr>inflight := (inflight w)(p := max 0 (inflight w p - 1))\<rparr>"

definition commit :: "reservation \<Rightarrow> world \<Rightarrow> world" where
  "commit r w = free_slot (res_provider r) w"

definition release :: "'e env_scheme \<Rightarrow> reservation \<Rightarrow> world \<Rightarrow> world" where
  "release e r w =
     (let w = free_slot (res_provider r) w;
          w = upd_db (\<lambda>d. d\<lparr>send_log := delete_where (\<lambda>x. sl_id x = send_log_id r) (send_log d)\<rparr>) w;
          w = bump_if e (res_provider r) ''day'' (day_key r) (-1) w
      in bump_if e (res_provider r) ''month'' (month_key r) (-1) w)"

text \<open>\<open>check\<close>: the dictionary \<open>headroom\<close> in insertion order, and the first blocking window.\<close>

definition blocking_or :: "string option \<Rightarrow> int \<Rightarrow> string \<Rightarrow> string option" where
  "blocking_or b room window =
     (if room \<le> 0 then (case b of None \<Rightarrow> Some window | Some x \<Rightarrow> Some x) else b)"

definition room_step ::
  "string \<Rightarrow> int \<Rightarrow> (string \<times> int) list \<times> string option \<Rightarrow> (string \<times> int) list \<times> string option" where
  "room_step window room = (\<lambda>(h, b). (AList.update window (max 0 room) h, blocking_or b room window))"

definition check ::
  "'e env_scheme \<Rightarrow> settings \<Rightarrow> string \<Rightarrow> world \<Rightarrow> (exn + limit_check) \<times> world" where
  "check e s p w =
     (case provider s p of
        None \<Rightarrow> (Inl (KeyError p), w)
      | Some cfg \<Rightarrow>
          (let l = limits cfg;
               acc = (case max_concurrent l of None \<Rightarrow> ([], None)
                      | Some m \<Rightarrow> room_step ''concurrent'' (m - inflight w p) ([], None));
               (counts, w) = sliding_counts e p l w;
               acc = fold (\<lambda>(window, _, limit). room_step window (limit - dict_get counts window 0))
                       (sliding_windows l) acc;
               (now, w) = utcnow e w;
               acc = (case per_day l of None \<Rightarrow> acc
                      | Some lm \<Rightarrow> room_step ''per_day''
                          (lm - quota_of (db w) (p, day_period_key now, ''day'')) acc);
               acc = (case per_month l of None \<Rightarrow> acc
                      | Some lm \<Rightarrow> room_step ''per_month''
                          (lm - quota_of (db w) (p, month_period_key now (month_reset_day l), ''month'')) acc)
           in (Inr \<lparr>allowed = (snd acc = None), blocking_window = snd acc, headroom = fst acc\<rparr>, w)))"

definition widest_window :: "settings \<Rightarrow> int" where
  "widest_window s = fold (\<lambda>p m. max (max_window_span (limits p)) m) (providers s) 0"

definition prune :: "'e env_scheme \<Rightarrow> settings \<Rightarrow> world \<Rightarrow> int \<times> world" where
  "prune e s w =
     (let widest = widest_window s in
      if widest \<le> 0 then (0, w)
      else let (now, w) = utcnow e w; cutoff = now - seconds_td (widest + 60);
               old = (\<lambda>r. sl_sent_at r < cutoff)
           in (count_where old (send_log (db w)),
               upd_db (\<lambda>d. d\<lparr>send_log := delete_where old (send_log d)\<rparr>) w))"

section \<open>What the limiter leaves alone\<close>

text \<open>\<open>w'\<close> differs from \<open>w\<close> at most in the clock position, the in-flight counts, the ledger and
  the quota table.\<close>

definition limiter_frame :: "world \<Rightarrow> world \<Rightarrow> bool" where
  "limiter_frame w w' \<longleftrightarrow>
     tick w \<le> tick w' \<and> states w' = states w \<and> overrides w' = overrides w \<and>
     queue w' = queue w \<and> wakeup w' = wakeup w \<and> spool w' = spool w \<and> metrics w' = metrics w \<and>
     messages (db w') = messages (db w) \<and> delivery_attempts (db w') = delivery_attempts (db w) \<and>
     state_rows (db w') = state_rows (db w) \<and> accounts (db w') = accounts (db w) \<and>
     dashboard_users (db w') = dashboard_users (db w) \<and> override_rows (db w') = override_rows (db w)"

lemma limiter_frame_refl [simp]: "limiter_frame w w"
  by (simp add: limiter_frame_def)

lemma limiter_frame_trans:
  "limiter_frame w w' \<Longrightarrow> limiter_frame w' w'' \<Longrightarrow> limiter_frame w w''"
  by (auto simp: limiter_frame_def)

lemma limiter_frame_tick: "limiter_frame w w' \<Longrightarrow> tick w \<le> tick w'"
  by (simp add: limiter_frame_def)

lemma limiter_frame_fields:
  assumes "limiter_frame w w'"
  shows "states w' = states w" "overrides w' = overrides w" "queue w' = queue w"
    "wakeup w' = wakeup w" "spool w' = spool w" "metrics w' = metrics w"
    "messages (db w') = messages (db w)" "delivery_attempts (db w') = delivery_attempts (db w)"
    "state_rows (db w') = state_rows (db w)" "override_rows (db w') = override_rows (db w)"
  using assms by (simp_all add: limiter_frame_def)

section \<open>Quota counters\<close>

lemma bump_quota_of:
  "quota_of (db (bump_quota e p sc k dl w)) key =
     (if key = (p, k, sc) then max 0 (quota_of (db w) key + dl) else quota_of (db w) key)"
  by (simp add: bump_quota_def Let_def utcnow_def quota_of_def)

lemma bump_if_quota_of:
  "quota_of (db (bump_if e p sc ko dl w)) (q, k, sc') =
     (if q = p \<and> ko = Some k \<and> sc' = sc then max 0 (quota_of (db w) (q, k, sc') + dl)
      else quota_of (db w) (q, k, sc'))"
  by (auto simp: bump_if_def bump_quota_of split: option.splits)

lemma bump_if_fields [simp]:
  "send_log (db (bump_if e p sc ko dl w)) = send_log (db w)"
  "inflight (bump_if e p sc ko dl w) = inflight w"
  by (simp_all add: bump_if_def bump_quota_def Let_def utcnow_def split: option.splits)

lemma bump_if_limiter_frame: "limiter_frame w (bump_if e p sc ko dl w)"
  by (simp add: limiter_frame_def bump_if_def bump_quota_def Let_def utcnow_def split: option.splits)

section \<open>When a reservation is granted\<close>

text \<open>
  The guards of \<open>try_reserve\<close> as one predicate: \<open>now\<close> is the reading that dates the reservation,
  \<open>cnow\<close> the later reading the sliding windows are counted from.
\<close>

definition can_reserve ::
  "provider_limits \<Rightarrow> string \<Rightarrow> datetime \<Rightarrow> datetime \<Rightarrow> world \<Rightarrow> bool" where
  "can_reserve l p now cnow w \<longleftrightarrow>
     (case max_concurrent l of None \<Rightarrow> True | Some m \<Rightarrow> inflight w p < m) \<and>
     list_all (\<lambda>(_, sp, lm). sent_since (db w) p (cnow - seconds_td sp) < lm) (sliding_windows l) \<and>
     (case per_day l of None \<Rightarrow> True
      | Some lm \<Rightarrow> quota_of (db w) (p, day_period_key now, ''day'') < lm) \<and>
     (case per_month l of None \<Rightarrow> True
      | Some lm \<Rightarrow> quota_of (db w) (p, month_period_key now (month_reset_day l), ''month'') < lm)"

definition new_reservation :: "provider_limits \<Rightarrow> string \<Rightarrow> datetime \<Rightarrow> world \<Rightarrow> reservation" where
  "new_reservation l p now w =
     \<lparr>res_provider = p, send_log_id = next_rowid sl_id (send_log (db w)),
      day_key = map_option (\<lambda>_. day_period_key now) (per_day l),
      month_key = map_option (\<lambda>_. month_period_key now (month_reset_day l)) (per_month l),
      reset_day = month_reset_day l\<rparr>"

lemma sliding_windows_distinct: "distinct (map fst (sliding_windows l))"
  by (simp add: sliding_windows_def)

lemma map_of_windows:
  assumes "distinct (map fst ws)" "(window, sp, lm) \<in> set ws"
  shows "map_of (map (\<lambda>(window, sp, _). (window, f sp)) ws) window = Some (f sp)"
  using assms by (induction ws) (auto simp: rev_image_eqI)

lemma dict_get_sliding_counts:
  assumes "(window, sp, lm) \<in> set (sliding_windows l)"
  shows "dict_get (fst (sliding_counts e p l w)) window 0 =
         sent_since (db w) p (clock e (tick w) - seconds_td sp)"
  using map_of_windows [OF sliding_windows_distinct assms,
      of "\<lambda>sp. sent_since (db w) p (clock e (tick w) - seconds_td sp)"]
  by (simp add: sliding_counts_def utcnow_def dict_get_def)

lemma sliding_counts_snd [simp]: "snd (sliding_counts e p l w) = w\<lparr>tick := Suc (tick w)\<rparr>"
  by (simp add: sliding_counts_def utcnow_def)

lemma sliding_block_iff:
  "list_ex (\<lambda>(window, _, limit). dict_get (fst (sliding_counts e p l w)) window 0 \<ge> limit) (sliding_windows l)
   \<longleftrightarrow> \<not> list_all (\<lambda>(_, sp, lm). sent_since (db w) p (clock e (tick w) - seconds_td sp) < lm)
        (sliding_windows l)"
proof -
  have "(case x of (window, _, limit) \<Rightarrow> dict_get (fst (sliding_counts e p l w)) window 0 \<ge> limit) \<longleftrightarrow>
      \<not> (case x of (_, sp, lm) \<Rightarrow> sent_since (db w) p (clock e (tick w) - seconds_td sp) < lm)"
    if mem: "x \<in> set (sliding_windows l)" for x
  proof -
    obtain window sp lm where x: "x = (window, sp, lm)" by (cases x)
    show ?thesis using dict_get_sliding_counts [OF mem [unfolded x], of e p w] by (auto simp: x)
  qed
  then show ?thesis by (auto simp: list_ex_iff list_all_iff)
qed

text \<open>The world after a granted reservation.\<close>

definition reserved_world ::
  "'e env_scheme \<Rightarrow> provider_limits \<Rightarrow> string \<Rightarrow> world \<Rightarrow> world" where
  "reserved_world e l p w =
     (let now = clock e (tick w);
          w1 = snd (add_send_log p now (w\<lparr>tick := Suc (Suc (tick w))\<rparr>));
          w2 = bump_if e p ''day'' (map_option (\<lambda>_. day_period_key now) (per_day l)) 1 w1;
          w3 = bump_if e p ''month''
                 (map_option (\<lambda>_. month_period_key now (month_reset_day l)) (per_month l)) 1 w2
      in w3\<lparr>inflight := (inflight w3)(p := inflight w3 p + 1)\<rparr>)"

lemma try_reserve_unfold:
  assumes "provider s p = Some cfg"
  defines "l \<equiv> limits cfg"
  shows "try_reserve e s p w =
    (if can_reserve l p (clock e (tick w)) (clock e (Suc (tick w))) w
     then (Inr (Some (new_reservation l p (clock e (tick w)) w)), reserved_world e l p w)
     else (Inr None,
           if (case max_concurrent l of None \<Rightarrow> False | Some m \<Rightarrow> inflight w p \<ge> m) then w
           else w\<lparr>tick := Suc (Suc (tick w))\<rparr>))"
proof (cases "case max_concurrent l of None \<Rightarrow> False | Some m \<Rightarrow> inflight w p \<ge> m")
  case True
  then have "\<not> can_reserve l p (clock e (tick w)) (clock e (Suc (tick w))) w"
    by (auto simp: can_reserve_def split: option.splits)
  with True assms show ?thesis by (simp add: try_reserve_def l_def)
next
  case False
  let ?w = "w\<lparr>tick := Suc (tick w)\<rparr>"
  have c: "case max_concurrent l of None \<Rightarrow> True | Some m \<Rightarrow> inflight w p < m"
    using False by (auto split: option.splits)
  note B = sliding_block_iff [of e p l ?w]
  show ?thesis
    using assms(1) False c B
    by (auto simp: try_reserve_def l_def [symmetric] Let_def utcnow_def prod.case_eq_if
        can_reserve_def reserved_world_def new_reservation_def add_send_log_def not_less not_le
        split: option.splits)
qed

lemma try_reserve_unknown: "provider s p = None \<Longrightarrow> try_reserve e s p w = (Inl (KeyError p), w)"
  by (simp add: try_reserve_def)

lemma reserved_world_inflight:
  "inflight (reserved_world e l p w) = (inflight w)(p := inflight w p + 1)"
  by (simp add: reserved_world_def Let_def add_send_log_def)

lemma reserved_world_send_log:
  "send_log (db (reserved_world e l p w)) = send_log (db w) @
     [\<lparr>sl_id = next_rowid sl_id (send_log (db w)), sl_provider = p, sl_message_id = None,
       sl_sent_at = clock e (tick w)\<rparr>]"
  by (simp add: reserved_world_def Let_def add_send_log_def)

lemma quota_of_db_cong: "quota d = quota d' \<Longrightarrow> quota_of d k = quota_of d' k"
  by (simp add: quota_of_def)

lemma quota_of_nonneg_step:
  "0 \<le> c \<Longrightarrow> max 0 (c + 1) = c + (1::int)"
  by simp

definition quota_nonneg :: "world \<Rightarrow> bool" where
  "quota_nonneg w \<longleftrightarrow> (\<forall>k. 0 \<le> quota_of (db w) k)"

lemma reserved_world_quota:
  assumes "quota_nonneg w"
  shows "quota_of (db (reserved_world e l p w)) (q, k, sc) =
    quota_of (db w) (q, k, sc) +
      (if q = p \<and> (sc = ''day'' \<and> day_key (new_reservation l p (clock e (tick w)) w) = Some k \<or>
                    sc = ''month'' \<and> month_key (new_reservation l p (clock e (tick w)) w) = Some k)
       then 1 else 0)"
proof -
  let ?w1 = "snd (add_send_log p (clock e (tick w)) (w\<lparr>tick := Suc (Suc (tick w))\<rparr>))"
  have "quota_of (db ?w1) key = quota_of (db w) key" for key
    by (rule quota_of_db_cong) (simp add: add_send_log_def Let_def)
  moreover have "0 \<le> quota_of (db w) key" for key using assms by (simp only: quota_nonneg_def)
  ultimately show ?thesis
    by (auto simp: reserved_world_def Let_def bump_if_quota_of new_reservation_def)
qed

lemma reserved_world_frame2:
  "limiter_frame (w\<lparr>tick := Suc (Suc (tick w))\<rparr>) (reserved_world e l p w)"
proof -
  have a: "limiter_frame (w\<lparr>tick := n\<rparr>) (snd (add_send_log p t (w\<lparr>tick := n\<rparr>)))" for t n
    by (simp add: limiter_frame_def add_send_log_def Let_def)
  have i: "limiter_frame v (v\<lparr>inflight := f\<rparr>)" for v f by (simp add: limiter_frame_def)
  show ?thesis unfolding reserved_world_def Let_def
    by (rule limiter_frame_trans [OF _ i],
        rule limiter_frame_trans [OF _ bump_if_limiter_frame],
        rule limiter_frame_trans [OF _ bump_if_limiter_frame], rule a)
qed

lemma reserved_world_tick: "Suc (Suc (tick w)) \<le> tick (reserved_world e l p w)"
  using limiter_frame_tick [OF reserved_world_frame2, of w e l p] by simp

lemma reserved_world_limiter_frame: "limiter_frame w (reserved_world e l p w)"
proof (rule limiter_frame_trans [OF _ reserved_world_frame2])
  show "limiter_frame w (w\<lparr>tick := Suc (Suc (tick w))\<rparr>)" by (simp add: limiter_frame_def)
qed

lemma try_reserve_limiter_frame: "limiter_frame w (snd (try_reserve e s p w))"
proof (cases "provider s p")
  case (Some cfg)
  then show ?thesis
    using reserved_world_limiter_frame [of w e "limits cfg" p]
    by (auto simp: try_reserve_unfold limiter_frame_def)
qed (simp add: try_reserve_unknown)

lemma commit_limiter_frame: "limiter_frame w (commit r w)"
  by (simp add: limiter_frame_def commit_def free_slot_def)

lemma release_limiter_frame: "limiter_frame w (release e r w)"
proof -
  let ?w = "upd_db (\<lambda>d. d\<lparr>send_log := delete_where (\<lambda>x. sl_id x = send_log_id r) (send_log d)\<rparr>)
              (free_slot (res_provider r) w)"
  have "limiter_frame w ?w" by (simp add: limiter_frame_def free_slot_def)
  then show ?thesis unfolding release_def Let_def
    by (blast intro: limiter_frame_trans bump_if_limiter_frame)
qed

lemma prune_limiter_frame: "limiter_frame w (snd (prune e s w))"
  by (simp add: prune_def Let_def utcnow_def limiter_frame_def)

lemma release_inflight:
  "inflight (release e r w) = (inflight w)(res_provider r := max 0 (inflight w (res_provider r) - 1))"
  by (simp add: release_def Let_def free_slot_def)

lemma commit_inflight:
  "inflight (commit r w) = (inflight w)(res_provider r := max 0 (inflight w (res_provider r) - 1))"
  by (simp add: commit_def free_slot_def)

lemma commit_db [simp]: "db (commit r w) = db w"
  by (simp add: commit_def free_slot_def)

lemma commit_tick [simp]: "tick (commit r w) = tick w"
  by (simp add: commit_def free_slot_def)

lemma release_send_log:
  "send_log (db (release e r w)) = delete_where (\<lambda>x. sl_id x = send_log_id r) (send_log (db w))"
  by (simp add: release_def Let_def free_slot_def)

lemma release_quota:
  assumes "quota_nonneg w"
  shows "quota_of (db (release e r w)) (q, k, sc) =
    max 0 (quota_of (db w) (q, k, sc) -
      (if q = res_provider r \<and> (sc = ''day'' \<and> day_key r = Some k \<or> sc = ''month'' \<and> month_key r = Some k)
       then 1 else 0))"
proof -
  let ?w = "upd_db (\<lambda>d. d\<lparr>send_log := delete_where (\<lambda>x. sl_id x = send_log_id r) (send_log d)\<rparr>)
              (free_slot (res_provider r) w)"
  have "quota_of (db ?w) key = quota_of (db w) key" for key
    by (rule quota_of_db_cong) (simp add: free_slot_def)
  moreover have "0 \<le> quota_of (db w) key" for key using assms by (simp only: quota_nonneg_def)
  ultimately show ?thesis by (auto simp: release_def Let_def bump_if_quota_of)
qed

section \<open>The limiter as a transition system\<close>

text \<open>
  The world together with two histories: the reservations that are still open, and those that
  were committed. A released reservation leaves both. A restart of the process forgets the in-flight
  counts and keeps the charges of the reservations that were open.
\<close>

type_synonym limiter_state = "world \<times> reservation list \<times> reservation list"

inductive limiter_step :: "'e env_scheme \<Rightarrow> settings \<Rightarrow> limiter_state \<Rightarrow> limiter_state \<Rightarrow> bool"
  for e s where
  reserve: "try_reserve e s p w = (Inr (Some r), w') \<Longrightarrow> limiter_step e s (w, os, cs) (w', r # os, cs)"
| refuse: "try_reserve e s p w = (Inr None, w') \<Longrightarrow> limiter_step e s (w, os, cs) (w', os, cs)"
| commit: "r \<in> set os \<Longrightarrow> limiter_step e s (w, os, cs) (commit r w, remove1 r os, r # cs)"
| release: "r \<in> set os \<Longrightarrow> limiter_step e s (w, os, cs) (release e r w, remove1 r os, cs)"
| prune: "limiter_step e s (w, os, cs) (snd (prune e s w), os, cs)"
| wait: "limiter_step e s (w, os, cs) (w\<lparr>tick := Suc (tick w)\<rparr>, os, cs)"
| restart: "limiter_step e s (w, os, cs) (w\<lparr>inflight := (\<lambda>_. 0)\<rparr>, [], os @ cs)"

definition limiter_init :: "limiter_state \<Rightarrow> bool" where
  "limiter_init = (\<lambda>(w, os, cs). os = [] \<and> cs = [] \<and> inflight w = (\<lambda>_. 0) \<and>
     send_log (db w) = [] \<and> quota (db w) = Map.empty)"

text \<open>How many open and committed reservations a period's counter should show.\<close>

definition charged_day :: "string \<Rightarrow> string \<Rightarrow> reservation \<Rightarrow> bool" where
  "charged_day p k r \<longleftrightarrow> res_provider r = p \<and> day_key r = Some k"

definition charged_month :: "string \<Rightarrow> string \<Rightarrow> reservation \<Rightarrow> bool" where
  "charged_month p k r \<longleftrightarrow> res_provider r = p \<and> month_key r = Some k"

definition accounts_ok :: "limiter_state \<Rightarrow> bool" where
  "accounts_ok = (\<lambda>(w, os, cs).
     quota_nonneg w \<and>
     (\<forall>p. inflight w p = count_where (\<lambda>r. res_provider r = p) os) \<and>
     (\<forall>p k. quota_of (db w) (p, k, ''day'') = count_where (charged_day p k) (os @ cs)) \<and>
     (\<forall>p k. quota_of (db w) (p, k, ''month'') = count_where (charged_month p k) (os @ cs)))"

text \<open>No limit of any configured provider is exceeded at the present instant.\<close>

definition within_limits :: "provider_limits \<Rightarrow> string \<Rightarrow> datetime \<Rightarrow> world \<Rightarrow> bool" where
  "within_limits l p now w \<longleftrightarrow>
     (\<forall>m. max_concurrent l = Some m \<longrightarrow> inflight w p \<le> m) \<and>
     (\<forall>window sp lm. (window, sp, lm) \<in> set (sliding_windows l) \<longrightarrow>
        sent_since (db w) p (now - seconds_td sp) \<le> lm) \<and>
     (\<forall>lm k. per_day l = Some lm \<longrightarrow> quota_of (db w) (p, k, ''day'') \<le> lm) \<and>
     (\<forall>lm k. per_month l = Some lm \<longrightarrow> quota_of (db w) (p, k, ''month'') \<le> lm)"

definition limits_ok :: "'e env_scheme \<Rightarrow> settings \<Rightarrow> limiter_state \<Rightarrow> bool" where
  "limits_ok e s = (\<lambda>(w, os, cs).
     \<forall>p cfg. provider s p = Some cfg \<longrightarrow> within_limits (limits cfg) p (clock e (tick w)) w)"

lemma sent_since_mono: "t \<le> t' \<Longrightarrow> sent_since d p t' \<le> sent_since d p t"
  unfolding sent_since_def by (rule count_where_mono) auto

lemma sent_since_append:
  "sent_since (d\<lparr>send_log := send_log d @ [r]\<rparr>) p t =
   sent_since d p t + (if sl_provider r = p \<and> sl_sent_at r \<ge> t then 1 else 0)"
  by (simp add: sent_since_def count_where_append count_where_Cons)

lemma sent_since_cong: "send_log d = send_log d' \<Longrightarrow> sent_since d p t = sent_since d' p t"
  by (simp add: sent_since_def)

lemma sent_since_reserved:
  "sent_since (db (reserved_world e l p w)) q t =
   sent_since (db w) q t + (if q = p \<and> clock e (tick w) \<ge> t then 1 else 0)"
  by (auto simp: sent_since_def reserved_world_send_log count_where_append count_where_Cons)

text \<open>Fewer rows, lower counters, a later clock: limits stay kept.\<close>

lemma within_limits_mono:
  assumes "within_limits l p now w" "now \<le> now'" "inflight w' p \<le> inflight w p"
    "\<And>t. sent_since (db w') p t \<le> sent_since (db w) p t"
    "\<And>k sc. quota_of (db w') (p, k, sc) \<le> quota_of (db w) (p, k, sc)"
  shows "within_limits l p now' w'"
proof -
  have "sent_since (db w') p (now' - seconds_td sp) \<le> sent_since (db w) p (now - seconds_td sp)" for sp
    using assms(4) [of "now' - seconds_td sp"]
      sent_since_mono [of "now - seconds_td sp" "now' - seconds_td sp" "db w" p] assms(2) by linarith
  with assms(1,3,5) show ?thesis unfolding within_limits_def by (meson order_trans)
qed

lemma try_reserve_SomeD:
  assumes "try_reserve e s p w = (Inr (Some r), w')"
  obtains cfg where "provider s p = Some cfg"
    "can_reserve (limits cfg) p (clock e (tick w)) (clock e (Suc (tick w))) w"
    "r = new_reservation (limits cfg) p (clock e (tick w)) w"
    "w' = reserved_world e (limits cfg) p w"
  using assms
  by (cases "provider s p") (auto simp: try_reserve_unknown try_reserve_unfold split: if_splits)

lemma try_reserve_NoneD:
  assumes "try_reserve e s p w = (Inr None, w')"
  shows "w' = w \<or> w' = w\<lparr>tick := Suc (Suc (tick w))\<rparr>"
  using assms
  by (cases "provider s p") (auto simp: try_reserve_unknown try_reserve_unfold split: if_splits)

lemma new_reservation_provider [simp]: "res_provider (new_reservation l p now w) = p"
  by (simp add: new_reservation_def)

lemma accounts_ok_init: "limiter_init st \<Longrightarrow> accounts_ok st"
  by (auto simp: limiter_init_def accounts_ok_def quota_nonneg_def quota_of_def)

lemma accounts_ok_reserve:
  assumes ok: "accounts_ok (w, os, cs)" and r: "try_reserve e s p w = (Inr (Some r), w')"
  shows "accounts_ok (w', r # os, cs)"
proof -
  obtain cfg where "provider s p = Some cfg"
    "can_reserve (limits cfg) p (clock e (tick w)) (clock e (Suc (tick w))) w"
    and R: "r = new_reservation (limits cfg) p (clock e (tick w)) w"
    "w' = reserved_world e (limits cfg) p w" using r by (rule try_reserve_SomeD)
  have nn: "quota_nonneg w" using ok by (simp add: accounts_ok_def)
  note Q = reserved_world_quota [OF nn, of e "limits cfg" p, folded R]
  have "quota_nonneg w'" using nn Q by (simp add: quota_nonneg_def)
  then show ?thesis using ok Q
    by (auto simp: accounts_ok_def R(2) reserved_world_inflight count_where_Cons count_where_append
        charged_day_def charged_month_def R(1))
qed

lemma accounts_ok_commit:
  assumes ok: "accounts_ok (w, os, cs)" and r: "r \<in> set os"
  shows "accounts_ok (commit r w, remove1 r os, r # cs)"
proof -
  have "1 \<le> inflight w (res_provider r)"
    using ok r by (auto simp: accounts_ok_def intro: count_where_pos)
  then show ?thesis using ok r
    by (auto simp: accounts_ok_def commit_inflight count_where_remove1 count_where_append
        count_where_Cons quota_nonneg_def)
qed

lemma accounts_ok_release:
  assumes ok: "accounts_ok (w, os, cs)" and r: "r \<in> set os"
  shows "accounts_ok (release e r w, remove1 r os, cs)"
proof -
  have nn: "quota_nonneg w" using ok by (simp add: accounts_ok_def)
  note Q = release_quota [OF nn, of e r]
  have i: "1 \<le> inflight w (res_provider r)"
    using ok r by (auto simp: accounts_ok_def intro: count_where_pos)
  have d: "1 \<le> quota_of (db w) (res_provider r, k, ''day'')" if "day_key r = Some k" for k
    using ok r that by (auto simp: accounts_ok_def charged_day_def intro!: count_where_pos [of r])
  have m: "1 \<le> quota_of (db w) (res_provider r, k, ''month'')" if "month_key r = Some k" for k
    using ok r that by (auto simp: accounts_ok_def charged_month_def intro!: count_where_pos [of r])
  have "quota_nonneg (release e r w)" using Q by (auto simp: quota_nonneg_def)
  moreover have "inflight (release e r w) p = count_where (\<lambda>r. res_provider r = p) (remove1 r os)" for p
    using ok r i by (auto simp: accounts_ok_def release_inflight count_where_remove1)
  moreover have "quota_of (db (release e r w)) (p, k, ''day'') =
      count_where (charged_day p k) (remove1 r os @ cs)" for p k
    using ok r d [of k] Q [of p k "''day''"]
    by (auto simp: accounts_ok_def count_where_remove1 count_where_append charged_day_def max_def)
  moreover have "quota_of (db (release e r w)) (p, k, ''month'') =
      count_where (charged_month p k) (remove1 r os @ cs)" for p k
    using ok r m [of k] Q [of p k "''month''"]
    by (auto simp: accounts_ok_def count_where_remove1 count_where_append charged_month_def max_def)
  ultimately show ?thesis by (simp add: accounts_ok_def)
qed

lemma prune_fields:
  "inflight (snd (prune e s w)) = inflight w" "quota (db (snd (prune e s w))) = quota (db w)"
  by (simp_all add: prune_def Let_def utcnow_def)

lemma prune_sent_since_le: "sent_since (db (snd (prune e s w))) p t \<le> sent_since (db w) p t"
  by (simp add: prune_def Let_def utcnow_def sent_since_def count_where_delete_le)

lemma accounts_ok_same:
  assumes "accounts_ok (w, os, cs)" "inflight w' = inflight w" "quota (db w') = quota (db w)"
  shows "accounts_ok (w', os, cs)"
  using assms quota_of_db_cong [OF assms(3)] by (simp add: accounts_ok_def quota_nonneg_def)

lemma limits_ok_init:
  assumes "limiter_init st" "valid_settings s"
  shows "limits_ok e s st"
proof -
  have "valid_limits (limits cfg)" if "provider s p = Some cfg" for p cfg
    using provider_SomeD [OF that] valid_settings_provider [OF assms(2)]
    by (simp add: valid_provider_def)
  then show ?thesis using assms(1) sliding_windows_limit_pos
    by (fastforce simp: limiter_init_def limits_ok_def within_limits_def sent_since_def quota_of_def
        valid_limits_def pos_opt_def)
qed

lemma within_limits_reserve:
  assumes "within_limits l p (clock e (tick w)) w" "mono_clock e" "quota_nonneg w"
    "can_reserve l p (clock e (tick w)) (clock e (Suc (tick w))) w"
  shows "within_limits l p (clock e (tick (reserved_world e l p w))) (reserved_world e l p w)"
proof -
  let ?w = "reserved_world e l p w"
  have tk: "Suc (tick w) \<le> tick ?w" using reserved_world_tick [of w e l p] by simp
  have "sent_since (db ?w) p (clock e (tick ?w) - seconds_td sp) \<le> lm"
    if "(window, sp, lm) \<in> set (sliding_windows l)" for window sp lm
  proof -
    have "sent_since (db w) p (clock e (tick ?w) - seconds_td sp)
        \<le> sent_since (db w) p (clock e (Suc (tick w)) - seconds_td sp)"
      using mono_clockD [OF assms(2) tk] by (intro sent_since_mono) simp
    also have "\<dots> < lm" using assms(4) that by (auto simp: can_reserve_def list_all_iff)
    finally show ?thesis by (simp add: sent_since_reserved)
  qed
  moreover have "inflight ?w p \<le> m" if "max_concurrent l = Some m" for m
    using assms(4) that by (simp add: can_reserve_def reserved_world_inflight)
  moreover have "quota_of (db ?w) (p, k, ''day'') \<le> lm" if "per_day l = Some lm" for k lm
    using assms(1,4) that
    by (auto simp: can_reserve_def within_limits_def reserved_world_quota [OF assms(3)] new_reservation_def)
  moreover have "quota_of (db ?w) (p, k, ''month'') \<le> lm" if "per_month l = Some lm" for k lm
    using assms(1,4) that
    by (auto simp: can_reserve_def within_limits_def reserved_world_quota [OF assms(3)] new_reservation_def)
  ultimately show ?thesis by (auto simp: within_limits_def)
qed

lemma limits_ok_reserve:
  assumes ok: "limits_ok e s (w, os, cs)" and m: "mono_clock e" and nn: "quota_nonneg w"
    and r: "try_reserve e s p w = (Inr (Some r), w')"
  shows "limits_ok e s (w', os', cs')"
proof -
  obtain cfg where P: "provider s p = Some cfg"
    and C: "can_reserve (limits cfg) p (clock e (tick w)) (clock e (Suc (tick w))) w"
    and "r = new_reservation (limits cfg) p (clock e (tick w)) w"
    and W: "w' = reserved_world e (limits cfg) p w" using r by (rule try_reserve_SomeD)
  have "within_limits (limits cfg') q (clock e (tick w')) w'" if q: "provider s q = Some cfg'" for q cfg'
  proof (cases "q = p")
    case True
    with q P have "cfg' = cfg" by simp
    then show ?thesis using within_limits_reserve [OF _ m nn C] ok P True
      by (simp add: limits_ok_def W)
  next
    case False
    have "within_limits (limits cfg') q (clock e (tick w)) w" using ok q by (simp add: limits_ok_def)
    moreover have "clock e (tick w) \<le> clock e (tick w')"
      unfolding W using limiter_frame_tick [OF reserved_world_limiter_frame] by (rule mono_clockD [OF m])
    ultimately show ?thesis unfolding W
      by (rule within_limits_mono)
         (simp_all add: False reserved_world_inflight sent_since_reserved reserved_world_quota [OF nn])
  qed
  then show ?thesis by (simp add: limits_ok_def)
qed

lemma limits_ok_shrink:
  assumes ok: "limits_ok e s (w, os, cs)" and m: "mono_clock e" and t: "tick w \<le> tick w'"
    and i: "\<And>p. inflight w' p \<le> inflight w p"
    and c: "\<And>p t. sent_since (db w') p t \<le> sent_since (db w) p t"
    and q: "\<And>p k sc. quota_of (db w') (p, k, sc) \<le> quota_of (db w) (p, k, sc)"
  shows "limits_ok e s (w', os', cs')"
proof -
  have "within_limits (limits cfg) p (clock e (tick w')) w'" if "provider s p = Some cfg" for p cfg
  proof -
    have "within_limits (limits cfg) p (clock e (tick w)) w" using ok that by (simp add: limits_ok_def)
    then show ?thesis using mono_clockD [OF m t] i c q by (rule within_limits_mono)
  qed
  then show ?thesis by (simp add: limits_ok_def)
qed

definition limiter_inv :: "'e env_scheme \<Rightarrow> settings \<Rightarrow> limiter_state \<Rightarrow> bool" where
  "limiter_inv e s st \<longleftrightarrow>
     accounts_ok st \<and> (mono_clock e \<longrightarrow> valid_settings s \<longrightarrow> limits_ok e s st)"

lemma limits_ok_step:
  assumes step: "limiter_step e s st st'" and ok: "accounts_ok st" "limits_ok e s st"
    and m: "mono_clock e"
  shows "limits_ok e s st'"
  using step
proof cases
  case (reserve p w r w' os cs)
  have "limits_ok e s (w, os, cs)" "quota_nonneg w" using ok reserve by (simp_all add: accounts_ok_def)
  with m show ?thesis unfolding reserve(2) using reserve(3) by (blast intro: limits_ok_reserve)
next
  case (refuse p w w' os cs)
  have F: "inflight w' = inflight w" "db w' = db w" "tick w \<le> tick w'"
    using try_reserve_NoneD [OF refuse(3)] by auto
  have "limits_ok e s (w, os, cs)" using ok(2) refuse by simp
  then show ?thesis unfolding refuse(2) by (rule limits_ok_shrink [OF _ m]) (simp_all add: F)
next
  case (commit r os w cs)
  have F: "0 \<le> inflight w p" for p using ok(1) by (simp add: commit accounts_ok_def)
  have "limits_ok e s (w, os, cs)" using ok(2) commit by simp
  then show ?thesis unfolding commit(2)
    by (rule limits_ok_shrink [OF _ m]) (simp_all add: commit_inflight F)
next
  case (release r os w cs)
  have nn: "quota_nonneg w" and i: "0 \<le> inflight w p" for p
    using ok(1) by (simp_all add: release accounts_ok_def)
  have q: "0 \<le> quota_of (db w) k" for k using nn by (simp only: quota_nonneg_def)
  show ?thesis unfolding release(2)
  proof (rule limits_ok_shrink)
    show "limits_ok e s (w, os, cs)" using ok(2) release by simp
    show "tick w \<le> tick (release e r w)" by (rule limiter_frame_tick [OF release_limiter_frame])
    show "inflight (release e r w) p \<le> inflight w p" for p
      by (simp add: release_inflight i)
    show "sent_since (db (release e r w)) p t \<le> sent_since (db w) p t" for p t
      by (simp add: sent_since_def release_send_log count_where_delete_le)
    show "quota_of (db (release e r w)) (p, k, sc) \<le> quota_of (db w) (p, k, sc)" for p k sc
      using q [of "(p, k, sc)"] by (simp add: release_quota [OF nn])
  qed (rule m)
next
  case (prune w os cs)
  have F: "quota_of (db (snd (prune e s w))) k = quota_of (db w) k" for k
    by (rule quota_of_db_cong) (rule prune_fields)
  have "limits_ok e s (w, os, cs)" using ok(2) prune by simp
  then show ?thesis unfolding prune(2)
    by (rule limits_ok_shrink [OF _ m])
       (simp_all add: F prune_fields prune_sent_since_le limiter_frame_tick [OF prune_limiter_frame])
next
  case (wait w os cs)
  have "limits_ok e s (w, os, cs)" using ok(2) wait by simp
  then show ?thesis unfolding wait(2) by (rule limits_ok_shrink [OF _ m]) simp_all
next
  case (restart w os cs)
  have F: "0 \<le> inflight w p" for p using ok(1) by (simp add: restart accounts_ok_def)
  have "limits_ok e s (w, os, cs)" using ok(2) restart by simp
  then show ?thesis unfolding restart(2) by (rule limits_ok_shrink [OF _ m]) (simp_all add: F)
qed

lemma accounts_ok_step: "limiter_step e s st st' \<Longrightarrow> accounts_ok st \<Longrightarrow> accounts_ok st'"
proof (induction rule: limiter_step.induct)
  case (reserve p w r w' os cs)
  then show ?case by (blast intro: accounts_ok_reserve)
next
  case (refuse p w w' os cs)
  then show ?case by (auto dest!: try_reserve_NoneD elim: accounts_ok_same)
next
  case (commit r os w cs)
  then show ?case by (blast intro: accounts_ok_commit)
next
  case (release r os w cs)
  then show ?case by (blast intro: accounts_ok_release)
next
  case (prune w os cs)
  then show ?case by (auto simp: prune_fields elim: accounts_ok_same)
next
  case (wait w os cs)
  then show ?case by (auto elim: accounts_ok_same)
next
  case (restart w os cs)
  then show ?case by (simp add: accounts_ok_def quota_nonneg_def)
qed

interpretation rl_sys: invariant_system limiter_init "limiter_step e s" "limiter_inv e s" for e s
proof
  show "limiter_inv e s st" if "limiter_init st" for st
    using that by (simp add: limiter_inv_def accounts_ok_init limits_ok_init)
  show "limiter_inv e s t" if "limiter_inv e s st" "limiter_step e s st t" for st t
    using that accounts_ok_step [OF that(2)] limits_ok_step [OF that(2)] by (auto simp: limiter_inv_def)
qed

section \<open>Properties\<close>

subsection \<open>Releasing\<close>

text \<open>A reservation released in any state that has the counts the reservation left.\<close>

lemma release_restores:
  assumes "try_reserve e s p w = (Inr (Some r), w')" "quota_nonneg w" "0 \<le> inflight w p"
    and v: "inflight v = inflight w'" "send_log (db v) = send_log (db w')"
      "\<And>key. quota_of (db v) key = quota_of (db w') key"
  shows "inflight (release e r v) = inflight w" "send_log (db (release e r v)) = send_log (db w)"
    "quota_of (db (release e r v)) key = quota_of (db w) key"
proof -
  obtain cfg where "provider s p = Some cfg"
    "can_reserve (limits cfg) p (clock e (tick w)) (clock e (Suc (tick w))) w"
    and R: "r = new_reservation (limits cfg) p (clock e (tick w)) w"
    and W: "w' = reserved_world e (limits cfg) p w" using assms(1) by (rule try_reserve_SomeD)
  note Q = reserved_world_quota [OF assms(2), of e "limits cfg" p]
  have nn: "0 \<le> quota_of (db w) key" for key using assms(2) by (simp only: quota_nonneg_def)
  have "quota_nonneg v" using nn by (simp add: quota_nonneg_def v W Q)
  then show "quota_of (db (release e r v)) key = quota_of (db w) key"
    using nn by (cases key) (auto simp: release_quota v W Q R)
  show "inflight (release e r v) = inflight w"
    using assms(3) by (simp add: release_inflight v W R reserved_world_inflight fun_eq_iff)
  show "send_log (db (release e r v)) = send_log (db w)"
    unfolding release_send_log v W reserved_world_send_log R
    by (rule delete_where_fresh) (auto simp: new_reservation_def dest: next_rowid_fresh [of _ _ sl_id])
qed

text \<open>Releasing a reservation undoes it: after \<open>try_reserve\<close> and \<open>release\<close> the in-flight
  counts, the send ledger and every daily and monthly counter are what they were, and nothing else
  in the system has changed but the time.\<close>

theorem release_undoes_reserve:
  assumes "try_reserve e s p w = (Inr (Some r), w')" "quota_nonneg w" "0 \<le> inflight w p"
  shows "inflight (release e r w') = inflight w \<and> send_log (db (release e r w')) = send_log (db w) \<and>
    (\<forall>key. quota_of (db (release e r w')) key = quota_of (db w) key) \<and> limiter_frame w (release e r w')"
proof -
  have "limiter_frame w w'" using try_reserve_limiter_frame [of w e s p] assms(1) by simp
  then have "limiter_frame w (release e r w')" by (rule limiter_frame_trans [OF _ release_limiter_frame])
  with release_restores [OF assms, of w'] show ?thesis by simp
qed

lemma demo_can_reserve:
  "can_reserve demo_limits ''b'' (clock demo_env 0) (clock demo_env (Suc 0)) init_world"
  by (simp add: can_reserve_def demo_limits_def sliding_windows_def sent_since_def quota_of_def
      init_world_def empty_database_def count_where_def)

lemma demo_reserve:
  "try_reserve demo_env demo_settings ''b'' init_world =
     (Inr (Some (new_reservation demo_limits ''b'' (clock demo_env 0) init_world)),
      reserved_world demo_env demo_limits ''b'' init_world)"
proof -
  have l: "limits demo_b = demo_limits" and t: "tick init_world = 0"
    by (simp_all add: demo_b_def init_world_def)
  show ?thesis using demo_can_reserve
    by (auto simp: try_reserve_unfold [OF demo_provider(2)] l t can_reserve_def split: option.splits)
qed

lemma demo_limiter_init: "limiter_init (init_world, [], [])"
  by (simp add: limiter_init_def init_world_def empty_database_def)

lemma demo_nonneg: "quota_nonneg init_world" "0 \<le> inflight init_world p"
  by (simp_all add: quota_nonneg_def quota_of_def init_world_def empty_database_def)

theorem release_undoes_reserve_witness:
  "\<exists>r w'. try_reserve demo_env demo_settings ''b'' init_world = (Inr (Some r), w') \<and>
     inflight w' ''b'' = 1 \<and> inflight (release demo_env r w') ''b'' = 0 \<and>
     send_log (db (release demo_env r w')) = []"
proof -
  have "inflight (reserved_world demo_env demo_limits ''b'' init_world) ''b'' = 1"
    by (simp add: reserved_world_inflight init_world_def)
  then show ?thesis using release_undoes_reserve [OF demo_reserve demo_nonneg] demo_reserve
    by (auto simp: init_world_def empty_database_def)
qed

subsection \<open>The decision\<close>

text \<open>\<open>try_reserve\<close> raises \<open>KeyError\<close> exactly for a name that is not configured; for a
  configured provider it grants a reservation exactly when the concurrency cap, every sliding
  window, the daily and the monthly counter have room, and a refusal changes nothing but the time.\<close>

theorem try_reserve_decision:
  "case try_reserve e s p w of
     (Inl x, w') \<Rightarrow> provider s p = None \<and> x = KeyError p \<and> w' = w
   | (Inr None, w') \<Rightarrow> (\<exists>cfg n. provider s p = Some cfg \<and> w' = w\<lparr>tick := n\<rparr> \<and>
       \<not> can_reserve (limits cfg) p (clock e (tick w)) (clock e (Suc (tick w))) w)
   | (Inr (Some r), w') \<Rightarrow> (\<exists>cfg. provider s p = Some cfg \<and>
       can_reserve (limits cfg) p (clock e (tick w)) (clock e (Suc (tick w))) w \<and>
       res_provider r = p \<and> inflight w' = (inflight w)(p := inflight w p + 1) \<and>
       (\<exists>row. send_log (db w') = send_log (db w) @ [row] \<and> sl_id row = send_log_id r \<and>
          sl_id row \<notin> sl_id ` set (send_log (db w)) \<and>
          sl_provider row = p \<and> sl_sent_at row = clock e (tick w)))"
proof (cases "provider s p")
  case (Some cfg)
  have t: "\<exists>n. w = w\<lparr>tick := n\<rparr>" by (rule exI [of _ "tick w"]) simp
  show ?thesis
    using t by (auto simp: try_reserve_unfold [OF Some] Some reserved_world_inflight reserved_world_send_log
        new_reservation_def can_reserve_def split: option.splits)
qed (simp add: try_reserve_unknown)

subsection \<open>The read-only check\<close>

lemma room_step_free: "snd (room_step window room acc) = None \<longleftrightarrow> snd acc = None \<and> 0 < room"
  by (cases acc) (auto simp: room_step_def blocking_or_def split: option.splits)

lemma room_fold_free:
  "snd (fold (\<lambda>(window, _, limit). room_step window (limit - f window)) ws acc) = None \<longleftrightarrow>
   snd acc = None \<and> list_all (\<lambda>(window, _, limit). f window < limit) ws"
  by (induction ws arbitrary: acc) (auto simp: room_step_free)

lemma sliding_free_iff:
  "list_all (\<lambda>(window, _, limit). dict_get (fst (sliding_counts e p l w)) window 0 < limit) (sliding_windows l)
   \<longleftrightarrow> list_all (\<lambda>(_, sp, lm). sent_since (db w) p (clock e (tick w) - seconds_td sp) < lm)
        (sliding_windows l)"
  by (auto simp: list_all_iff dict_get_sliding_counts)

lemma check_allowed_iff:
  assumes "provider s p = Some cfg"
  shows "\<exists>c. check e s p w = (Inr c, w\<lparr>tick := Suc (Suc (tick w))\<rparr>) \<and>
    (allowed c \<longleftrightarrow> can_reserve (limits cfg) p (clock e (Suc (tick w))) (clock e (tick w)) w) \<and>
    (allowed c \<longleftrightarrow> blocking_window c = None)"
  using assms sliding_free_iff [of e p "limits cfg" w]
  by (auto simp: check_def Let_def prod.case_eq_if [of _ "sliding_counts e p l v" for l v] utcnow_def
      can_reserve_def room_step_free room_fold_free split: option.splits)

text \<open>Claim C14: the read-only \<open>check\<close> and \<open>try_reserve\<close> agree. When the two clock readings
  each of them takes fall on the same instant, a configured provider is reported as allowed
  exactly when a reservation made in its place would be granted; the check itself changes nothing
  but the time.\<close>

theorem check_agrees_with_reserve:
  assumes "provider s p = Some cfg" "clock e (Suc (tick w)) = clock e (tick w)"
  shows "\<exists>c. check e s p w = (Inr c, w\<lparr>tick := Suc (Suc (tick w))\<rparr>) \<and>
    (allowed c \<longleftrightarrow> (\<exists>r w'. try_reserve e s p w = (Inr (Some r), w')))"
  using check_allowed_iff [OF assms(1), of e w] assms(2)
  by (auto simp: try_reserve_unfold [OF assms(1)] can_reserve_def split: option.splits)

theorem check_agrees_with_reserve_witness:
  "\<exists>c. check (demo_env\<lparr>clock := (\<lambda>_. demo_epoch)\<rparr>) demo_settings ''b'' init_world =
         (Inr c, init_world\<lparr>tick := Suc (Suc (tick init_world))\<rparr>) \<and>
       (allowed c \<longleftrightarrow> (\<exists>r w'. try_reserve (demo_env\<lparr>clock := (\<lambda>_. demo_epoch)\<rparr>) demo_settings ''b''
          init_world = (Inr (Some r), w')))"
  by (rule check_agrees_with_reserve [OF demo_provider(2)]) simp

subsection \<open>Pruning\<close>

lemma widest_window_ge: "cfg \<in> set (providers s) \<Longrightarrow> max_window_span (limits cfg) \<le> widest_window s"
  unfolding widest_window_def by (rule fold_max_upper)

lemma count_where_delete_disjoint:
  "(\<And>r. r \<in> set rows \<Longrightarrow> P r \<Longrightarrow> \<not> Q r) \<Longrightarrow> count_where P (delete_where Q rows) = count_where P rows"
  by (induction rows) (auto simp: delete_where_def count_where_Cons)

text \<open>Claim C15: pruning the ledger is invisible to rate limiting: for every configured window, the
  number of sends the limiter counts at this or any later reading of the clock is the same with the
  pruned ledger as with the full one.\<close>

theorem prune_keeps_counts:
  assumes "mono_clock e" "provider s p = Some cfg" "(window, sp, lm) \<in> set (sliding_windows (limits cfg))"
    and "tick w \<le> n"
  shows "sent_since (db (snd (prune e s w))) p (clock e n - seconds_td sp) =
         sent_since (db w) p (clock e n - seconds_td sp)"
proof -
  have "sp \<le> widest_window s"
    using max_window_span_ge [OF assms(3)] widest_window_ge [of cfg s] provider_SomeD [OF assms(2)] by simp
  then have "clock e (tick w) - seconds_td (widest_window s + 60) \<le> clock e n - seconds_td sp"
    using mono_clockD [OF assms(1,4)] by (simp add: seconds_td_def usec_per_second_def)
  then show ?thesis
    by (auto simp: prune_def Let_def utcnow_def sent_since_def intro!: count_where_delete_disjoint)
qed

theorem prune_keeps_counts_witness:
  "sent_since (db (snd (prune demo_env demo_settings
      (reserved_world demo_env demo_limits ''b'' init_world)))) ''b''
      (clock demo_env 9 - seconds_td 60) = 1"
proof -
  let ?w = "reserved_world demo_env demo_limits ''b'' init_world"
  have "(''per_minute'', 60, 3) \<in> set (sliding_windows (limits demo_b))"
    by (simp add: demo_b_def demo_limits_def sliding_windows_def)
  moreover have "tick ?w \<le> 9"
    by (simp add: reserved_world_def demo_limits_def bump_if_def bump_quota_def add_send_log_def
        utcnow_def Let_def init_world_def)
  ultimately have "sent_since (db (snd (prune demo_env demo_settings ?w))) ''b''
      (clock demo_env 9 - seconds_td 60) = sent_since (db ?w) ''b'' (clock demo_env 9 - seconds_td 60)"
    by (rule prune_keeps_counts [OF demo_env_mono demo_provider(2)])
  moreover have "sent_since (db ?w) ''b'' (clock demo_env 9 - seconds_td 60) = 1"
    by (simp add: sent_since_reserved) (simp add: sent_since_def demo_env_def init_world_def
        empty_database_def count_where_def seconds_td_def usec_per_second_def)
  ultimately show ?thesis by simp
qed

subsection \<open>Reachable states\<close>


lemma demo_reachable:
  "(limiter_step demo_env demo_settings)\<^sup>*\<^sup>* (init_world, [], [])
     (reserved_world demo_env demo_limits ''b'' init_world,
      [new_reservation demo_limits ''b'' (clock demo_env 0) init_world], [])"
  using limiter_step.reserve [OF demo_reserve] by blast


text \<open>Claim C9: the books balance. In every such state the in-flight count of a provider is the
  number of reservations still open for it, and a daily (monthly) counter is exactly the number of
  open and committed reservations charged to that day (month): a released one is not counted, and a
  reservation is never counted twice.\<close>

theorem limiter_accounts_exact:
  assumes "limiter_init st0" "(limiter_step e s)\<^sup>*\<^sup>* st0 (w, os, cs)"
  shows "inflight w p = count_where (\<lambda>r. res_provider r = p) os \<and>
    quota_of (db w) (p, k, ''day'') = count_where (charged_day p k) (os @ cs) \<and>
    quota_of (db w) (p, k, ''month'') = count_where (charged_month p k) (os @ cs)"
  using rl_sys.inv_reachable [OF assms] by (simp add: limiter_inv_def accounts_ok_def)

theorem limiter_accounts_exact_witness:
  "inflight (reserved_world demo_env demo_limits ''b'' init_world) ''b'' = 1 \<and>
   quota_of (db (reserved_world demo_env demo_limits ''b'' init_world)) (''b'', ''2026-08-31'', ''day'') = 1"
proof -
  let ?r = "new_reservation demo_limits ''b'' (clock demo_env 0) init_world"
  have "day_period_key (clock demo_env 0) = ''2026-08-31''" by code_simp
  then have "count_where (\<lambda>r. res_provider r = ''b'') [?r] = 1"
    "count_where (charged_day ''b'' ''2026-08-31'') ([?r] @ []) = 1"
    by (simp_all add: count_where_def charged_day_def new_reservation_def demo_limits_def)
  then show ?thesis
    using limiter_accounts_exact [OF demo_limiter_init demo_reachable, of "''b''" "''2026-08-31''"] by simp
qed

end
