(* ===== verification/Router.thy ===== *)
theory Router
  imports Registry Health Rate_Limiter
begin

text \<open>
  \<open>src/smtp_switch/dispatch/router.py\<close>: the walk over the enabled providers in priority order that
  reserves capacity on the first one that is up and has headroom. The loop is stated once as an
  interface (\<open>candidate_loop\<close>) whose laws the router's loop body discharges.
\<close>

section \<open>Operations\<close>

record route_decision =
  rd_provider :: string
  rd_reservation :: reservation

text \<open>The loop body for a candidate that is not excluded: \<open>None\<close> is \<open>continue\<close>.\<close>

definition try_candidate ::
  "'e env_scheme \<Rightarrow> settings \<Rightarrow> string \<Rightarrow> world \<Rightarrow> (exn + route_decision option) \<times> world" where
  "try_candidate e s name w =
     (let (up, w) = is_available e (circuit_breaker s) name w in
      if \<not> up then (Inr None, w)
      else case try_reserve e s name w of
             (Inl x, w) \<Rightarrow> (Inl x, w)
           | (Inr None, w) \<Rightarrow> (Inr None, w)
           | (Inr (Some r), w) \<Rightarrow>
               (let (granted, w) = begin_probe e (circuit_breaker s) name w in
                if \<not> granted then (Inr None, release e r w)
                else (Inr (Some \<lparr>rd_provider = name, rd_reservation = r\<rparr>), w)))"

definition consider_cfg ::
  "'e env_scheme \<Rightarrow> settings \<Rightarrow> string set \<Rightarrow> provider_config \<Rightarrow> world \<Rightarrow>
   (exn + route_decision option) \<times> world" where
  "consider_cfg e s excl cfg w =
     (if prov_name cfg \<in> excl then (Inr None, w) else try_candidate e s (prov_name cfg) w)"

fun select_from ::
  "'e env_scheme \<Rightarrow> settings \<Rightarrow> string set \<Rightarrow> provider_config list \<Rightarrow> world \<Rightarrow>
   (exn + route_decision option) \<times> world" where
  "select_from e s excl [] w = (Inr None, w)"
| "select_from e s excl (cfg # cfgs) w =
     (case consider_cfg e s excl cfg w of
        (Inl x, w) \<Rightarrow> (Inl x, w)
      | (Inr (Some d), w) \<Rightarrow> (Inr (Some d), w)
      | (Inr None, w) \<Rightarrow> select_from e s excl cfgs w)"

definition select ::
  "'e env_scheme \<Rightarrow> settings \<Rightarrow> string set \<Rightarrow> world \<Rightarrow> (exn + route_decision option) \<times> world" where
  "select e s excl w = select_from e s excl (enabled_providers s w) w"

definition candidate_names :: "settings \<Rightarrow> world \<Rightarrow> string list" where
  "candidate_names s w = map prov_name (enabled_providers s w)"

section \<open>First-fit loops\<close>

text \<open>
  A loop that offers the candidates to \<open>attempt\<close> one after the other until one is taken. A
  candidate that is not taken must leave the state as good as it was (\<open>same\<close>).
\<close>

locale candidate_loop =
  fixes attempt :: "'c \<Rightarrow> 'w \<Rightarrow> ('x + 'd option) \<times> 'w"
    and loop :: "'c list \<Rightarrow> 'w \<Rightarrow> ('x + 'd option) \<times> 'w"
    and same :: "'w \<Rightarrow> 'w \<Rightarrow> bool"
    and known :: "'c \<Rightarrow> bool"
  assumes loop_Nil: "loop [] w = (Inr None, w)"
    and loop_Cons: "loop (c # cs) w =
          (case attempt c w of
             (Inl x, w) \<Rightarrow> (Inl x, w)
           | (Inr (Some d), w) \<Rightarrow> (Inr (Some d), w)
           | (Inr None, w) \<Rightarrow> loop cs w)"
    and same_refl: "same w w"
    and same_trans: "same u v \<Longrightarrow> same v w \<Longrightarrow> same u w"
    and attempt_passed: "known c \<Longrightarrow> attempt c v = (Inr None, w) \<Longrightarrow> same v w"
    and attempt_known: "known c \<Longrightarrow> attempt c v \<noteq> (Inl x, w)"
begin

definition passed :: "'w \<Rightarrow> 'c \<Rightarrow> bool" where
  "passed w c \<longleftrightarrow> (\<exists>v v'. same w v \<and> attempt c v = (Inr None, v'))"

lemma passed_mono: "same w v \<Longrightarrow> passed v c \<Longrightarrow> passed w c"
  unfolding passed_def using same_trans by blast

lemma loop_total: "list_all known cs \<Longrightarrow> loop cs w \<noteq> (Inl x, w')"
proof (induction cs arbitrary: w)
  case (Cons c cs)
  then show ?case
    using attempt_known [of c w] by (auto simp: loop_Cons split: prod.splits sum.splits option.splits)
qed (simp add: loop_Nil)

lemma loop_None:
  "loop cs w = (Inr None, w') \<Longrightarrow> list_all known cs \<Longrightarrow> same w w' \<and> list_all (passed w) cs"
proof (induction cs arbitrary: w)
  case Nil
  then show ?case by (simp add: loop_Nil same_refl)
next
  case (Cons c cs)
  then obtain v where a: "attempt c w = (Inr None, v)" and l: "loop cs v = (Inr None, w')"
    by (auto simp: loop_Cons split: prod.splits sum.splits option.splits)
  from a Cons.prems(2) have sv: "same w v" by (auto intro: attempt_passed)
  from Cons.IH [OF l] Cons.prems(2) have "same v w'" "list_all (passed v) cs" by simp_all
  moreover have "passed w c" using a same_refl by (auto simp: passed_def)
  ultimately show ?case using sv by (auto simp: list_all_iff intro: same_trans passed_mono)
qed

lemma loop_Some:
  "loop cs w = (Inr (Some d), w') \<Longrightarrow> list_all known cs \<Longrightarrow>
   \<exists>pre c post v. cs = pre @ c # post \<and> list_all (passed w) pre \<and> same w v \<and>
     attempt c v = (Inr (Some d), w')"
proof (induction cs arbitrary: w)
  case (Cons c cs)
  consider (taken) "attempt c w = (Inr (Some d), w')"
    | (skipped) v where "attempt c w = (Inr None, v)" "loop cs v = (Inr (Some d), w')"
    using Cons.prems(1) by (auto simp: loop_Cons split: prod.splits sum.splits option.splits)
  then show ?case
  proof cases
    case taken
    then show ?thesis using same_refl by (intro exI [of _ "[]"]) auto
  next
    case skipped
    then have sv: "same w v" using Cons.prems(2) by (auto intro: attempt_passed)
    obtain pre c' post u where "cs = pre @ c' # post" "list_all (passed v) pre" "same v u"
      "attempt c' u = (Inr (Some d), w')"
      using Cons.IH [OF skipped(2)] Cons.prems(2) by auto
    moreover have "passed w c" using skipped(1) same_refl by (auto simp: passed_def)
    ultimately show ?thesis using sv
      by (intro exI [of _ "c # pre"] exI [of _ c'] exI [of _ post] exI [of _ u])
         (auto simp: list_all_iff intro: passed_mono same_trans)
  qed
qed (simp add: loop_Nil)

end

section \<open>What routing leaves alone\<close>

text \<open>\<open>route_frame\<close>: nothing but the clock position, the limiter's and the breaker's own state has
  changed. \<open>view_eq\<close>: nor have the counts and breaker states they decide by. \<open>capacity_ok\<close>: no count is
  negative and the ledger's ids are unique.\<close>

definition route_frame :: "world \<Rightarrow> world \<Rightarrow> bool" where
  "route_frame w w' \<longleftrightarrow>
     tick w \<le> tick w' \<and> overrides w' = overrides w \<and> queue w' = queue w \<and> wakeup w' = wakeup w \<and>
     spool w' = spool w \<and> metrics w' = metrics w \<and> messages (db w') = messages (db w) \<and>
     delivery_attempts (db w') = delivery_attempts (db w) \<and> accounts (db w') = accounts (db w) \<and>
     dashboard_users (db w') = dashboard_users (db w) \<and> override_rows (db w') = override_rows (db w)"

definition view_eq :: "world \<Rightarrow> world \<Rightarrow> bool" where
  "view_eq w w' \<longleftrightarrow>
     route_frame w w' \<and> inflight w' = inflight w \<and> send_log (db w') = send_log (db w) \<and>
     (\<forall>k. quota_of (db w') k = quota_of (db w) k) \<and> (\<forall>p. cb_of w' p = cb_of w p)"

definition capacity_ok :: "world \<Rightarrow> bool" where
  "capacity_ok w \<longleftrightarrow>
     quota_nonneg w \<and> (\<forall>p. 0 \<le> inflight w p) \<and> distinct (map sl_id (send_log (db w)))"

lemma route_frame_refl [simp]: "route_frame w w"
  by (simp add: route_frame_def)

lemma route_frame_trans: "route_frame u v \<Longrightarrow> route_frame v w \<Longrightarrow> route_frame u w"
  by (auto simp: route_frame_def)

lemma limiter_route_frame: "limiter_frame w w' \<Longrightarrow> route_frame w w'"
  by (simp add: limiter_frame_def route_frame_def)

lemma breaker_route_frame: "breaker_frame w w' \<Longrightarrow> route_frame w w'"
  by (simp add: route_frame_def breaker_frame_fields breaker_frame_db breaker_frame_tick)

lemma view_eq_refl [simp]: "view_eq w w"
  by (simp add: view_eq_def)

lemma view_eq_trans: "view_eq u v \<Longrightarrow> view_eq v w \<Longrightarrow> view_eq u w"
  by (auto simp: view_eq_def intro: route_frame_trans)

lemma view_eq_capacity_ok: "view_eq w w' \<Longrightarrow> capacity_ok w' = capacity_ok w"
  by (simp add: view_eq_def capacity_ok_def quota_nonneg_def)

lemma view_eq_can_reserve: "view_eq w w' \<Longrightarrow> can_reserve l p t t' w' = can_reserve l p t t' w"
  by (simp add: view_eq_def can_reserve_def sent_since_def split: option.splits)

lemma limiter_frame_cb: "limiter_frame w w' \<Longrightarrow> cb_of w' p = cb_of w p"
  by (simp add: limiter_frame_def cb_of_def)

lemma tick_view_eq: "tick w \<le> n \<Longrightarrow> view_eq w (w\<lparr>tick := n\<rparr>)"
  by (simp add: view_eq_def route_frame_def)

lemma breaker_frame_view:
  assumes "breaker_frame w w'" "\<And>p. cb_of w' p = cb_of w p"
  shows "view_eq w w'"
  using assms quota_of_db_cong [OF breaker_frame_db(4) [OF assms(1)]]
  by (simp add: view_eq_def breaker_route_frame breaker_frame_fields breaker_frame_db)

lemma is_available_view: "view_eq w (snd (is_available e c p w))"
  by (rule breaker_frame_view [OF is_available_breaker_frame]) simp

lemma begin_probe_refused_view:
  "\<not> fst (begin_probe e c p w) \<Longrightarrow> view_eq w (snd (begin_probe e c p w))"
  by (rule breaker_frame_view [OF begin_probe_breaker_frame])
     (auto simp: begin_probe_fst begin_probe_cb available_at_def probe_at_def
       split: breaker_status.splits if_splits)

section \<open>One candidate\<close>

lemma try_reserve_None_view:
  "try_reserve e s p w = (Inr None, w') \<Longrightarrow> view_eq w w'"
  using try_reserve_NoneD [of e s p w w'] by (auto intro: tick_view_eq)

lemma released_view:
  assumes r: "try_reserve e s p w = (Inr (Some r), w')" and ok: "capacity_ok w" and v: "view_eq w' v"
  shows "view_eq w (release e r v)"
proof -
  have lf: "limiter_frame w w'" using try_reserve_limiter_frame [of w e s p] r by simp
  have "route_frame w' v" using v by (simp add: view_eq_def)
  with limiter_route_frame [OF lf] have "route_frame w v" by (rule route_frame_trans)
  then have "route_frame w (release e r v)"
    by (rule route_frame_trans) (rule limiter_route_frame [OF release_limiter_frame])
  moreover have "cb_of (release e r v) q = cb_of w q" for q
    using v by (simp add: view_eq_def limiter_frame_cb [OF lf] limiter_frame_cb [OF release_limiter_frame])
  ultimately show ?thesis
    using release_restores [OF r, of v] ok v by (auto simp: view_eq_def capacity_ok_def)
qed

text \<open>The whole body, by the three ways it can end.\<close>

lemma try_candidate_cases:
  assumes "try_candidate e s name w = (res, w')"
  obtains (down) "\<not> available_at (circuit_breaker s) (clock e (tick w)) (cb_of w name)" "res = Inr None"
      "w' = snd (is_available e (circuit_breaker s) name w)"
  | (error) x where "res = Inl x" "try_reserve e s name (snd (is_available e (circuit_breaker s) name w)) = (Inl x, w')"
  | (full) "res = Inr None" "try_reserve e s name (snd (is_available e (circuit_breaker s) name w)) = (Inr None, w')"
  | (raced) r v where "res = Inr None" "available_at (circuit_breaker s) (clock e (tick w)) (cb_of w name)"
      "try_reserve e s name (snd (is_available e (circuit_breaker s) name w)) = (Inr (Some r), v)"
      "\<not> fst (begin_probe e (circuit_breaker s) name v)"
      "w' = release e r (snd (begin_probe e (circuit_breaker s) name v))"
  | (taken) r v where "res = Inr (Some \<lparr>rd_provider = name, rd_reservation = r\<rparr>)"
      "available_at (circuit_breaker s) (clock e (tick w)) (cb_of w name)"
      "try_reserve e s name (snd (is_available e (circuit_breaker s) name w)) = (Inr (Some r), v)"
      "fst (begin_probe e (circuit_breaker s) name v)"
      "w' = snd (begin_probe e (circuit_breaker s) name v)"
  using assms is_available_fst [of e "circuit_breaker s" name w]
  by (auto simp: try_candidate_def Let_def split: prod.splits if_splits sum.splits option.splits)

lemma available_at_mono:
  assumes "t \<le> t'" "available_at cfg t st"
  shows "available_at cfg t' st"
  using assms by (auto simp: available_at_def status_at_def split: option.splits if_splits)

text \<open>A candidate is passed over at a clock position: its breaker refuses, or its limits do.\<close>

definition unfit :: "'e env_scheme \<Rightarrow> settings \<Rightarrow> world \<Rightarrow> provider_config \<Rightarrow> nat \<Rightarrow> bool" where
  "unfit e s w cfg n \<longleftrightarrow>
     \<not> available_at (circuit_breaker s) (clock e n) (cb_of w (prov_name cfg)) \<or>
     \<not> can_reserve (limits cfg) (prov_name cfg) (clock e n) (clock e (Suc n)) w"

lemma unfit_view: "view_eq w w' \<Longrightarrow> unfit e s w' cfg n = unfit e s w cfg n"
  by (simp add: unfit_def view_eq_can_reserve) (simp add: view_eq_def)

lemma consider_cfg_passed:
  assumes "consider_cfg e s excl cfg w = (Inr None, w')" "capacity_ok w"
  shows "view_eq w w'"
proof (cases "prov_name cfg \<in> excl")
  case False
  let ?w1 = "snd (is_available e (circuit_breaker s) (prov_name cfg) w)"
  have v1: "view_eq w ?w1" by (rule is_available_view)
  from False assms(1) have "try_candidate e s (prov_name cfg) w = (Inr None, w')"
    by (simp add: consider_cfg_def)
  then show ?thesis
  proof (cases rule: try_candidate_cases)
    case down
    with v1 show ?thesis by simp
  next
    case full
    with v1 show ?thesis by (blast intro: view_eq_trans try_reserve_None_view)
  next
    case (raced r v)
    have "view_eq ?w1 w'" unfolding raced(5)
      using assms(2) view_eq_capacity_ok [OF v1]
      by (intro released_view [OF raced(3)] begin_probe_refused_view raced(4)) simp
    with v1 show ?thesis by (rule view_eq_trans)
  qed simp_all
qed (use assms in \<open>simp add: consider_cfg_def\<close>)

lemma consider_cfg_unfit:
  assumes "consider_cfg e s excl cfg w = (Inr None, w')" "provider s (prov_name cfg) = Some cfg"
    and "mono_clock e"
  shows "prov_name cfg \<in> excl \<or> (\<exists>n\<ge>tick w. unfit e s w cfg n)"
proof (cases "prov_name cfg \<in> excl")
  case False
  let ?w1 = "snd (is_available e (circuit_breaker s) (prov_name cfg) w)"
  have v1: "view_eq w ?w1" by (rule is_available_view)
  have t1: "tick w \<le> tick ?w1" by (rule is_available_tick)
  from False assms(1) have "try_candidate e s (prov_name cfg) w = (Inr None, w')"
    by (simp add: consider_cfg_def)
  then show ?thesis
  proof (cases rule: try_candidate_cases)
    case down
    then show ?thesis by (auto simp: unfit_def)
  next
    case full
    then have "\<not> can_reserve (limits cfg) (prov_name cfg) (clock e (tick ?w1)) (clock e (Suc (tick ?w1))) ?w1"
      by (auto simp: try_reserve_unfold [OF assms(2)] can_reserve_def split: if_splits option.splits)
    then show ?thesis using t1 by (auto simp: unfit_def view_eq_can_reserve [OF v1])
  next
    case (raced r v)
    have lf: "limiter_frame ?w1 v"
      using try_reserve_limiter_frame [of ?w1 e s "prov_name cfg"] raced(3) by simp
    have "tick w \<le> tick v" using limiter_frame_tick [OF lf] t1 by simp
    then have "available_at (circuit_breaker s) (clock e (tick v)) (cb_of w (prov_name cfg))"
      using mono_clockD [OF assms(3)] raced(2) by (blast intro: available_at_mono)
    then show ?thesis using raced(4) by (simp add: begin_probe_fst limiter_frame_cb [OF lf])
  qed simp_all
qed simp

lemma consider_cfg_known:
  "provider s (prov_name cfg) = Some cfg \<Longrightarrow> consider_cfg e s excl cfg w \<noteq> (Inl x, w')"
  by (auto simp: consider_cfg_def try_reserve_unfold elim!: try_candidate_cases split: if_splits)

interpretation router: candidate_loop "consider_cfg e s excl" "select_from e s excl"
  "\<lambda>w w'. capacity_ok w \<longrightarrow> view_eq w w'" "\<lambda>cfg. provider s (prov_name cfg) = Some cfg" for e s excl
proof
  show "capacity_ok u \<longrightarrow> view_eq u w" if "capacity_ok u \<longrightarrow> view_eq u v" "capacity_ok v \<longrightarrow> view_eq v w" for u v w
    using that by (auto intro: view_eq_trans simp: view_eq_capacity_ok)
qed (auto simp: consider_cfg_passed consider_cfg_known)

abbreviation passed_over :: "'e env_scheme \<Rightarrow> settings \<Rightarrow> string set \<Rightarrow> world \<Rightarrow> provider_config \<Rightarrow> bool" where
  "passed_over e s excl \<equiv>
     candidate_loop.passed (consider_cfg e s excl) (\<lambda>w w'. capacity_ok w \<longrightarrow> view_eq w w')"

section \<open>The chosen provider\<close>

text \<open>A candidate is fit at a clock position \<open>n\<close>, its reservation dated at a position \<open>m\<close>.\<close>

definition fit_at :: "'e env_scheme \<Rightarrow> settings \<Rightarrow> world \<Rightarrow> provider_config \<Rightarrow> nat \<Rightarrow> nat \<Rightarrow> bool" where
  "fit_at e s w cfg n m \<longleftrightarrow>
     available_at (circuit_breaker s) (clock e n) (cb_of w (prov_name cfg)) \<and>
     can_reserve (limits cfg) (prov_name cfg) (clock e m) (clock e (Suc m)) w"

lemma fit_view: "view_eq w w' \<Longrightarrow> fit_at e s w' cfg n m = fit_at e s w cfg n m"
  by (simp add: fit_at_def view_eq_can_reserve) (simp add: view_eq_def)

lemma consider_cfg_taken:
  assumes "consider_cfg e s excl cfg w = (Inr (Some d), w')" "provider s (prov_name cfg) = Some cfg"
  shows "rd_provider d = prov_name cfg" "res_provider (rd_reservation d) = prov_name cfg"
    "prov_name cfg \<notin> excl" "inflight w' = (inflight w)(prov_name cfg := inflight w (prov_name cfg) + 1)"
    "route_frame w w'" "\<exists>m\<ge>tick w. fit_at e s w cfg (tick w) m"
proof -
  let ?w1 = "snd (is_available e (circuit_breaker s) (prov_name cfg) w)"
  have v1: "view_eq w ?w1" by (rule is_available_view)
  have "try_candidate e s (prov_name cfg) w = (Inr (Some d), w')" and x: "prov_name cfg \<notin> excl"
    using assms(1) by (auto simp: consider_cfg_def split: if_splits)
  then obtain r v where d: "d = \<lparr>rd_provider = prov_name cfg, rd_reservation = r\<rparr>"
    and av: "available_at (circuit_breaker s) (clock e (tick w)) (cb_of w (prov_name cfg))"
    and r: "try_reserve e s (prov_name cfg) ?w1 = (Inr (Some r), v)"
    and w': "w' = snd (begin_probe e (circuit_breaker s) (prov_name cfg) v)"
    by (cases rule: try_candidate_cases) auto
  have bf: "breaker_frame v w'" unfolding w' by (rule begin_probe_breaker_frame)
  have lf: "limiter_frame ?w1 v"
    using try_reserve_limiter_frame [of ?w1 e s "prov_name cfg"] r by simp
  obtain cfg' where c: "provider s (prov_name cfg) = Some cfg'"
    and cr: "can_reserve (limits cfg') (prov_name cfg) (clock e (tick ?w1)) (clock e (Suc (tick ?w1))) ?w1"
    and rr: "r = new_reservation (limits cfg') (prov_name cfg) (clock e (tick ?w1)) ?w1"
    and vw: "v = reserved_world e (limits cfg') (prov_name cfg) ?w1"
    using r by (rule try_reserve_SomeD)
  from c assms(2) have cc: "cfg' = cfg" by simp
  show "rd_provider d = prov_name cfg" "res_provider (rd_reservation d) = prov_name cfg"
    "prov_name cfg \<notin> excl" by (simp_all add: d rr x)
  show "inflight w' = (inflight w)(prov_name cfg := inflight w (prov_name cfg) + 1)"
    by (simp add: breaker_frame_fields [OF bf] vw reserved_world_inflight frame_simps)
  show "route_frame w w'"
    by (rule route_frame_trans [OF route_frame_trans [OF _ limiter_route_frame [OF lf]]
          breaker_route_frame [OF bf]]) (use v1 in \<open>simp add: view_eq_def\<close>)
  show "\<exists>m\<ge>tick w. fit_at e s w cfg (tick w) m"
    using av cr is_available_tick [of w e "circuit_breaker s" "prov_name cfg"]
    by (auto simp: fit_at_def cc view_eq_can_reserve [OF v1])
qed

lemma enabled_known: "valid_settings s \<Longrightarrow>
  list_all (\<lambda>cfg. provider s (prov_name cfg) = Some cfg) (enabled_providers s w)"
  by (auto simp: list_all_iff enabled_provider_known)

lemma passed_unfit:
  assumes "passed_over e s excl w cfg" "capacity_ok w" "mono_clock e"
    "provider s (prov_name cfg) = Some cfg"
  shows "prov_name cfg \<in> excl \<or> (\<exists>n\<ge>tick w. unfit e s w cfg n)"
proof -
  obtain v v' where v: "view_eq w v" and c: "consider_cfg e s excl cfg v = (Inr None, v')"
    using assms(1,2) by (auto simp: router.passed_def)
  have "tick w \<le> tick v" using v by (simp add: view_eq_def route_frame_def)
  then show ?thesis
    using consider_cfg_unfit [OF c assms(4,3)] by (auto simp: unfit_view [OF v] intro: order_trans)
qed

text \<open>What a caller of \<open>select\<close> may rely on.\<close>

lemma select_SomeD:
  assumes "select e s excl w = (Inr (Some d), w')" "valid_settings s" "capacity_ok w"
  obtains pre cfg post n m where "enabled_providers s w = pre @ cfg # post"
    "list_all (passed_over e s excl w) pre" "rd_provider d = prov_name cfg"
    "res_provider (rd_reservation d) = prov_name cfg" "prov_name cfg \<notin> excl"
    "inflight w' = (inflight w)(prov_name cfg := inflight w (prov_name cfg) + 1)"
    "route_frame w w'" "tick w \<le> n" "tick w \<le> m" "fit_at e s w cfg n m"
    "provider s (prov_name cfg) = Some cfg"
proof -
  note K = enabled_known [OF assms(2), of w]
  obtain pre cfg post v where split: "enabled_providers s w = pre @ cfg # post"
    and pre: "list_all (passed_over e s excl w) pre" and v: "view_eq w v"
    and c: "consider_cfg e s excl cfg v = (Inr (Some d), w')"
    using router.loop_Some [OF assms(1) [unfolded select_def] K] assms(3) by blast
  have k: "provider s (prov_name cfg) = Some cfg" using K by (simp add: split)
  note T = consider_cfg_taken [OF c k]
  have tv: "tick w \<le> tick v" using v by (simp add: view_eq_def route_frame_def)
  obtain m where m: "tick v \<le> m" "fit_at e s w cfg (tick v) m" using T(6) by (auto simp: fit_view [OF v])
  have rf: "route_frame w w'" using v T(5) by (auto simp: view_eq_def intro: route_frame_trans)
  have "inflight w' = (inflight w)(prov_name cfg := inflight w (prov_name cfg) + 1)"
    using T(4) v by (simp add: view_eq_def)
  then show ?thesis using that [OF split pre T(1,2,3) _ rf tv _ m(2) k] tv m(1) by simp
qed

lemma select_NoneD:
  assumes "select e s excl w = (Inr None, w')" "valid_settings s" "capacity_ok w"
  shows "view_eq w w'" "list_all (passed_over e s excl w) (enabled_providers s w)"
  using router.loop_None [OF assms(1) [unfolded select_def] enabled_known [OF assms(2)]] assms(3)
  by simp_all

lemma select_not_Inl: "valid_settings s \<Longrightarrow> select e s excl w \<noteq> (Inl x, w')"
  unfolding select_def by (rule router.loop_total) (rule enabled_known)

lemma find_append_skip: "find P xs = None \<Longrightarrow> find P (xs @ ys) = find P ys"
  by (induction xs) (auto split: if_splits)

lemma init_capacity_ok [simp]: "capacity_ok init_world"
  by (simp add: capacity_ok_def demo_nonneg) (simp add: init_world_def empty_database_def)

lemma demo_select: "map_sum id (map_option rd_provider) (fst (select demo_env demo_settings {''b''} init_world))
    = Inr (Some ''a'')"
  by code_simp

lemma begin_probe_quota: "quota_of (db (snd (begin_probe e c p w))) k = quota_of (db w) k"
  by (rule quota_of_db_cong) (rule breaker_frame_db(4) [OF begin_probe_breaker_frame])

lemma reserve_capacity_ok:
  assumes "try_reserve e s p w = (Inr (Some r), w')" "capacity_ok w"
  shows "capacity_ok w'"
proof -
  obtain cfg where "provider s p = Some cfg"
    "can_reserve (limits cfg) p (clock e (tick w)) (clock e (Suc (tick w))) w"
    "r = new_reservation (limits cfg) p (clock e (tick w)) w"
    and W: "w' = reserved_world e (limits cfg) p w" using assms(1) by (rule try_reserve_SomeD)
  have nn: "quota_nonneg w" and i: "0 \<le> inflight w q" and d: "distinct (map sl_id (send_log (db w)))" for q
    using assms(2) by (simp_all add: capacity_ok_def)
  have "distinct (map sl_id (send_log (db w')))"
    using d next_rowid_notin [of sl_id "send_log (db w)"] by (auto simp: W reserved_world_send_log)
  moreover have "0 \<le> quota_of (db w) k" for k using nn by (simp only: quota_nonneg_def)
  ultimately show ?thesis using i
    by (simp add: capacity_ok_def quota_nonneg_def W reserved_world_quota [OF nn] reserved_world_inflight)
qed

lemma consider_cfg_capacity:
  assumes "consider_cfg e s excl cfg w = (Inr (Some d), w')" "capacity_ok w"
  shows "capacity_ok w'"
proof -
  let ?w1 = "snd (is_available e (circuit_breaker s) (prov_name cfg) w)"
  have "try_candidate e s (prov_name cfg) w = (Inr (Some d), w')"
    using assms(1) by (auto simp: consider_cfg_def split: if_splits)
  then obtain r v where r: "try_reserve e s (prov_name cfg) ?w1 = (Inr (Some r), v)"
    and w': "w' = snd (begin_probe e (circuit_breaker s) (prov_name cfg) v)"
    by (cases rule: try_candidate_cases) auto
  have "capacity_ok ?w1" using assms(2) view_eq_capacity_ok [OF is_available_view] by blast
  then have "capacity_ok v" by (rule reserve_capacity_ok [OF r])
  then show ?thesis
    by (simp add: w' capacity_ok_def quota_nonneg_def begin_probe_quota
        breaker_frame_fields(1) [OF begin_probe_breaker_frame] breaker_frame_db(3) [OF begin_probe_breaker_frame])
qed

lemma select_capacity_ok:
  assumes "select e s excl w = (Inr (Some d), w')" "valid_settings s" "capacity_ok w"
  shows "capacity_ok w'"
  using router.loop_Some [OF assms(1) [unfolded select_def] enabled_known [OF assms(2)]] assms(3)
  by (auto dest: consider_cfg_capacity simp: view_eq_capacity_ok)

lemma select_find:
  assumes "valid_settings s" "capacity_ok w" "\<And>n. clock e n = now"
  shows "\<exists>r w'. select e s excl w = (Inr r, w') \<and>
    map_option rd_provider r =
      map_option prov_name (find (\<lambda>c. prov_name c \<notin> excl \<and>
          available_at (circuit_breaker s) now (cb_of w (prov_name c)) \<and>
          can_reserve (limits c) (prov_name c) now now w) (enabled_providers s w))"
proof -
  let ?P = "\<lambda>c. prov_name c \<notin> excl \<and> available_at (circuit_breaker s) now (cb_of w (prov_name c)) \<and>
          can_reserve (limits c) (prov_name c) now now w"
  have mono: "mono_clock e" by (simp add: mono_clock_def assms(3))
  have nP: "\<not> ?P c" if "passed_over e s excl w c" "c \<in> set (enabled_providers s w)" for c
    using passed_unfit [OF that(1) assms(2) mono] that(2) enabled_known [OF assms(1), of w]
    by (auto simp: unfit_def assms(3) list_all_iff)
  obtain r w' where r: "select e s excl w = (Inr r, w')"
    using select_not_Inl [OF assms(1), of e excl w] by (metis old.prod.exhaust old.sum.exhaust)
  have "map_option rd_provider r = map_option prov_name (find ?P (enabled_providers s w))"
  proof (cases r)
    case None
    with select_NoneD [OF r [unfolded None] assms(1,2)] nP
    have "find ?P (enabled_providers s w) = None" by (auto simp: find_None_iff list_all_iff)
    with None show ?thesis by simp
  next
    case (Some d)
    obtain pre cfg post n m where split: "enabled_providers s w = pre @ cfg # post"
      and pre: "list_all (passed_over e s excl w) pre" and d: "rd_provider d = prov_name cfg"
      "res_provider (rd_reservation d) = prov_name cfg" "prov_name cfg \<notin> excl"
      "inflight w' = (inflight w)(prov_name cfg := inflight w (prov_name cfg) + 1)" "route_frame w w'"
      and fit: "tick w \<le> n" "tick w \<le> m" "fit_at e s w cfg n m" "provider s (prov_name cfg) = Some cfg"
      using r [unfolded Some] assms(1,2) by (rule select_SomeD)
    have "?P cfg" using fit(3) d(3) by (simp add: fit_at_def assms(3))
    moreover have "find ?P pre = None" using pre nP by (auto simp: find_None_iff list_all_iff split)
    ultimately have "find ?P (enabled_providers s w) = Some cfg"
      by (simp add: split find_append_skip)
    with Some d(1) show ?thesis by simp
  qed
  with r show ?thesis by blast
qed

section \<open>Properties\<close>

text \<open>Claim C6: routing honours the priorities. The provider \<open>select\<close> returns is enabled and not
  excluded, its breaker admits requests and all its limits have room; every enabled provider with a
  smaller (priority, name) pair that is not excluded was unfit when it was looked at, its breaker
  open or a limit reached. Exactly one in-flight slot is taken, on the chosen provider, and
  messages, spool, queue and overrides are untouched.\<close>

theorem select_chooses_first_fit:
  assumes "mono_clock e" "valid_settings s" "capacity_ok w" "select e s excl w = (Inr (Some d), w')"
  shows "\<exists>cfg \<in> set (enabled_providers s w). rd_provider d = prov_name cfg \<and> prov_name cfg \<notin> excl \<and>
      res_provider (rd_reservation d) = prov_name cfg \<and>
      (\<exists>n\<ge>tick w. \<exists>m\<ge>tick w. fit_at e s w cfg n m) \<and>
      (\<forall>c \<in> set (enabled_providers s w). prio_key c < prio_key cfg \<longrightarrow> prov_name c \<notin> excl \<longrightarrow>
         (\<exists>n\<ge>tick w. unfit e s w c n)) \<and>
      inflight w' = (inflight w)(prov_name cfg := inflight w (prov_name cfg) + 1) \<and> route_frame w w'"
proof -
  obtain pre cfg post n m where split: "enabled_providers s w = pre @ cfg # post"
    and pre: "list_all (passed_over e s excl w) pre" and d: "rd_provider d = prov_name cfg"
    "res_provider (rd_reservation d) = prov_name cfg" "prov_name cfg \<notin> excl"
    "inflight w' = (inflight w)(prov_name cfg := inflight w (prov_name cfg) + 1)" "route_frame w w'"
    and fit: "tick w \<le> n" "tick w \<le> m" "fit_at e s w cfg n m" "provider s (prov_name cfg) = Some cfg"
    using assms(4,2,3) by (rule select_SomeD)
  have before: "c \<in> set pre" if "c \<in> set (enabled_providers s w)" "prio_key c < prio_key cfg" for c
    using enabled_providers_strict [OF assms(2), of w] that
    by (auto simp: split sorted_wrt_append dest: order.asym)
  have "\<exists>n\<ge>tick w. unfit e s w c n"
    if "c \<in> set (enabled_providers s w)" "prio_key c < prio_key cfg" "prov_name c \<notin> excl" for c
    using passed_unfit [of e s excl w c] pre before [OF that(1,2)] that assms
      enabled_known [OF assms(2), of w] by (auto simp: list_all_iff)
  then show ?thesis using d fit by (intro bexI [of _ cfg]) (auto simp: split)
qed

theorem select_chooses_first_fit_witness:
  "\<exists>d w' n m. select demo_env demo_settings {''b''} init_world = (Inr (Some d), w') \<and>
     rd_provider d = ''a'' \<and> fit_at demo_env demo_settings init_world demo_a n m \<and> inflight w' ''a'' = 1"
proof -
  obtain d w' where d: "select demo_env demo_settings {''b''} init_world = (Inr (Some d), w')" "rd_provider d = ''a''"
    using demo_select
    by (cases "select demo_env demo_settings {''b''} init_world"; cases "fst (select demo_env demo_settings {''b''} init_world)")
       auto
  have "cfg = demo_a" if "cfg \<in> set (enabled_providers demo_settings init_world)" "prov_name cfg = ''a''" for cfg
    using enabled_provider_known [OF demo_settings_valid that(1)] that(2) by simp
  then obtain n m where "fit_at demo_env demo_settings init_world demo_a n m"
    and "inflight w' = (inflight init_world)(''a'' := inflight init_world ''a'' + 1)"
    using select_chooses_first_fit [OF demo_env_mono demo_settings_valid init_capacity_ok d(1)] d(2)
    by metis
  moreover have "inflight init_world ''a'' = 0" by (simp add: init_world_def)
  ultimately show ?thesis using d by auto
qed

text \<open>\<open>select\<close> never raises on a valid configuration, and it gives up only when no enabled
  provider can take the message: each is excluded, or its breaker or its limits refused it. Giving
  up costs nothing: in-flight counts, ledger, counters, breaker states, messages, spool and queue
  are what they were.\<close>

theorem select_gives_up_only_when_all_unfit:
  assumes "mono_clock e" "valid_settings s" "capacity_ok w"
  shows "\<exists>r w'. select e s excl w = (Inr r, w') \<and>
    (r = None \<longrightarrow> view_eq w w' \<and>
       (\<forall>c \<in> set (enabled_providers s w). prov_name c \<in> excl \<or> (\<exists>n\<ge>tick w. unfit e s w c n)))"
proof -
  obtain r w' where r: "select e s excl w = (Inr r, w')"
    using select_not_Inl [OF assms(2), of e excl w] by (metis old.prod.exhaust old.sum.exhaust)
  have "view_eq w w' \<and>
      (\<forall>c \<in> set (enabled_providers s w). prov_name c \<in> excl \<or> (\<exists>n\<ge>tick w. unfit e s w c n))" if "r = None"
    using select_NoneD [OF r [unfolded that] assms(2,3)] passed_unfit [of e s excl w] assms
      enabled_known [OF assms(2), of w] by (auto simp: list_all_iff)
  with r show ?thesis by blast
qed

theorem select_gives_up_only_when_all_unfit_witness:
  "\<exists>w'. select demo_env demo_settings {''a'', ''b''} init_world = (Inr None, w') \<and> view_eq init_world w'"
proof -
  have "fst (select demo_env demo_settings {''a'', ''b''} init_world) = Inr None"
    by (simp add: select_def) code_simp
  then show ?thesis
    using select_gives_up_only_when_all_unfit [OF demo_env_mono demo_settings_valid init_capacity_ok,
        of "{''a'', ''b''}"] by auto
qed

text \<open>Claim C13: at a frozen clock, \<open>select\<close> computes its specification: the first enabled provider
  in priority order that is not excluded, available and within its limits, if there is one.\<close>

theorem select_refines_find:
  assumes "valid_settings s" "capacity_ok w" "\<And>n. clock e n = now"
  shows "\<exists>r w'. select e s excl w = (Inr r, w') \<and>
    map_option rd_provider r =
      map_option prov_name (find (\<lambda>c. prov_name c \<notin> excl \<and>
          available_at (circuit_breaker s) now (cb_of w (prov_name c)) \<and>
          can_reserve (limits c) (prov_name c) now now w) (enabled_providers s w))"
  using assms by (rule select_find)

theorem select_refines_find_witness:
  "\<exists>r w'. select (demo_env\<lparr>clock := (\<lambda>_. demo_epoch)\<rparr>) demo_settings {''b''} init_world = (Inr r, w') \<and>
     map_option rd_provider r = Some ''a''"
proof -
  have "map_option prov_name (find (\<lambda>c. prov_name c \<notin> {''b''} \<and>
          available_at (circuit_breaker demo_settings) demo_epoch (cb_of init_world (prov_name c)) \<and>
          can_reserve (limits c) (prov_name c) demo_epoch demo_epoch init_world)
          (enabled_providers demo_settings init_world)) = Some ''a''"
    by code_simp
  then show ?thesis
    using select_refines_find [OF demo_settings_valid init_capacity_ok,
        of "demo_env\<lparr>clock := (\<lambda>_. demo_epoch)\<rparr>" demo_epoch "{''b''}"] by auto
qed

end
