(* ===== verification/Sender.thy ===== *)
theory Sender
  imports World
begin

text \<open>
  \<open>src/smtp_switch/dispatch/sender.py\<close>: one message handed to one provider. \<open>aiosmtplib.send\<close> is
  not part of the program: it is the field \<open>smtp_send\<close> of the environment, a function of the
  arguments of the call (and of the number of the clock reading it falls on, since two calls with
  the same arguments may end differently). It returns, or raises an exception that is an instance
  of some of the classes the \<open>except\<close> clauses name.
\<close>

section \<open>The calls of the SMTP client library\<close>

datatype smtp_class =
    SMTPException | SMTPConnectError | SMTPConnectTimeoutError | SMTPServerDisconnected
  | SMTPTimeoutError | SMTPAuthenticationError | SMTPRecipientsRefused | SMTPResponseException

record recipient_refused =
  rr_recipient :: string
  rr_code :: int
  rr_message :: string

text \<open>An exception: the classes it is an instance of, \<open>str(exc)\<close>, and the attributes \<open>code\<close> and
  \<open>recipients\<close> of the classes that have them.\<close>

record smtp_exception =
  exc_classes :: "smtp_class list"
  exc_str :: string
  exc_code :: int
  exc_recipients :: "recipient_refused list"

record smtp_response =
  resp_code :: int
  resp_message :: string
  resp_str :: string

datatype send_outcome =
    Returned "(string \<times> smtp_response) list" string
  | Raised smtp_exception

record send_kwargs =
  kw_hostname :: string
  kw_port :: int
  kw_timeout :: int
  kw_validate_certs :: bool
  kw_use_tls :: "bool option"
  kw_start_tls :: "bool option"
  kw_username :: "string option"
  kw_password :: "string option"

record relay_env = env +
  smtp_send :: "nat \<Rightarrow> send_kwargs \<Rightarrow> string \<Rightarrow> string list \<Rightarrow> string \<Rightarrow> send_outcome"

section \<open>Operations\<close>

record relay_result =
  classification :: classification
  res_code :: "int option"
  detail :: string
  reached_provider :: bool
  refused_recipients :: "(string \<times> string) list option"

definition relay_ok :: "relay_result \<Rightarrow> bool" where
  "relay_ok r \<longleftrightarrow> classification r = Sent"

definition classify_code :: "int option \<Rightarrow> classification" where
  "classify_code code =
     (case code of
        None \<Rightarrow> Transient
      | Some c \<Rightarrow> if 200 \<le> c \<and> c < 300 then Sent
                  else if 400 \<le> c \<and> c < 500 then Transient
                  else Permanent)"

text \<open>\<open>f"{code} {text}".strip()\<close>\<close>

definition int_str :: "int \<Rightarrow> string" where
  "int_str n = (if n < 0 then CHR ''-'' # dec (nat (- n)) else dec (nat n))"

definition code_text :: "int \<Rightarrow> string \<Rightarrow> string" where
  "code_text code txt = strip (int_str code @ '' '' @ txt)"

definition format_refused :: "(string \<times> smtp_response) list \<Rightarrow> (string \<times> string) list" where
  "format_refused mapping =
     fold (\<lambda>(addr, resp) out.
             let txt = (if resp_message resp = [] then resp_str resp else resp_message resp)
             in AList.update addr (code_text (resp_code resp) txt) out) mapping []"

definition relay_kwargs :: "provider_smtp \<Rightarrow> send_kwargs" where
  "relay_kwargs c =
     (let login = (case username c of None \<Rightarrow> False | Some u \<Rightarrow> u \<noteq> [])
      in \<lparr>kw_hostname = smtp_host c, kw_port = smtp_port c, kw_timeout = timeout_seconds c,
          kw_validate_certs = verify_cert c,
          kw_use_tls = (if implicit_tls c then Some True else None),
          kw_start_tls = (if implicit_tls c then None else Some (starttls c)),
          kw_username = (if login then username c else None),
          kw_password = (if login then Some (str_or_empty (password c)) else None)\<rparr>)"

definition isinst :: "smtp_exception \<Rightarrow> smtp_class list \<Rightarrow> bool" where
  "isinst x cs \<longleftrightarrow> list_ex (\<lambda>c. c \<in> set (exc_classes x)) cs"

definition refused_map :: "recipient_refused list \<Rightarrow> (string \<times> string) list" where
  "refused_map rs = map (\<lambda>(k, r). (k, code_text (rr_code r) (rr_message r))) (dict_by rr_recipient rs)"

text \<open>The \<open>except\<close> clauses in their order; an exception none of them names leaves \<open>relay\<close>.\<close>

definition handle_raised :: "smtp_exception \<Rightarrow> exn + relay_result" where
  "handle_raised x =
     (if isinst x [SMTPConnectError, SMTPConnectTimeoutError, SMTPServerDisconnected] then
        Inr \<lparr>classification = Connect_error, res_code = None, detail = exc_str x,
             reached_provider = False, refused_recipients = None\<rparr>
      else if isinst x [SMTPTimeoutError] then
        Inr \<lparr>classification = Transient, res_code = None, detail = exc_str x,
             reached_provider = True, refused_recipients = None\<rparr>
      else if isinst x [SMTPAuthenticationError] then
        Inr \<lparr>classification = Transient, res_code = Some (exc_code x), detail = exc_str x,
             reached_provider = True, refused_recipients = None\<rparr>
      else if isinst x [SMTPRecipientsRefused] then
        (let codes = map rr_code (exc_recipients x);
             worst = (if codes = [] then 550 else Max (set codes))
         in Inr \<lparr>classification = classify_code (Some worst), res_code = Some worst,
                 detail = ''all recipients refused'', reached_provider = True,
                 refused_recipients = Some (refused_map (exc_recipients x))\<rparr>)
      else if isinst x [SMTPResponseException] then
        Inr \<lparr>classification = classify_code (Some (exc_code x)), res_code = Some (exc_code x),
             detail = exc_str x, reached_provider = True, refused_recipients = None\<rparr>
      else if isinst x [SMTPException] then
        Inr \<lparr>classification = Transient, res_code = None, detail = exc_str x,
             reached_provider = True, refused_recipients = None\<rparr>
      else Inl (Unexpected (exc_str x)))"

definition relay ::
  "'e relay_env_scheme \<Rightarrow> provider_config option \<Rightarrow> string \<Rightarrow> string list \<Rightarrow> string \<Rightarrow> world \<Rightarrow>
   exn + relay_result" where
  "relay e prov mail_from rcpt_tos raw w =
     (case prov of
        None \<Rightarrow> Inl (AttributeError ''smtp'')
      | Some cfg \<Rightarrow>
          (case smtp_send e (tick w) (relay_kwargs (smtp cfg)) mail_from rcpt_tos raw of
             Raised x \<Rightarrow> handle_raised x
           | Returned errors response \<Rightarrow>
               Inr \<lparr>classification = Sent, res_code = Some 250, detail = take 500 response,
                    reached_provider = True,
                    refused_recipients = (if errors = [] then None else Some (format_refused errors))\<rparr>))"

section \<open>Properties\<close>

lemma handle_raised_cases:
  "handle_raised x = Inr r \<Longrightarrow>
   (reached_provider r \<longleftrightarrow> classification r \<noteq> Connect_error) \<and>
   (classification r = Connect_error \<longleftrightarrow>
      isinst x [SMTPConnectError, SMTPConnectTimeoutError, SMTPServerDisconnected])"
  by (auto simp: handle_raised_def classify_code_def Let_def split: if_splits)

definition send_call ::
  "'e relay_env_scheme \<Rightarrow> provider_config \<Rightarrow> string \<Rightarrow> string list \<Rightarrow> string \<Rightarrow> world \<Rightarrow> send_outcome" where
  "send_call e cfg mail_from rcpt_tos raw w =
     smtp_send e (tick w) (relay_kwargs (smtp cfg)) mail_from rcpt_tos raw"

lemma handle_raised_total: "SMTPException \<in> set (exc_classes x) \<Longrightarrow> \<exists>r. handle_raised x = Inr r"
  by (auto simp: handle_raised_def Let_def isinst_def)

lemma relay_send_call:
  "relay e (Some cfg) f t raw w =
     (case send_call e cfg f t raw w of
        Raised x \<Rightarrow> handle_raised x
      | Returned errors response \<Rightarrow>
          Inr \<lparr>classification = Sent, res_code = Some 250, detail = take 500 response,
               reached_provider = True,
               refused_recipients = (if errors = [] then None else Some (format_refused errors))\<rparr>)"
  by (simp add: relay_def send_call_def)

text \<open>An outcome is classified as a connection error exactly when the call failed to
  connect or the server hung up, and exactly then the provider counts as not reached, which is what
  lets the worker hand the reservation back. A call that ends in any exception derived from
  \<open>SMTPException\<close> gives a result, and only other exceptions leave \<open>relay\<close>.\<close>

theorem relay_reached_iff_not_connect_error:
  "case relay e (Some cfg) f t raw w of
     Inl x \<Rightarrow> \<exists>exc. send_call e cfg f t raw w = Raised exc \<and> SMTPException \<notin> set (exc_classes exc) \<and>
                   x = Unexpected (exc_str exc)
   | Inr r \<Rightarrow> (reached_provider r \<longleftrightarrow> classification r \<noteq> Connect_error) \<and>
       (classification r = Connect_error \<longleftrightarrow>
          (\<exists>exc. send_call e cfg f t raw w = Raised exc \<and>
             isinst exc [SMTPConnectError, SMTPConnectTimeoutError, SMTPServerDisconnected]))"
proof (cases "send_call e cfg f t raw w")
  case (Raised x)
  show ?thesis
  proof (cases "handle_raised x")
    case (Inl y)
    then have "y = Unexpected (exc_str x)"
      by (simp add: handle_raised_def Let_def split: if_splits)
    then show ?thesis using Inl Raised handle_raised_total [of x] by (auto simp: relay_send_call)
  next
    case (Inr r)
    then show ?thesis using Raised handle_raised_cases [OF Inr] by (simp add: relay_send_call)
  qed
qed (simp add: relay_send_call)

text \<open>A message is classified as permanently refused only on an answer of the provider to
  the message itself: an error reply, or the refusal of all recipients, with a code that is neither
  a 2xx nor a 4xx. A connection failure, a timeout, a failed login and any other error of the
  conversation are never permanent.\<close>

theorem relay_permanent_only_on_rejection:
  assumes "relay e (Some cfg) f t raw w = Inr r" "classification r = Permanent"
  shows "\<exists>exc code. send_call e cfg f t raw w = Raised exc \<and>
    isinst exc [SMTPRecipientsRefused, SMTPResponseException] \<and>
    \<not> isinst exc [SMTPConnectError, SMTPConnectTimeoutError, SMTPServerDisconnected, SMTPTimeoutError,
        SMTPAuthenticationError] \<and>
    res_code r = Some code \<and> \<not> (200 \<le> code \<and> code < 300) \<and> \<not> (400 \<le> code \<and> code < 500)"
proof (cases "send_call e cfg f t raw w")
  case (Raised x)
  then have "handle_raised x = Inr r" using assms(1) by (simp add: relay_send_call)
  then have "isinst x [SMTPRecipientsRefused, SMTPResponseException] \<and>
    \<not> isinst x [SMTPConnectError, SMTPConnectTimeoutError, SMTPServerDisconnected, SMTPTimeoutError,
        SMTPAuthenticationError] \<and>
    (\<exists>code. res_code r = Some code \<and> \<not> (200 \<le> code \<and> code < 300) \<and> \<not> (400 \<le> code \<and> code < 500))"
    using assms(2) by (auto simp: handle_raised_def classify_code_def isinst_def Let_def split: if_splits)
  with Raised show ?thesis by blast
next
  case (Returned errs resp)
  then show ?thesis using assms by (auto simp: relay_send_call)
qed

definition demo_exc :: "smtp_class list \<Rightarrow> int \<Rightarrow> smtp_exception" where
  "demo_exc cls code = \<lparr>exc_classes = cls, exc_str = ''error'', exc_code = code, exc_recipients = []\<rparr>"

definition demo_relay_env ::
  "(nat \<Rightarrow> send_kwargs \<Rightarrow> string \<Rightarrow> string list \<Rightarrow> string \<Rightarrow> send_outcome) \<Rightarrow> relay_env" where
  "demo_relay_env f = \<lparr>clock = (\<lambda>n. demo_epoch + int n * 1000000), rand = (\<lambda>_. 1/2), smtp_send = f\<rparr>"

theorem relay_permanent_only_on_rejection_witness:
  "\<exists>r. relay (demo_relay_env (\<lambda>_ _ _ _ _. Raised (demo_exc [SMTPException, SMTPResponseException] 550)))
         (Some demo_a) ''x'' [''y''] ''m'' init_world = Inr r \<and> res_code r = Some 550 \<and>
       classification r = Permanent"
proof -
  let ?e = "demo_relay_env (\<lambda>_ _ _ _ _. Raised (demo_exc [SMTPException, SMTPResponseException] 550))"
  obtain r where r: "relay ?e (Some demo_a) ''x'' [''y''] ''m'' init_world = Inr r"
    "classification r = Permanent" "res_code r = Some 550"
    by (simp add: relay_def demo_relay_env_def demo_exc_def handle_raised_def isinst_def classify_code_def)
  show ?thesis using relay_permanent_only_on_rejection [OF r(1,2)] r by auto
qed

text \<open>A connection uses implicit TLS or \<open>STARTTLS\<close> or neither, never both, as configured,
  and credentials are sent exactly when a non-empty user name is configured.\<close>

theorem relay_connection_options:
  assumes "valid_smtp c"
  shows "(kw_use_tls (relay_kwargs c) = Some True \<longleftrightarrow> implicit_tls c) \<and>
    (kw_start_tls (relay_kwargs c) = Some True \<longleftrightarrow> starttls c) \<and>
    \<not> (kw_use_tls (relay_kwargs c) = Some True \<and> kw_start_tls (relay_kwargs c) = Some True) \<and>
    (kw_username (relay_kwargs c) \<noteq> None \<longleftrightarrow> username c \<noteq> None \<and> username c \<noteq> Some []) \<and>
    (kw_username (relay_kwargs c) \<noteq> None \<longleftrightarrow> kw_password (relay_kwargs c) \<noteq> None)"
  using assms
  by (auto simp: relay_kwargs_def Let_def valid_smtp_def check_tls_mode_def split: option.splits if_splits)

theorem relay_connection_options_witness:
  "kw_start_tls (relay_kwargs (demo_smtp\<lparr>starttls := True\<rparr>)) = Some True \<and>
   kw_use_tls (relay_kwargs (demo_smtp\<lparr>starttls := True\<rparr>)) \<noteq> Some True"
proof -
  have "valid_smtp (demo_smtp\<lparr>starttls := True\<rparr>)"
    by (simp add: valid_smtp_def demo_smtp_def check_tls_mode_def)
  then show ?thesis using relay_connection_options by (simp add: demo_smtp_def)
qed

text \<open>An error reply with a 2xx code counts as a delivery. When the library raises a
  response error (for example because \<open>DATA\<close> was answered with 250 instead of 354) that is no
  connection, timeout or login error, and the code is in the 200s, \<open>relay\<close> reports the message as
  sent.\<close>

theorem relay_2xx_error_counts_as_sent:
  assumes "send_call e cfg f t raw w = Raised exc" "isinst exc [SMTPResponseException]"
    and "\<not> isinst exc [SMTPConnectError, SMTPConnectTimeoutError, SMTPServerDisconnected, SMTPTimeoutError,
        SMTPAuthenticationError, SMTPRecipientsRefused]"
    and "200 \<le> exc_code exc" "exc_code exc < 300"
  shows "\<exists>r. relay e (Some cfg) f t raw w = Inr r \<and> relay_ok r"
  using assms by (simp add: relay_send_call handle_raised_def isinst_def classify_code_def relay_ok_def)

theorem relay_2xx_error_counts_as_sent_witness:
  "\<exists>r. relay (demo_relay_env (\<lambda>_ _ _ _ _. Raised (demo_exc [SMTPException, SMTPResponseException] 250)))
         (Some demo_a) ''x'' [''y''] ''m'' init_world = Inr r \<and> relay_ok r"
  by (rule relay_2xx_error_counts_as_sent
        [where exc = "demo_exc [SMTPException, SMTPResponseException] 250"])
     (simp_all add: send_call_def demo_relay_env_def demo_exc_def isinst_def)

end
