(* ===== verification/Message_Store.thy ===== *)
theory Message_Store
  imports Router Sender
begin

text \<open>
  The database and spool operations of the dispatcher (\<open>src/smtp_switch/dispatch/worker.py\<close>): the
  claim of a batch, the recovery of orphans, the writes that end an attempt or a tick, and the
  retention sweep; with \<open>SpoolWriter.read\<close> and \<open>SpoolWriter.delete\<close> of \<open>ingress/server.py\<close>. A
  session block is one transaction, so each write is one state transformer; SQLite checks foreign
  keys (\<open>db/session.py\<close>).
\<close>

section \<open>Operations\<close>

definition spool_read :: "string \<Rightarrow> world \<Rightarrow> exn + string" where
  "spool_read path w =
     (case spool w path of None \<Rightarrow> Inl (FileNotFoundError path) | Some raw \<Rightarrow> Inr raw)"

definition spool_delete :: "string \<Rightarrow> world \<Rightarrow> world" where
  "spool_delete path w = w\<lparr>spool := (spool w)(path := None)\<rparr>"

abbreviation update_messages :: "(message \<Rightarrow> bool) \<Rightarrow> (message \<Rightarrow> message) \<Rightarrow> world \<Rightarrow> world" where
  "update_messages P f \<equiv> upd_db (\<lambda>d. d\<lparr>messages := update_where P f (messages d)\<rparr>)"

definition is_terminal :: "message_status \<Rightarrow> bool" where
  "is_terminal st \<longleftrightarrow> st = SENT \<or> st = DEADLETTER"

definition recover_orphans :: "world \<Rightarrow> int \<times> world" where
  "recover_orphans w =
     (count_where (\<lambda>m. status m = SENDING) (messages (db w)),
      update_messages (\<lambda>m. status m = SENDING) (\<lambda>m. m\<lparr>status := QUEUED, claimed_at := None\<rparr>) w)"

text \<open>\<open>_claim_batch\<close>: due messages in the order \<open>(next_attempt_at, id)\<close>.\<close>

definition due_ids :: "datetime \<Rightarrow> int \<Rightarrow> message list \<Rightarrow> int list" where
  "due_ids now limit rows =
     map msg_id (take (nat limit)
       (sort_key (\<lambda>m. (next_attempt_at m, msg_id m))
         (select_where (\<lambda>m. status m = QUEUED \<and> next_attempt_at m \<le> now) rows)))"

definition claim_batch :: "'e env_scheme \<Rightarrow> int \<Rightarrow> world \<Rightarrow> int list \<times> world" where
  "claim_batch e limit w =
     (let (now, w) = utcnow e w; ids = due_ids now limit (messages (db w)) in
      if ids = [] then ([], w)
      else (ids, update_messages (\<lambda>m. msg_id m \<in> set ids)
                   (\<lambda>m. m\<lparr>status := SENDING, claimed_at := Some now\<rparr>) w))"

definition requeue_now :: "int \<Rightarrow> world \<Rightarrow> world" where
  "requeue_now mid =
     update_messages (\<lambda>m. msg_id m = mid \<and> status m = SENDING) (\<lambda>m. m\<lparr>status := QUEUED\<rparr>)"

text \<open>\<open>_record_attempt\<close>: the insert fails when the message row is gone.\<close>

definition record_attempt ::
  "'e env_scheme \<Rightarrow> int \<Rightarrow> int \<Rightarrow> string \<Rightarrow> datetime \<Rightarrow> relay_result \<Rightarrow> world \<Rightarrow> (exn + unit) \<times> world" where
  "record_attempt e mid no p started r w =
     (let (now, w) = utcnow e w;
          row = \<lparr>att_id = next_rowid att_id (delivery_attempts (db w)), att_message_id = mid,
                 attempt_no = no, att_provider = Some p, started_at = started,
                 finished_at = Some now, att_result = classification r, smtp_code = res_code r,
                 att_error = Some (detail r)\<rparr>
      in if mid \<notin> msg_id ` set (messages (db w)) then (Inl (IntegrityError ''delivery_attempts''), w)
         else (Inr (), upd_db (\<lambda>d. d\<lparr>delivery_attempts := delivery_attempts d @ [row]\<rparr>) w))"

definition mark_sent :: "'e env_scheme \<Rightarrow> int \<Rightarrow> string \<Rightarrow> world \<Rightarrow> world" where
  "mark_sent e mid p w =
     (let (now, w) = utcnow e w
      in update_messages (\<lambda>m. msg_id m = mid)
           (\<lambda>m. m\<lparr>status := SENT, provider_used := Some p, sent_at := Some now, last_error := None\<rparr>) w)"

definition reschedule ::
  "'e env_scheme \<Rightarrow> int \<Rightarrow> rat \<Rightarrow> string option \<Rightarrow> bool \<Rightarrow> world \<Rightarrow> world" where
  "reschedule e mid delay err bump_attempts w =
     (let (now, w) = utcnow e w
      in update_messages (\<lambda>m. msg_id m = mid)
           (\<lambda>m. m\<lparr>status := QUEUED, next_attempt_at := now + timedelta_seconds delay,
                  last_error := none_if_empty (take 2000 (str_or_empty err)), claimed_at := None,
                  attempts := (if bump_attempts then attempts m + 1 else attempts m)\<rparr>) w)"

definition deadletter :: "int \<Rightarrow> string \<Rightarrow> string option \<Rightarrow> world \<Rightarrow> world" where
  "deadletter mid reason dt w =
     (let w = update_messages (\<lambda>m. msg_id m = mid)
                (\<lambda>m. m\<lparr>status := DEADLETTER,
                       last_error := Some (take 2000 (strip (''['' @ reason @ ''] '' @ str_or_empty dt))),
                       claimed_at := None\<rparr>) w
      in w\<lparr>metrics := (metrics w)\<lparr>messages_deadlettered :=
              bump_label (messages_deadlettered (metrics w)) reason\<rparr>\<rparr>)"

text \<open>
  \<open>_retention_sweep\<close>: without an \<open>ORDER BY\<close>, the order in which the database returns the rows of a
  query is its own; it is the parameter \<open>scan\<close>, some permutation of the table.
\<close>

definition sweep_plans :: "settings \<Rightarrow> datetime \<Rightarrow> (message_status \<times> datetime) list" where
  "sweep_plans s now =
     (let d = dispatch s in
      (if sent_retention_hours d \<noteq> 0 then [(SENT, now - hours_td (sent_retention_hours d))] else []) @
      (if deadletter_retention_hours d \<noteq> 0
       then [(DEADLETTER, now - hours_td (deadletter_retention_hours d))] else []))"

definition sweep_rows ::
  "(message list \<Rightarrow> message list) \<Rightarrow> message_status \<Rightarrow> datetime \<Rightarrow> message list \<Rightarrow> message list" where
  "sweep_rows scan st cutoff rows =
     take 500 (select_where (\<lambda>m. status m = st \<and> received_at m < cutoff) (scan rows))"

definition sweep_one ::
  "(message list \<Rightarrow> message list) \<Rightarrow> message_status \<times> datetime \<Rightarrow> int \<times> world \<Rightarrow> int \<times> world" where
  "sweep_one scan = (\<lambda>(st, cutoff) (deleted, w).
     (let rows = sweep_rows scan st cutoff (messages (db w)); ids = map msg_id rows in
      if rows = [] then (deleted, w)
      else let w = upd_db (\<lambda>d. d\<lparr>delivery_attempts :=
                     delete_where (\<lambda>a. att_message_id a \<in> set ids) (delivery_attempts d)\<rparr>) w;
               w = upd_db (\<lambda>d. d\<lparr>messages := delete_where (\<lambda>m. msg_id m \<in> set ids) (messages d)\<rparr>) w;
               w = fold (\<lambda>m. spool_delete (spool_path m)) rows w
           in (deleted + int (length ids), w)))"

definition retention_sweep ::
  "'e env_scheme \<Rightarrow> settings \<Rightarrow> (message list \<Rightarrow> message list) \<Rightarrow> world \<Rightarrow> int \<times> world" where
  "retention_sweep e s scan w =
     (let (now, w) = utcnow e w in fold (sweep_one scan) (sweep_plans s now) (0, w))"

section \<open>Writes of one row\<close>

definition msg_of :: "world \<Rightarrow> int \<Rightarrow> message option" where
  "msg_of w mid = get_by msg_id mid (messages (db w))"

text \<open>What the client submitted, which no write of the dispatcher may change.\<close>

definition payload ::
  "message \<Rightarrow> int \<times> datetime \<times> string option \<times> string \<times> string list \<times> string option \<times> string option \<times> int \<times> string" where
  "payload m = (msg_id m, received_at m, submitting_account m, from_addr m, rcpt_to m, subject m, message_id_header m,
     msg_size m, spool_path m)"

text \<open>Nothing but the clock position, the message table and the counters has changed.\<close>

definition store_frame :: "world \<Rightarrow> world \<Rightarrow> bool" where
  "store_frame w w' \<longleftrightarrow>
     tick w \<le> tick w' \<and> inflight w' = inflight w \<and> states w' = states w \<and>
     overrides w' = overrides w \<and> queue w' = queue w \<and> wakeup w' = wakeup w \<and> spool w' = spool w \<and>
     db w' = (db w)\<lparr>messages := messages (db w')\<rparr>"

lemma store_frame_db:
  assumes "store_frame w w'"
  shows "delivery_attempts (db w') = delivery_attempts (db w)" "send_log (db w') = send_log (db w)"
    "quota (db w') = quota (db w)" "state_rows (db w') = state_rows (db w)"
    "override_rows (db w') = override_rows (db w)" "accounts (db w') = accounts (db w)"
proof -
  have d: "db w' = (db w)\<lparr>messages := messages (db w')\<rparr>" using assms by (simp only: store_frame_def)
  show "delivery_attempts (db w') = delivery_attempts (db w)" "send_log (db w') = send_log (db w)"
    "quota (db w') = quota (db w)" "state_rows (db w') = state_rows (db w)"
    "override_rows (db w') = override_rows (db w)" "accounts (db w') = accounts (db w)" by (subst d, simp)+
qed

lemma store_frame_fields:
  assumes "store_frame w w'"
  shows "inflight w' = inflight w" "states w' = states w" "spool w' = spool w" "queue w' = queue w"
    "tick w \<le> tick w'"
  using assms by (simp_all only: store_frame_def)

text \<open>\<open>w'\<close> has a new version of one row and is otherwise the message table of \<open>w\<close>.\<close>

definition row_changed :: "int \<Rightarrow> world \<Rightarrow> message \<Rightarrow> message \<Rightarrow> world \<Rightarrow> bool" where
  "row_changed mid w m m' w' \<longleftrightarrow>
     msg_of w' mid = Some m' \<and> payload m' = payload m \<and> (\<forall>k. k \<noteq> mid \<longrightarrow> msg_of w' k = msg_of w k) \<and>
     map msg_id (messages (db w')) = map msg_id (messages (db w)) \<and>
     map payload (messages (db w')) = map payload (messages (db w))"

lemma update_row_changed:
  assumes "messages (db w') = update_where (\<lambda>m. msg_id m = mid) f (messages (db w))"
    "\<And>m. payload (f m) = payload m" "msg_of w mid = Some m"
  shows "row_changed mid w m (f m) w'"
proof -
  have i: "msg_id (f m) = msg_id m" for m using assms(2) [of m] by (simp add: payload_def)
  show ?thesis using assms(2,3) get_by_update_where [of msg_id f, OF i] map_update_where [of _ msg_id f]
      map_update_where [of _ payload f]
    by (simp add: row_changed_def msg_of_def assms(1) i)
qed

text \<open>
  The contract of a write that changes one message row: every other row, the keys and what the
  client submitted stay. The parameter \<open>'a\<close> is the tuple of the write's arguments.
\<close>

locale row_write =
  fixes put :: "'a \<Rightarrow> world \<Rightarrow> world" and target :: "'a \<Rightarrow> int"
    and change :: "'a \<Rightarrow> world \<Rightarrow> message \<Rightarrow> message"
  assumes writes: "messages (db (put a w)) =
      update_where (\<lambda>m. msg_id m = target a) (change a w) (messages (db w))"
    and change_payload: "payload (change a w m) = payload m"
    and write_frame: "store_frame w (put a w)"
begin

lemma change_id: "msg_id (change a w m) = msg_id m"
  using change_payload [of a w m] by (simp add: payload_def)

lemma msg_of_write:
  "msg_of (put a w) k = (if k = target a then map_option (change a w) (msg_of w k) else msg_of w k)"
  unfolding msg_of_def writes by (rule get_by_update_where) (rule change_id)

lemma changes_row: "msg_of w (target a) = Some m \<Longrightarrow> row_changed (target a) w m (change a w m) (put a w)"
  by (rule update_row_changed [OF writes change_payload])

lemma write_ids: "map msg_id (messages (db (put a w))) = map msg_id (messages (db w))"
  unfolding writes by (rule map_update_where) (rule change_id)

lemma write_payload: "map payload (messages (db (put a w))) = map payload (messages (db w))"
  unfolding writes by (rule map_update_where) (rule change_payload)

lemma write_keys: "db_keys (db (put a w)) = db_keys (db w)"
proof -
  have "msg_id ` set (messages (db (put a w))) = msg_id ` set (messages (db w))"
    using arg_cong [OF write_ids, of set a w] by simp
  then show ?thesis using write_ids [of a w] store_frame_db [OF write_frame [of w a]]
    by (simp add: db_keys_def)
qed

end

interpretation sent: row_write "\<lambda>(mid, p). mark_sent e mid p" fst
  "\<lambda>(_, p) w m. m\<lparr>status := SENT, provider_used := Some p, sent_at := Some (clock e (tick w)), last_error := None\<rparr>"
  for e
  by unfold_locales (auto simp: mark_sent_def utcnow_def payload_def store_frame_def)

interpretation resched: row_write "\<lambda>(mid, delay, err, bump). reschedule e mid delay err bump" fst
  "\<lambda>(_, delay, err, bump) w m. m\<lparr>status := QUEUED,
     next_attempt_at := clock e (tick w) + timedelta_seconds delay,
     last_error := none_if_empty (take 2000 (str_or_empty err)), claimed_at := None,
     attempts := (if bump then attempts m + 1 else attempts m)\<rparr>"
  for e
  by unfold_locales (auto simp: reschedule_def utcnow_def payload_def store_frame_def)

interpretation dead: row_write "\<lambda>(mid, reason, dt). deadletter mid reason dt" fst
  "\<lambda>(_, reason, dt) w m. m\<lparr>status := DEADLETTER,
     last_error := Some (take 2000 (strip (''['' @ reason @ ''] '' @ str_or_empty dt))), claimed_at := None\<rparr>"
  by unfold_locales (auto simp: deadletter_def Let_def payload_def store_frame_def)


section \<open>Claiming\<close>

definition due :: "datetime \<Rightarrow> message \<Rightarrow> bool" where
  "due now m \<longleftrightarrow> status m = QUEUED \<and> next_attempt_at m \<le> now"

definition claim_key :: "message \<Rightarrow> int \<times> int" where
  "claim_key m = (next_attempt_at m, msg_id m)"

lemma due_ids_unfold:
  "due_ids now n rows = map msg_id (take (nat n) (sort_key claim_key (filter (due now) rows)))"
  unfolding due_ids_def select_where_def due_def [abs_def] claim_key_def [abs_def] by (rule refl)

lemma claim_batch_unfold:
  "claim_batch e n w =
     (due_ids (clock e (tick w)) n (messages (db w)),
      update_messages (\<lambda>m. msg_id m \<in> set (due_ids (clock e (tick w)) n (messages (db w))))
        (\<lambda>m. m\<lparr>status := SENDING, claimed_at := Some (clock e (tick w))\<rparr>) (w\<lparr>tick := Suc (tick w)\<rparr>))"
  by (auto simp: claim_batch_def utcnow_def Let_def update_where_def)

lemma key_inj: "db_keys d \<Longrightarrow> a \<in> set (messages d) \<Longrightarrow> b \<in> set (messages d) \<Longrightarrow> msg_id a = msg_id b \<Longrightarrow> a = b"
  by (auto simp: db_keys_def distinct_map inj_on_def)

lemma due_ids_member:
  assumes "db_keys d" "m \<in> set (messages d)" "msg_id m \<in> set (due_ids now n (messages d))"
  shows "m \<in> set (take (nat n) (sort_key claim_key (filter (due now) (messages d))))"
proof -
  obtain c where c: "c \<in> set (take (nat n) (sort_key claim_key (filter (due now) (messages d))))" "msg_id c = msg_id m"
    using assms(3) by (auto simp: due_ids_unfold)
  then have "c \<in> set (messages d)" using in_set_takeD by fastforce
  with c assms(1,2) show ?thesis using key_inj by metis
qed

lemma due_ids_due:
  assumes "db_keys d" "m \<in> set (messages d)" "msg_id m \<in> set (due_ids now n (messages d))"
  shows "due now m"
  using in_set_takeD [OF due_ids_member [OF assms]] by simp

lemma take_drop_key_le:
  assumes "sorted (map k xs)" "a \<in> set (take n xs)" "b \<in> set (drop n xs)"
  shows "k a \<le> k b"
proof -
  have "sorted (map k (take n xs) @ map k (drop n xs))"
    using assms(1) by (metis append_take_drop_id map_append)
  with assms(2,3) show ?thesis by (auto simp: sorted_append)
qed

lemma due_ids_distinct: "db_keys d \<Longrightarrow> distinct (due_ids now n (messages d))"
  by (simp add: due_ids_unfold take_map [symmetric] distinct_sort_key_map distinct_map_filter db_keys_def)

lemma due_ids_in: "i \<in> set (due_ids now n rows) \<Longrightarrow> \<exists>m \<in> set rows. msg_id m = i \<and> due now m"
  by (auto simp: due_ids_unfold dest!: in_set_takeD)

text \<open>Claim C12: a claim takes the earliest due messages and no others. The ids it returns are
  distinct, at most \<open>limit\<close> of them, all of queued messages whose time has come; a due message is
  left behind only when the batch is full, and then every claimed one precedes it in the order
  (next attempt, id).\<close>

theorem claim_batch_takes_earliest_due:
  assumes "db_keys (db w)" "0 < limit" "claim_batch e limit w = (ids, w')"
  shows "distinct ids \<and> int (length ids) \<le> limit \<and>
    (\<forall>m \<in> set (messages (db w)). msg_id m \<in> set ids \<longrightarrow> due (clock e (tick w)) m) \<and>
    (\<forall>m \<in> set (messages (db w)). due (clock e (tick w)) m \<longrightarrow> msg_id m \<notin> set ids \<longrightarrow>
       int (length ids) = limit \<and>
       (\<forall>c \<in> set (messages (db w)). msg_id c \<in> set ids \<longrightarrow> claim_key c < claim_key m))"
proof -
  let ?now = "clock e (tick w)" and ?rows = "messages (db w)"
  let ?xs = "sort_key claim_key (filter (due ?now) ?rows)"
  have ids: "ids = due_ids ?now limit ?rows" using assms(3) by (simp add: claim_batch_unfold)
  have d: "distinct ids" unfolding ids by (rule due_ids_distinct [OF assms(1)])
  have left: "int (length ids) = limit \<and> claim_key c < claim_key m"
    if m: "m \<in> set ?rows" "due ?now m" "msg_id m \<notin> set ids"
      and c: "c \<in> set ?rows" "msg_id c \<in> set ids" for m c
  proof -
    have "m \<in> set ?xs" "m \<notin> set (take (nat limit) ?xs)" using m by (auto simp: ids due_ids_unfold)
    then have md: "m \<in> set (drop (nat limit) ?xs)" by (metis UnE append_take_drop_id set_append)
    have ct: "c \<in> set (take (nat limit) ?xs)" using due_ids_member [OF assms(1)] c by (simp add: ids)
    have "claim_key c \<le> claim_key m" by (rule take_drop_key_le [OF _ ct md]) simp
    moreover have "claim_key c \<noteq> claim_key m" using m(3) c(2) by (auto simp: claim_key_def)
    moreover have "nat limit < length ?xs" using md by (cases "nat limit < length ?xs") auto
    ultimately show ?thesis using assms(2) by (auto simp: ids due_ids_unfold)
  qed
  have full: "int (length ids) = limit" if "m \<in> set ?rows" "due ?now m" "msg_id m \<notin> set ids" for m
  proof -
    have "m \<in> set ?xs" "m \<notin> set (take (nat limit) ?xs)" using that by (auto simp: ids due_ids_unfold)
    then have "nat limit < length ?xs" by (metis linorder_not_less take_all)
    then show ?thesis using assms(2) by (auto simp: ids due_ids_unfold)
  qed
  have "int (length ids) \<le> limit" using assms(2) by (simp add: ids due_ids_unfold)
  with d left full due_ids_due [OF assms(1)] show ?thesis by (auto simp: ids)
qed

definition demo_msg :: "int \<Rightarrow> message" where
  "demo_msg i = \<lparr>msg_id = i, received_at = demo_epoch, submitting_account = None, from_addr = ''x'',
     rcpt_to = [''y''], subject = None, message_id_header = None, msg_size = 1,
     spool_path = ''f'' @ dec (nat i), status = QUEUED, attempts = 0, next_attempt_at = demo_epoch,
     last_error = None, provider_used = None, sent_at = None, claimed_at = None\<rparr>"

definition demo_world :: "message list \<Rightarrow> world" where
  "demo_world ms = init_world\<lparr>db := empty_database\<lparr>messages := ms\<rparr>,
     spool := map_of (map (\<lambda>m. (spool_path m, ''m'')) ms)\<rparr>"

lemma demo_world_keys: "distinct (map msg_id ms) \<Longrightarrow> db_keys (db (demo_world ms))"
  by (simp add: db_keys_def demo_world_def empty_database_def)

theorem claim_batch_takes_earliest_due_witness:
  "\<exists>w'. claim_batch demo_env 2 (demo_world [demo_msg 1, demo_msg 2, demo_msg 3]) = ([1, 2], w') \<and>
     distinct [1::int, 2] \<and> claim_key (demo_msg 2) < claim_key (demo_msg 3)"
proof -
  let ?w = "demo_world [demo_msg 1, demo_msg 2, demo_msg 3]"
  have ids: "claim_batch demo_env 2 ?w = ([1, 2], snd (claim_batch demo_env 2 ?w))"
    by (rule prod_eqI) (simp_all, code_simp)
  have m: "set (messages (db ?w)) = {demo_msg 1, demo_msg 2, demo_msg 3}" by (simp add: demo_world_def)
  have "due (clock demo_env (tick ?w)) (demo_msg 3)" by code_simp
  moreover have "db_keys (db ?w)" by (rule demo_world_keys) (simp add: demo_msg_def)
  ultimately show ?thesis
    using claim_batch_takes_earliest_due [OF _ _ ids] ids unfolding m by (auto simp: demo_msg_def)
qed

text \<open>No message is claimed twice. A claim moves exactly the rows it returns to \<open>sending\<close>
  and leaves every other row and everything else but the time as it was; as long as none of them has
  left \<open>sending\<close>, no later claim returns one of them again.\<close>

theorem claim_batch_exclusive:
  assumes "db_keys (db w)" "claim_batch e limit w = (ids, w')"
  shows "messages (db w') = map (\<lambda>m. if msg_id m \<in> set ids
        then m\<lparr>status := SENDING, claimed_at := Some (clock e (tick w))\<rparr> else m) (messages (db w)) \<and>
    store_frame w w' \<and>
    (\<forall>v limit'. db_keys (db v) \<longrightarrow>
       (\<forall>m \<in> set (messages (db v)). msg_id m \<in> set ids \<longrightarrow> status m = SENDING) \<longrightarrow>
       set ids \<inter> set (fst (claim_batch e limit' v)) = {})"
proof -
  have "set ids \<inter> set (fst (claim_batch e limit' v)) = {}"
    if v: "db_keys (db v)" "\<forall>m \<in> set (messages (db v)). msg_id m \<in> set ids \<longrightarrow> status m = SENDING" for v limit'
  proof -
    have "i \<notin> set ids" if i: "i \<in> set (due_ids now limit' (messages (db v)))" for i now
    proof -
      obtain c where c: "c \<in> set (take (nat limit') (sort_key claim_key (filter (due now) (messages (db v)))))"
        "msg_id c = i" using i by (auto simp: due_ids_unfold)
      from in_set_takeD [OF c(1)] have "c \<in> set (messages (db v))" "due now c" by auto
      with v(2) c(2) show ?thesis by (auto simp: due_def)
    qed
    then show ?thesis by (auto simp: claim_batch_unfold)
  qed
  then show ?thesis using assms(2)
    by (auto simp: claim_batch_unfold update_where_def store_frame_def)
qed

theorem claim_batch_exclusive_witness:
  "\<exists>ids w'. claim_batch demo_env 2 (demo_world [demo_msg 1, demo_msg 2, demo_msg 3]) = (ids, w') \<and>
     ids = [1, 2] \<and> map status (messages (db w')) = [SENDING, SENDING, QUEUED]"
proof -
  let ?w = "demo_world [demo_msg 1, demo_msg 2, demo_msg 3]"
  have ids: "claim_batch demo_env 2 ?w = ([1, 2], snd (claim_batch demo_env 2 ?w))"
    by (rule prod_eqI) (simp_all, code_simp)
  have "db_keys (db ?w)" by (rule demo_world_keys) (simp add: demo_msg_def)
  from claim_batch_exclusive [OF this ids] ids show ?thesis by (auto simp: demo_world_def demo_msg_def)
qed

section \<open>Recovery\<close>

text \<open>After a crash nothing stays claimed. Recovery puts every message that was being sent
  back in the queue, due when it was due before, with its attempt count and everything submitted
  unchanged, counts them, leaves every other row alone, and a second recovery does nothing.\<close>

theorem recover_orphans_requeues:
  "messages (db (snd (recover_orphans w))) = map (\<lambda>m. if status m = SENDING
      then m\<lparr>status := QUEUED, claimed_at := None\<rparr> else m) (messages (db w)) \<and>
   list_all (\<lambda>m. status m \<noteq> SENDING) (messages (db (snd (recover_orphans w)))) \<and>
   map (\<lambda>m. (payload m, attempts m, next_attempt_at m)) (messages (db (snd (recover_orphans w)))) =
     map (\<lambda>m. (payload m, attempts m, next_attempt_at m)) (messages (db w)) \<and>
   fst (recover_orphans w) = int (length (filter (\<lambda>m. status m = SENDING) (messages (db w)))) \<and>
   recover_orphans (snd (recover_orphans w)) = (0, snd (recover_orphans w)) \<and>
   store_frame w (snd (recover_orphans w))"
proof -
  let ?rows = "messages (db w)"
  let ?f = "\<lambda>m. if status m = SENDING then m\<lparr>status := QUEUED, claimed_at := None\<rparr> else m"
  have m: "messages (db (snd (recover_orphans w))) = map ?f ?rows"
    by (simp add: recover_orphans_def update_where_def)
  have none: "status m \<noteq> SENDING" if "m \<in> set (map ?f ?rows)" for m using that by auto
  have "count_where (\<lambda>m. status m = SENDING) (map ?f ?rows) = 0"
    using none by (auto simp: count_where_def filter_empty_conv)
  moreover have "update_where (\<lambda>m. status m = SENDING) g (map ?f ?rows) = map ?f ?rows" for g
    by (simp add: update_where_def)
  ultimately have "recover_orphans (snd (recover_orphans w)) = (0, snd (recover_orphans w))"
    by (simp add: recover_orphans_def [of "snd (recover_orphans w)"] m)
  moreover have "list_all (\<lambda>m. status m \<noteq> SENDING) (map ?f ?rows)" using none by (simp only: list_all_iff) blast
  moreover have "map (\<lambda>m. (payload m, attempts m, next_attempt_at m)) (map ?f ?rows) =
      map (\<lambda>m. (payload m, attempts m, next_attempt_at m)) ?rows" by (simp add: payload_def)
  moreover have "fst (recover_orphans w) = int (length (filter (\<lambda>m. status m = SENDING) ?rows))"
    "store_frame w (snd (recover_orphans w))"
    by (simp_all add: recover_orphans_def count_where_def store_frame_def)
  ultimately show ?thesis unfolding m by blast
qed

section \<open>Retention\<close>

text \<open>\<open>w'\<close> is \<open>w\<close> without the messages of \<open>ids\<close>, their delivery attempts and their spool files.\<close>

definition removed :: "int set \<Rightarrow> world \<Rightarrow> world \<Rightarrow> bool" where
  "removed ids w w' \<longleftrightarrow>
     ids \<subseteq> msg_id ` set (messages (db w)) \<and>
     messages (db w') = delete_where (\<lambda>m. msg_id m \<in> ids) (messages (db w)) \<and>
     delivery_attempts (db w') = delete_where (\<lambda>a. att_message_id a \<in> ids) (delivery_attempts (db w)) \<and>
     send_log (db w') = send_log (db w) \<and> quota (db w') = quota (db w) \<and> inflight w' = inflight w \<and>
     (\<forall>path. spool w' path =
        (if path \<in> spool_path ` {m \<in> set (messages (db w)). msg_id m \<in> ids} then None else spool w path))"

lemma removed_refl: "removed {} w w"
  by (simp add: removed_def delete_where_def)

lemma delete_where_delete_where:
  "delete_where P (delete_where Q xs) = delete_where (\<lambda>x. Q x \<or> P x) xs"
  by (simp add: delete_where_def)

lemma removed_trans:
  assumes "removed A u v" "removed B v w"
  shows "removed (A \<union> B) u w"
proof -
  have B: "m \<in> set (messages (db u)) \<and> msg_id m \<in> B \<and> msg_id m \<notin> A \<longleftrightarrow>
      m \<in> set (messages (db v)) \<and> msg_id m \<in> B" for m
    using assms by (auto simp: removed_def)
  have "{m \<in> set (messages (db u)). msg_id m \<in> A \<union> B} =
      {m \<in> set (messages (db u)). msg_id m \<in> A} \<union> {m \<in> set (messages (db v)). msg_id m \<in> B}"
    using B by blast
  then show ?thesis using assms by (auto simp: removed_def delete_where_delete_where image_Un)
qed

lemma fold_spool_delete:
  "spool (fold (\<lambda>m. spool_delete (spool_path m)) rows w) path =
     (if path \<in> spool_path ` set rows then None else spool w path)"
  by (induction rows arbitrary: w) (auto simp: spool_delete_def)

lemma fold_spool_delete_frame:
  "db (fold (\<lambda>m. spool_delete (spool_path m)) rows w) = db w"
  "inflight (fold (\<lambda>m. spool_delete (spool_path m)) rows w) = inflight w"
  "tick (fold (\<lambda>m. spool_delete (spool_path m)) rows w) = tick w"
  by (induction rows arbitrary: w) (auto simp: spool_delete_def)

text \<open>The documented behaviour of a query without \<open>ORDER BY\<close>: every row once, in some order.\<close>

definition scans :: "(message list \<Rightarrow> message list) \<Rightarrow> bool" where
  "scans scan \<longleftrightarrow> (\<forall>rows. mset (scan rows) = mset rows)"

lemma scan_set: "scans scan \<Longrightarrow> set (scan rows) = set rows"
  by (metis scans_def set_mset_mset)

lemma sweep_rows_set:
  "scans scan \<Longrightarrow> m \<in> set (sweep_rows scan st cutoff rows) \<Longrightarrow>
   m \<in> set rows \<and> status m = st \<and> received_at m < cutoff"
  by (auto simp: sweep_rows_def select_where_def scan_set dest: in_set_takeD)

lemma sweep_one_removes:
  assumes "scans scan" "db_keys (db w)" "sweep_one scan (st, cutoff) (n, w) = (n', w')"
  shows "\<exists>ids. removed ids w w' \<and> n' = n + int (card ids) \<and> tick w' = tick w \<and>
    (\<forall>m \<in> set (messages (db w)). msg_id m \<in> ids \<longrightarrow> status m = st \<and> received_at m < cutoff)"
proof -
  let ?rows = "sweep_rows scan st cutoff (messages (db w))"
  let ?ids = "set (map msg_id ?rows)"
  note S = sweep_rows_set [OF assms(1), of _ st cutoff "messages (db w)"]
  have "mset (scan (messages (db w))) = mset (messages (db w))" using assms(1) by (simp add: scans_def)
  then have "distinct (map msg_id (scan (messages (db w))))"
    using assms(2) by (metis db_keys_def mset_eq_imp_distinct_iff mset_map)
  then have d: "distinct (map msg_id ?rows)"
    by (simp add: sweep_rows_def select_where_def take_map [symmetric] distinct_map_filter)
  have rows: "m \<in> set ?rows" if m: "m \<in> set (messages (db w))" "msg_id m \<in> ?ids" for m
  proof -
    obtain c where c: "c \<in> set ?rows" "msg_id c = msg_id m" using m(2) by auto
    with S have "c \<in> set (messages (db w))" by blast
    with c m(1) show ?thesis using key_inj [OF assms(2)] by metis
  qed
  have eq: "{m \<in> set (messages (db w)). msg_id m \<in> ?ids} = set ?rows" using rows S by auto
  have sub: "?ids \<subseteq> msg_id ` set (messages (db w))" using S by auto
  have "removed ?ids w w'"
  proof (cases "?rows = []")
    case True
    then show ?thesis using assms(3) by (simp add: sweep_one_def removed_refl)
  next
    case False
    then show ?thesis using assms(3) sub
      unfolding removed_def eq by (auto simp: sweep_one_def Let_def fold_spool_delete fold_spool_delete_frame)
  qed
  moreover have "n' = n + int (card ?ids)"
    using assms(3) distinct_card [OF d] by (auto simp: sweep_one_def Let_def split: if_splits)
  moreover have "tick w' = tick w"
    using assms(3) by (auto simp: sweep_one_def Let_def fold_spool_delete_frame split: if_splits)
  ultimately show ?thesis using rows S by (intro exI [of _ ?ids]) blast
qed

lemma removed_keys: "removed ids w w' \<Longrightarrow> db_keys (db w) \<Longrightarrow> db_keys (db w')"
  by (auto simp: removed_def db_keys_def distinct_map_delete_where)

lemma sweep_fold_removes:
  assumes "scans scan" "db_keys (db w)" "fold (sweep_one scan) plans (n, w) = (n', w')"
  shows "\<exists>ids. removed ids w w' \<and> n' = n + int (card ids) \<and>
    (\<forall>m \<in> set (messages (db w)). msg_id m \<in> ids \<longrightarrow>
       (\<exists>cutoff. (status m, cutoff) \<in> set plans \<and> received_at m < cutoff))"
  using assms(2,3)
proof (induction plans arbitrary: n w)
  case Nil
  then show ?case by (intro exI [of _ "{}"]) (simp add: removed_refl)
next
  case (Cons pl plans)
  obtain st cutoff where pl: "pl = (st, cutoff)" by (cases pl)
  obtain k v where one: "sweep_one scan (st, cutoff) (n, w) = (k, v)" by (cases "sweep_one scan (st, cutoff) (n, w)")
  obtain A where A: "removed A w v" "k = n + int (card A)"
    "\<forall>m \<in> set (messages (db w)). msg_id m \<in> A \<longrightarrow> status m = st \<and> received_at m < cutoff"
    using sweep_one_removes [OF assms(1) Cons.prems(1) one] by blast
  have "fold (sweep_one scan) plans (k, v) = (n', w')" using Cons.prems(2) one by (simp add: pl)
  then obtain B where B: "removed B v w'" "n' = k + int (card B)"
    "\<forall>m \<in> set (messages (db v)). msg_id m \<in> B \<longrightarrow>
       (\<exists>cutoff. (status m, cutoff) \<in> set plans \<and> received_at m < cutoff)"
    using Cons.IH removed_keys [OF A(1) Cons.prems(1)] by blast
  have fin: "finite A" "finite B" using A(1) B(1) by (auto simp: removed_def intro: finite_subset)
  have "A \<inter> B = {}" using A(1) B(1) by (auto simp: removed_def)
  then have N: "n' = n + int (card (A \<union> B))" using A(2) B(2) fin by (simp add: card_Un_disjoint)
  have surv: "m \<in> set (messages (db v))" if "m \<in> set (messages (db w))" "msg_id m \<notin> A" for m
    using that A(1) by (simp add: removed_def)
  have "\<exists>cutoff'. (status m, cutoff') \<in> set (pl # plans) \<and> received_at m < cutoff'"
    if "m \<in> set (messages (db w))" "msg_id m \<in> A \<union> B" for m
  proof (cases "msg_id m \<in> A")
    case True
    with A(3) that(1) show ?thesis by (auto simp: pl)
  next
    case False
    with B(3) surv that show ?thesis by auto
  qed
  then show ?case using removed_trans [OF A(1) B(1)] N by blast
qed

text \<open>Claim C18: the retention sweep deletes only what it may. Whatever order the database scans the
  rows in, there is a set of message ids such that exactly those rows, their delivery attempts and
  their spool files disappear; each was sent or dead-lettered and received longer ago than the
  retention of its status, which is not 0; the returned number is how many; and no delivery attempt
  is left without its message.\<close>

theorem retention_sweep_deletes_only_expired:
  assumes "scans scan" "db_keys (db w)" "retention_sweep e s scan w = (n, w')"
  shows "\<exists>ids. removed ids w w' \<and> n = int (card ids) \<and> db_keys (db w') \<and>
    (\<forall>m \<in> set (messages (db w)). msg_id m \<in> ids \<longrightarrow>
       (status m = SENT \<and> sent_retention_hours (dispatch s) \<noteq> 0 \<and>
          received_at m + hours_td (sent_retention_hours (dispatch s)) < clock e (tick w)) \<or>
       (status m = DEADLETTER \<and> deadletter_retention_hours (dispatch s) \<noteq> 0 \<and>
          received_at m + hours_td (deadletter_retention_hours (dispatch s)) < clock e (tick w)))"
proof -
  have f: "fold (sweep_one scan) (sweep_plans s (clock e (tick w))) (0, w\<lparr>tick := Suc (tick w)\<rparr>) = (n, w')"
    using assms(3) by (simp add: retention_sweep_def utcnow_def)
  have k: "db_keys (db (w\<lparr>tick := Suc (tick w)\<rparr>))" using assms(2) by simp
  obtain ids where "removed ids (w\<lparr>tick := Suc (tick w)\<rparr>) w'" "n = int (card ids)"
    and P: "\<forall>m \<in> set (messages (db w)). msg_id m \<in> ids \<longrightarrow>
       (\<exists>cutoff. (status m, cutoff) \<in> set (sweep_plans s (clock e (tick w))) \<and> received_at m < cutoff)"
    using sweep_fold_removes [OF assms(1) k f] by auto
  then have R: "removed ids w w'" "n = int (card ids)" by (simp_all add: removed_def)
  have "(status m = SENT \<and> sent_retention_hours (dispatch s) \<noteq> 0 \<and>
          received_at m + hours_td (sent_retention_hours (dispatch s)) < clock e (tick w)) \<or>
       (status m = DEADLETTER \<and> deadletter_retention_hours (dispatch s) \<noteq> 0 \<and>
          received_at m + hours_td (deadletter_retention_hours (dispatch s)) < clock e (tick w))"
    if "m \<in> set (messages (db w))" "msg_id m \<in> ids" for m
    using P that by (fastforce simp: sweep_plans_def Let_def split: if_splits)
  with R removed_keys [OF R(1) assms(2)] show ?thesis by blast
qed

theorem retention_sweep_deletes_only_expired_witness:
  "\<exists>w'. retention_sweep (demo_env\<lparr>clock := (\<lambda>_. demo_epoch + hours_td 200)\<rparr>) demo_settings rev
          (demo_world [(demo_msg 1)\<lparr>status := SENT\<rparr>, demo_msg 2]) = (1, w') \<and> db_keys (db w')"
proof -
  let ?e = "demo_env\<lparr>clock := (\<lambda>_. demo_epoch + hours_td 200)\<rparr>"
  let ?w = "demo_world [(demo_msg 1)\<lparr>status := SENT\<rparr>, demo_msg 2]"
  have n: "fst (retention_sweep ?e demo_settings rev ?w) = 1" by code_simp
  have k: "db_keys (db ?w)" by (rule demo_world_keys) (simp add: demo_msg_def)
  have "scans rev" by (simp add: scans_def)
  from retention_sweep_deletes_only_expired [OF this k, of ?e demo_settings "fst (retention_sweep ?e demo_settings rev ?w)"
      "snd (retention_sweep ?e demo_settings rev ?w)"]
  show ?thesis using n by (intro exI [of _ "snd (retention_sweep ?e demo_settings rev ?w)"]) (auto simp: prod_eq_iff)
qed

end
