(* ===== verification/Worker.thy ===== *)
theory Worker
  imports Message_Store
begin

text \<open>
  \<open>src/smtp_switch/dispatch/worker.py\<close>: what a consumer does with one claimed message, from the
  snapshot of its row to its next state. \<open>time.monotonic\<close>, the latency histograms and the log lines
  are left out. An exception that leaves an operation is the \<open>Inl\<close> value of its result, with the
  world as it was when the exception was raised.
\<close>

section \<open>Operations\<close>

record msg_snapshot =
  sn_id :: int
  sn_received_at :: datetime
  sn_from_addr :: string
  sn_rcpt_to :: "string list"
  sn_spool_path :: string
  sn_attempts :: int
  sn_claimed_at :: "datetime option"

definition from_row :: "message \<Rightarrow> msg_snapshot" where
  "from_row m = \<lparr>sn_id = msg_id m, sn_received_at = received_at m, sn_from_addr = from_addr m,
     sn_rcpt_to = rcpt_to m, sn_spool_path = spool_path m, sn_attempts = attempts m,
     sn_claimed_at = claimed_at m\<rparr>"

lemma from_row_sel:
  "sn_received_at (from_row m) = received_at m" "sn_spool_path (from_row m) = spool_path m"
  "sn_attempts (from_row m) = attempts m" "sn_from_addr (from_row m) = from_addr m"
  "sn_rcpt_to (from_row m) = rcpt_to m"
  by (simp_all add: from_row_def)

text \<open>The local variables of \<open>_process\<close> that its loop updates.\<close>

record tick_state =
  tried :: "string list"
  made_attempt :: bool
  saw_transient :: bool
  saw_connect :: bool
  saw_permanent :: bool
  ts_error :: "string option"
  ts_code :: "int option"

definition fresh_tick :: tick_state where
  "fresh_tick = \<lparr>tried = [], made_attempt = False, saw_transient = False, saw_connect = False,
     saw_permanent = False, ts_error = None, ts_code = None\<rparr>"

text \<open>The end of an iteration, once the attempt is recorded: \<open>None\<close> is the \<open>return\<close> after a
  delivery.\<close>

definition settle_attempt ::
  "'e env_scheme \<Rightarrow> settings \<Rightarrow> int \<Rightarrow> route_decision \<Rightarrow> relay_result \<Rightarrow> tick_state \<Rightarrow> world \<Rightarrow>
   tick_state option \<times> world" where
  "settle_attempt e s mid d r st w =
     (let p = rd_provider d in
      if relay_ok r then
        (let w = commit (rd_reservation d) w;
             w = record_success e p w;
             w = mark_sent e mid p w
         in (None, w\<lparr>metrics := (metrics w)\<lparr>messages_sent := bump_label (messages_sent (metrics w)) p\<rparr>\<rparr>))
      else
        (let w = w\<lparr>metrics := (metrics w)\<lparr>messages_failed :=
                     bump_label (messages_failed (metrics w)) (p, classification r)\<rparr>\<rparr>
         in if classification r = Connect_error then
              (Some (st\<lparr>saw_connect := True\<rparr>),
               record_failure e (circuit_breaker s) p (release e (rd_reservation d) w))
            else if classification r = Transient then
              (Some (st\<lparr>saw_transient := True\<rparr>),
               record_failure e (circuit_breaker s) p (commit (rd_reservation d) w))
            else
              (Some (st\<lparr>saw_permanent := True\<rparr>),
               record_success e p (commit (rd_reservation d) w))))"

text \<open>One iteration of the loop, after \<open>select\<close> returned a decision.\<close>

definition one_attempt ::
  "'e relay_env_scheme \<Rightarrow> settings \<Rightarrow> int \<Rightarrow> msg_snapshot \<Rightarrow> string \<Rightarrow> route_decision \<Rightarrow> tick_state \<Rightarrow> world \<Rightarrow>
   (exn + tick_state option) \<times> world" where
  "one_attempt e s mid sn raw d st w =
     (let p = rd_provider d;
          st = st\<lparr>tried := List.insert p (tried st), made_attempt := True\<rparr>;
          no = sn_attempts sn + int (length (tried st));
          (started, w) = utcnow e w
      in case relay e (registry_get s p) (sn_from_addr sn) (sn_rcpt_to sn) raw w of
           Inl x \<Rightarrow> (Inl x, w)
         | Inr r \<Rightarrow>
             (case record_attempt e mid no p started r w of
                (Inl x, w) \<Rightarrow> (Inl x, w)
              | (Inr _, w) \<Rightarrow>
                  (let (res, w) = settle_attempt e s mid d r
                         (st\<lparr>ts_error := Some (detail r), ts_code := res_code r\<rparr>) w
                   in (Inr res, w))))"

text \<open>\<open>for _ in range(failover_per_tick)\<close>\<close>

fun failover ::
  "'e relay_env_scheme \<Rightarrow> settings \<Rightarrow> int \<Rightarrow> msg_snapshot \<Rightarrow> string \<Rightarrow> nat \<Rightarrow> tick_state \<Rightarrow> world \<Rightarrow>
   (exn + tick_state option) \<times> world" where
  "failover e s mid sn raw 0 st w = (Inr (Some st), w)"
| "failover e s mid sn raw (Suc n) st w =
     (case select e s (set (tried st)) w of
        (Inl x, w) \<Rightarrow> (Inl x, w)
      | (Inr None, w) \<Rightarrow> (Inr (Some st), w)
      | (Inr (Some d), w) \<Rightarrow>
          (case one_attempt e s mid sn raw d st w of
             (Inl x, w) \<Rightarrow> (Inl x, w)
           | (Inr None, w) \<Rightarrow> (Inr None, w)
           | (Inr (Some st), w) \<Rightarrow> failover e s mid sn raw n st w))"

definition draw_jitter :: "'e env_scheme \<Rightarrow> retry_config \<Rightarrow> world \<Rightarrow> rat \<times> world" where
  "draw_jitter e rt w = (if jitter_ratio rt \<le> 0 then (0, w) else random_random e w)"

definition handle_no_success ::
  "'e env_scheme \<Rightarrow> settings \<Rightarrow> int \<Rightarrow> msg_snapshot \<Rightarrow> tick_state \<Rightarrow> world \<Rightarrow> world" where
  "handle_no_success e s mid sn st w =
     (let rt = retry (dispatch s) in
      if \<not> made_attempt st then
        reschedule e mid (fl (of_int (no_capacity_backoff_seconds (dispatch s))))
          (Some ''no provider capacity'') False w
      else
        let exhausted = (set (candidate_names s w) \<subseteq> set (tried st));
            only_permanent = (saw_permanent st \<and> \<not> saw_transient st \<and> \<not> saw_connect st)
        in if only_permanent \<and> exhausted then deadletter mid ''rejected'' (ts_error st) w
           else
             let next_attempts = sn_attempts sn + 1
             in if next_attempts \<ge> max_attempts rt then deadletter mid ''max_attempts'' (ts_error st) w
                else
                  let (u, w) = draw_jitter e rt w;
                      delay = backoff_delay next_attempts (base_delay_seconds rt)
                                (max_delay_seconds rt) (jitter_ratio rt) u;
                      deadline = sn_received_at sn + hours_td (max_age_hours rt);
                      (now, w) = utcnow e w
                  in if now + timedelta_seconds delay \<ge> deadline
                     then deadletter mid ''expired'' (ts_error st) w
                     else reschedule e mid delay (ts_error st) True w)"

definition process ::
  "'e relay_env_scheme \<Rightarrow> settings \<Rightarrow> int \<Rightarrow> world \<Rightarrow> (exn + unit) \<times> world" where
  "process e s mid w =
     (case msg_of w mid of
        None \<Rightarrow> (Inr (), w)
      | Some m \<Rightarrow>
          if is_terminal (status m) then (Inr (), w)
          else
            let sn = from_row m; rt = retry (dispatch s);
                (now, w) = utcnow e w;
                expired = (now - sn_received_at sn > hours_td (max_age_hours rt))
            in case spool_read (sn_spool_path sn) w of
                 Inl _ \<Rightarrow> (Inr (), deadletter mid ''spool_missing'' None w)
               | Inr raw \<Rightarrow>
                   if expired
                   then (Inr (), deadletter mid ''expired'' (Some ''message exceeded max age'') w)
                   else (case failover e s mid sn raw (nat (failover_per_tick (dispatch s))) fresh_tick w of
                           (Inl x, w) \<Rightarrow> (Inl x, w)
                         | (Inr None, w) \<Rightarrow> (Inr (), w)
                         | (Inr (Some st), w) \<Rightarrow> (Inr (), handle_no_success e s mid sn st w)))"

text \<open>One turn of \<open>_consumer\<close>: an exception puts the message back in the queue.\<close>

definition consumer_turn :: "'e relay_env_scheme \<Rightarrow> settings \<Rightarrow> world \<Rightarrow> world" where
  "consumer_turn e s w =
     (case queue w of
        [] \<Rightarrow> w
      | mid # rest \<Rightarrow>
          (case process e s mid (w\<lparr>queue := rest\<rparr>) of
             (Inr _, w) \<Rightarrow> w
           | (Inl _, w) \<Rightarrow> requeue_now mid w))"

section \<open>What processing leaves alone\<close>

definition work_frame :: "world \<Rightarrow> world \<Rightarrow> bool" where
  "work_frame w w' \<longleftrightarrow>
     tick w \<le> tick w' \<and> overrides w' = overrides w \<and> queue w' = queue w \<and> spool w' = spool w \<and>
     override_rows (db w') = override_rows (db w) \<and> accounts (db w') = accounts (db w)"

lemma work_frame_refl [simp]: "work_frame w w"
  by (simp add: work_frame_def)

lemma work_frame_trans: "work_frame u v \<Longrightarrow> work_frame v w \<Longrightarrow> work_frame u w"
  by (auto simp: work_frame_def)

lemma route_work_frame: "route_frame w w' \<Longrightarrow> work_frame w w'"
  by (simp add: route_frame_def work_frame_def)

lemma store_work_frame: "store_frame w w' \<Longrightarrow> work_frame w w'"
  by (simp add: work_frame_def store_frame_db) (simp add: store_frame_def)

text \<open>\<open>log_frame\<close>: and the log of delivery attempts is the same.\<close>

definition log_frame :: "world \<Rightarrow> world \<Rightarrow> bool" where
  "log_frame w w' \<longleftrightarrow> work_frame w w' \<and> delivery_attempts (db w') = delivery_attempts (db w)"

lemma log_frame_trans: "log_frame u v \<Longrightarrow> log_frame v w \<Longrightarrow> log_frame u w"
  by (auto simp: log_frame_def intro: work_frame_trans)

lemma log_frames:
  "route_frame w w' \<Longrightarrow> log_frame w w'" "store_frame w w' \<Longrightarrow> log_frame w w'"
  "log_frame w (w\<lparr>metrics := k\<rparr>)"
  by (simp_all add: log_frame_def route_work_frame store_work_frame store_frame_db)
     (simp_all add: route_frame_def work_frame_def)

lemmas record_failure_route = breaker_route_frame [OF record_failure_breaker_frame]
lemmas record_success_route = breaker_route_frame [OF record_success_breaker_frame]
lemmas release_route = limiter_route_frame [OF release_limiter_frame]
lemmas commit_route = limiter_route_frame [OF commit_limiter_frame]

lemma route_messages: "route_frame w w' \<Longrightarrow> messages (db w') = messages (db w)"
  by (simp add: route_frame_def)

lemma breaker_capacity_ok: "breaker_frame w w' \<Longrightarrow> capacity_ok w' = capacity_ok w"
  by (simp add: capacity_ok_def quota_nonneg_def breaker_frame_fields breaker_frame_db(3)
      quota_of_db_cong [OF breaker_frame_db(4)])

lemma commit_capacity_ok: "capacity_ok w \<Longrightarrow> capacity_ok (commit r w)"
  by (simp add: capacity_ok_def quota_nonneg_def commit_inflight)

lemma release_capacity_ok: "capacity_ok w \<Longrightarrow> capacity_ok (release e r w)"
  by (simp add: capacity_ok_def release_inflight release_send_log distinct_map_delete_where)
     (simp add: quota_nonneg_def release_quota)

lemma store_capacity_ok: "store_frame w w' \<Longrightarrow> capacity_ok w' = capacity_ok w"
  by (simp add: capacity_ok_def quota_nonneg_def store_frame_fields store_frame_db(2)
      quota_of_db_cong [OF store_frame_db(3)])

lemma metrics_capacity_ok [simp]: "capacity_ok (w\<lparr>metrics := k\<rparr>) = capacity_ok w"
  by (simp add: capacity_ok_def quota_nonneg_def)

lemma tick_capacity_ok [simp]: "capacity_ok (w\<lparr>tick := n\<rparr>) = capacity_ok w"
  by (simp add: capacity_ok_def quota_nonneg_def)

section \<open>One attempt\<close>

lemma mark_sent_store: "store_frame w (mark_sent e mid p w)"
  using sent.write_frame [of w e "(mid, p)"] by simp

lemma settle_ok:
  fixes e :: "'e env_scheme" and d :: route_decision and w :: world
  assumes "relay_ok r"
  defines "w1 \<equiv> record_success e (rd_provider d) (commit (rd_reservation d) w)"
  shows "settle_attempt e s mid d r st w =
    (None, (mark_sent e mid (rd_provider d) w1)\<lparr>metrics := (metrics (mark_sent e mid (rd_provider d) w1))
       \<lparr>messages_sent := bump_label (messages_sent (metrics (mark_sent e mid (rd_provider d) w1))) (rd_provider d)\<rparr>\<rparr>)"
  using assms by (simp add: settle_attempt_def Let_def)

text \<open>How a failed attempt is settled.\<close>

definition mark_seen :: "classification \<Rightarrow> tick_state \<Rightarrow> tick_state" where
  "mark_seen c st =
     (case c of Connect_error \<Rightarrow> st\<lparr>saw_connect := True\<rparr> | Transient \<Rightarrow> st\<lparr>saw_transient := True\<rparr>
      | _ \<Rightarrow> st\<lparr>saw_permanent := True\<rparr>)"

lemma settle_fail:
  assumes "\<not> relay_ok r"
  shows "\<exists>v w1. settle_attempt e s mid d r st w = (Some (mark_seen (classification r) st), v) \<and>
    (w1 = release e (rd_reservation d) (w\<lparr>metrics := (metrics w)\<lparr>messages_failed :=
            bump_label (messages_failed (metrics w)) (rd_provider d, classification r)\<rparr>\<rparr>) \<or>
     w1 = commit (rd_reservation d) (w\<lparr>metrics := (metrics w)\<lparr>messages_failed :=
            bump_label (messages_failed (metrics w)) (rd_provider d, classification r)\<rparr>\<rparr>)) \<and>
    breaker_frame w1 v"
  using assms
  by (cases "classification r")
     (auto simp: settle_attempt_def Let_def relay_ok_def mark_seen_def
       intro: record_failure_breaker_frame record_success_breaker_frame)

lemma settle_attempt_effect:
  assumes "settle_attempt e s mid d r st w = (res, w')"
  shows "inflight w' = (inflight w)(res_provider (rd_reservation d) :=
           max 0 (inflight w (res_provider (rd_reservation d)) - 1))"
    "log_frame w w'" "capacity_ok w \<Longrightarrow> capacity_ok w'"
proof -
  have "inflight w' = (inflight w)(res_provider (rd_reservation d) :=
           max 0 (inflight w (res_provider (rd_reservation d)) - 1)) \<and> log_frame w w' \<and>
        (capacity_ok w \<longrightarrow> capacity_ok w')"
  proof (cases "relay_ok r")
    case True
    let ?w0 = "commit (rd_reservation d) w"
    let ?w1 = "record_success e (rd_provider d) ?w0"
    let ?w2 = "mark_sent e mid (rd_provider d) ?w1"
    have w': "w' = ?w2\<lparr>metrics := (metrics ?w2)\<lparr>messages_sent :=
        bump_label (messages_sent (metrics ?w2)) (rd_provider d)\<rparr>\<rparr>"
      using assms by (simp add: settle_ok [OF True])
    have "log_frame w ?w2"
      by (rule log_frame_trans [OF log_frame_trans [OF log_frames(1) [OF commit_route]
              log_frames(1) [OF record_success_route]] log_frames(2) [OF mark_sent_store]])
    then have "log_frame w w'" unfolding w' by (rule log_frame_trans) (rule log_frames(3))
    moreover have "capacity_ok w \<Longrightarrow> capacity_ok w'"
      by (simp add: w' store_capacity_ok [OF mark_sent_store]
          breaker_capacity_ok [OF record_success_breaker_frame] commit_capacity_ok)
    ultimately show ?thesis
      by (simp add: w' store_frame_fields(1) [OF mark_sent_store]
          breaker_frame_fields(1) [OF record_success_breaker_frame] commit_inflight)
  next
    case False
    let ?w0 = "w\<lparr>metrics := (metrics w)\<lparr>messages_failed :=
            bump_label (messages_failed (metrics w)) (rd_provider d, classification r)\<rparr>\<rparr>"
    from settle_fail [OF False, of e s mid d st w] assms obtain w1
      where w1: "w1 = release e (rd_reservation d) ?w0 \<or> w1 = commit (rd_reservation d) ?w0"
        and b: "breaker_frame w1 w'" by auto
    have lf: "limiter_frame ?w0 w1" using w1 by (auto intro: release_limiter_frame commit_limiter_frame)
    have "log_frame w w'"
      by (rule log_frame_trans [OF log_frame_trans [OF log_frames(3)
              log_frames(1) [OF limiter_route_frame [OF lf]]] log_frames(1) [OF breaker_route_frame [OF b]]])
    moreover have "capacity_ok w \<Longrightarrow> capacity_ok w'"
      using w1 by (auto simp: breaker_capacity_ok [OF b] intro: release_capacity_ok commit_capacity_ok)
    moreover have "inflight w' = (inflight w)(res_provider (rd_reservation d) :=
           max 0 (inflight w (res_provider (rd_reservation d)) - 1))"
      using w1 by (auto simp: breaker_frame_fields [OF b] release_inflight commit_inflight)
    ultimately show ?thesis by blast
  qed
  then show "inflight w' = (inflight w)(res_provider (rd_reservation d) :=
           max 0 (inflight w (res_provider (rd_reservation d)) - 1))"
    "log_frame w w'" "capacity_ok w \<Longrightarrow> capacity_ok w'" by blast+
qed

definition sent_row :: "string \<Rightarrow> datetime \<Rightarrow> message \<Rightarrow> message" where
  "sent_row p t m = m\<lparr>status := SENT, provider_used := Some p, sent_at := Some t, last_error := None\<rparr>"

lemma settle_messages:
  assumes "settle_attempt e s mid d r st w = (res, w')"
  shows "case res of
      None \<Rightarrow> relay_ok r \<and> (\<exists>t. messages (db w') =
        update_where (\<lambda>m. msg_id m = mid) (sent_row (rd_provider d) t) (messages (db w)))
    | Some st' \<Rightarrow> \<not> relay_ok r \<and> st' = mark_seen (classification r) st \<and> messages (db w') = messages (db w)"
proof (cases "relay_ok r")
  case True
  let ?w1 = "record_success e (rd_provider d) (commit (rd_reservation d) w)"
  have "messages (db ?w1) = messages (db w)"
    by (simp add: route_messages [OF record_success_route])
  then have "messages (db w') = update_where (\<lambda>m. msg_id m = mid)
      (sent_row (rd_provider d) (clock e (tick ?w1))) (messages (db w))" "res = None"
    using assms by (auto simp: settle_ok [OF True] mark_sent_def utcnow_def sent_row_def [abs_def])
  with True show ?thesis by auto
next
  case False
  let ?w0 = "w\<lparr>metrics := (metrics w)\<lparr>messages_failed :=
            bump_label (messages_failed (metrics w)) (rd_provider d, classification r)\<rparr>\<rparr>"
  from settle_fail [OF False, of e s mid d st w] assms obtain w1
    where w1: "w1 = release e (rd_reservation d) ?w0 \<or> w1 = commit (rd_reservation d) ?w0"
      and b: "breaker_frame w1 w'" and res: "res = Some (mark_seen (classification r) st)" by auto
  have "messages (db w1) = messages (db w)"
    using w1 by (auto simp: route_messages [OF release_route])
  then show ?thesis using False res by (simp add: breaker_frame_db [OF b])
qed

text \<open>The provider library raises nothing but its own exceptions.\<close>

definition smtp_only :: "'e relay_env_scheme \<Rightarrow> bool" where
  "smtp_only e \<longleftrightarrow> (\<forall>n k f t raw x. smtp_send e n k f t raw = Raised x \<longrightarrow> SMTPException \<in> set (exc_classes x))"

lemma relay_total:
  assumes "smtp_only e"
  obtains r where "relay e (Some cfg) f t raw w = Inr r"
proof (cases "send_call e cfg f t raw w")
  case (Raised x)
  then have "SMTPException \<in> set (exc_classes x)" using assms unfolding smtp_only_def send_call_def by blast
  with Raised that show ?thesis using handle_raised_total by (auto simp: relay_send_call)
qed (use that in \<open>auto simp: relay_send_call\<close>)

lemma record_attempt_unfold:
  assumes "mid \<in> msg_id ` set (messages (db w))"
  shows "record_attempt e mid no p started r w =
    (Inr (), w\<lparr>tick := Suc (tick w), db := (db w)\<lparr>delivery_attempts := delivery_attempts (db w) @
      [\<lparr>att_id = next_rowid att_id (delivery_attempts (db w)), att_message_id = mid, attempt_no = no,
        att_provider = Some p, started_at = started, finished_at = Some (clock e (tick w)),
        att_result = classification r, smtp_code = res_code r, att_error = Some (detail r)\<rparr>]\<rparr>\<rparr>)"
  using assms by (simp add: record_attempt_def utcnow_def Let_def)

text \<open>The state of the loop after an attempt whose log row is \<open>a\<close>.\<close>

definition after_attempt :: "delivery_attempt \<Rightarrow> tick_state \<Rightarrow> tick_state" where
  "after_attempt a st = mark_seen (att_result a)
     (st\<lparr>tried := the (att_provider a) # tried st, made_attempt := True, ts_error := att_error a,
         ts_code := smtp_code a\<rparr>)"

definition attempt_logged :: "int \<Rightarrow> int \<Rightarrow> string \<Rightarrow> world \<Rightarrow> delivery_attempt \<Rightarrow> world \<Rightarrow> bool" where
  "attempt_logged mid no p w a w' \<longleftrightarrow>
     delivery_attempts (db w') = delivery_attempts (db w) @ [a] \<and>
     att_id a = next_rowid att_id (delivery_attempts (db w)) \<and>
     att_message_id a = mid \<and> attempt_no a = no \<and> att_provider a = Some p"

lemma one_attempt_effect:
  assumes mid: "mid \<in> msg_id ` set (messages (db w))" and e: "smtp_only e"
    and cfg: "registry_get s (rd_provider d) = Some cfg" and new: "rd_provider d \<notin> set (tried st)"
  shows "\<exists>res w' a. one_attempt e s mid sn raw d st w = (Inr res, w') \<and>
    inflight w' = (inflight w)(res_provider (rd_reservation d) :=
           max 0 (inflight w (res_provider (rd_reservation d)) - 1)) \<and>
    work_frame w w' \<and> (capacity_ok w \<longrightarrow> capacity_ok w') \<and>
    attempt_logged mid (sn_attempts sn + int (length (tried st)) + 1) (rd_provider d) w a w' \<and>
    (case res of
       None \<Rightarrow> att_result a = Sent \<and> (\<exists>t. messages (db w') =
         update_where (\<lambda>m. msg_id m = mid) (sent_row (rd_provider d) t) (messages (db w)))
     | Some st' \<Rightarrow> att_result a \<noteq> Sent \<and> st' = after_attempt a st \<and> messages (db w') = messages (db w))"
proof -
  let ?p = "rd_provider d" and ?w1 = "w\<lparr>tick := Suc (tick w)\<rparr>"
  obtain r where r: "relay e (Some cfg) (sn_from_addr sn) (sn_rcpt_to sn) raw ?w1 = Inr r"
    using e by (rule relay_total)
  let ?no = "sn_attempts sn + int (length (?p # tried st))"
  let ?a = "\<lparr>att_id = next_rowid att_id (delivery_attempts (db w)), att_message_id = mid, attempt_no = ?no,
        att_provider = Some ?p, started_at = clock e (tick w), finished_at = Some (clock e (Suc (tick w))),
        att_result = classification r, smtp_code = res_code r, att_error = Some (detail r)\<rparr>"
  let ?w2 = "w\<lparr>tick := Suc (Suc (tick w)),
      db := (db w)\<lparr>delivery_attempts := delivery_attempts (db w) @ [?a]\<rparr>\<rparr>"
  let ?st = "st\<lparr>tried := ?p # tried st, made_attempt := True, ts_error := Some (detail r), ts_code := res_code r\<rparr>"
  obtain res w' where w': "settle_attempt e s mid d r ?st ?w2 = (res, w')"
    by (cases "settle_attempt e s mid d r ?st ?w2")
  have run: "one_attempt e s mid sn raw d st w = (Inr res, w')"
    using mid new cfg r w'
    by (simp add: one_attempt_def Let_def utcnow_def record_attempt_unfold)
  note E = settle_attempt_effect [OF w'] and M = settle_messages [OF w']
  have "work_frame w ?w2" by (simp add: work_frame_def)
  then have wf: "work_frame w w'" using E(2) by (auto simp: log_frame_def intro: work_frame_trans)
  have cap: "capacity_ok w \<Longrightarrow> capacity_ok w'"
    using E(3) by (simp add: capacity_ok_def quota_nonneg_def quota_of_def)
  have "attempt_logged mid (sn_attempts sn + int (length (tried st)) + 1) ?p w ?a w'"
    using E(2) by (simp add: attempt_logged_def log_frame_def)
  moreover have "case res of
       None \<Rightarrow> att_result ?a = Sent \<and> (\<exists>t. messages (db w') =
         update_where (\<lambda>m. msg_id m = mid) (sent_row ?p t) (messages (db w)))
     | Some st' \<Rightarrow> att_result ?a \<noteq> Sent \<and> st' = after_attempt ?a st \<and> messages (db w') = messages (db w)"
    using M by (auto simp: relay_ok_def after_attempt_def split: option.splits)
  ultimately show ?thesis using run E(1) wf cap
    by (intro exI [of _ res] exI [of _ w'] exI [of _ ?a]) simp
qed

section \<open>The failover loop\<close>

abbreviation prov :: "delivery_attempt \<Rightarrow> string" where
  "prov a \<equiv> the (att_provider a)"

text \<open>Log rows of one message, numbered from \<open>no\<close>.\<close>

fun numbered :: "int \<Rightarrow> int \<Rightarrow> delivery_attempt list \<Rightarrow> bool" where
  "numbered mid no [] = True"
| "numbered mid no (a # as) \<longleftrightarrow>
     att_message_id a = mid \<and> attempt_no a = no \<and> att_provider a \<noteq> None \<and> numbered mid (no + 1) as"

text \<open>The rows \<open>new\<close> were logged between \<open>w\<close> and \<open>w'\<close>: each for another enabled provider, none of
  them in \<open>excl\<close>, and every slot that was taken has been given back.\<close>

definition log_ids_ok :: "world \<Rightarrow> bool" where
  "log_ids_ok w \<longleftrightarrow> distinct (map att_id (delivery_attempts (db w)))"

lemma log_ids_ok_cong: "delivery_attempts (db w') = delivery_attempts (db w) \<Longrightarrow> log_ids_ok w' = log_ids_ok w"
  by (simp add: log_ids_ok_def)

lemma log_ids_ok_tick [simp]: "log_ids_ok (w\<lparr>tick := n\<rparr>) = log_ids_ok w"
  by (simp add: log_ids_ok_def)

definition attempts_made ::
  "settings \<Rightarrow> int \<Rightarrow> int \<Rightarrow> string set \<Rightarrow> world \<Rightarrow> delivery_attempt list \<Rightarrow> world \<Rightarrow> bool" where
  "attempts_made s mid no excl w new w' \<longleftrightarrow>
     inflight w' = inflight w \<and> work_frame w w' \<and> capacity_ok w' \<and>
     delivery_attempts (db w') = delivery_attempts (db w) @ new \<and>
     numbered mid no new \<and> distinct (map prov new) \<and> set (map prov new) \<inter> excl = {} \<and>
     set (map prov new) \<subseteq> set (candidate_names s w) \<and>
     (log_ids_ok w \<longrightarrow> log_ids_ok w')"

definition loop_end ::
  "int \<Rightarrow> tick_state \<Rightarrow> world \<Rightarrow> delivery_attempt list \<Rightarrow> tick_state option \<Rightarrow> world \<Rightarrow> bool" where
  "loop_end mid st w new res w' \<longleftrightarrow>
     (case res of
        None \<Rightarrow> \<exists>failed a t. new = failed @ [a] \<and> att_result a = Sent \<and>
          list_all (\<lambda>b. att_result b \<noteq> Sent) failed \<and>
          messages (db w') = update_where (\<lambda>m. msg_id m = mid) (sent_row (prov a) t) (messages (db w))
      | Some st' \<Rightarrow> list_all (\<lambda>b. att_result b \<noteq> Sent) new \<and> st' = fold after_attempt new st \<and>
          messages (db w') = messages (db w))"

lemma after_attempt_tried [simp]: "tried (after_attempt a st) = prov a # tried st"
  by (simp add: after_attempt_def mark_seen_def split: classification.splits)

lemma candidate_names_frame: "work_frame w w' \<Longrightarrow> candidate_names s w' = candidate_names s w"
  using enabled_providers_cong [of w' w s] by (simp add: work_frame_def candidate_names_def)

lemma attempts_made_Nil: "capacity_ok w \<Longrightarrow> attempts_made s mid no excl w [] w"
  by (simp add: attempts_made_def)

lemma attempts_made_view:
  assumes "view_eq w w'" "capacity_ok w"
  shows "attempts_made s mid no excl w [] w'"
  using assms view_eq_capacity_ok [OF assms(1)]
  by (simp add: attempts_made_def view_eq_def route_work_frame) (simp add: route_frame_def log_ids_ok_def)

lemma attempts_made_Cons:
  assumes a: "attempt_logged mid no p w a v" and i: "inflight v = inflight w" and f: "work_frame w v"
    and p: "p \<notin> excl" "p \<in> set (candidate_names s w)"
    and rest: "attempts_made s mid (no + 1) (insert p excl) v new w'"
  shows "attempts_made s mid no excl w (a # new) w'"
proof -
  have c: "candidate_names s v = candidate_names s w" using f by (rule candidate_names_frame)
  have dv: "log_ids_ok w \<Longrightarrow> log_ids_ok v"
    using a next_rowid_notin [of att_id "delivery_attempts (db w)"]
    by (auto simp: attempt_logged_def log_ids_ok_def)
  have rd: "log_ids_ok v \<longrightarrow> log_ids_ok w'" and vf: "work_frame v w'"
    using rest unfolding attempts_made_def by - (elim conjE; assumption)+
  have d: "log_ids_ok w \<longrightarrow> log_ids_ok w'" using dv rd by blast
  have "work_frame w w'" by (rule work_frame_trans [OF f vf])
  moreover have "delivery_attempts (db w') = delivery_attempts (db w) @ a # new"
    "numbered mid no (a # new)" "capacity_ok w'" "inflight w' = inflight w"
    using a rest i by (simp_all add: attempts_made_def attempt_logged_def)
  moreover have "distinct (map prov (a # new))" "set (map prov (a # new)) \<inter> excl = {}"
    "set (map prov (a # new)) \<subseteq> set (candidate_names s w)"
    using a rest p c by (auto simp: attempts_made_def attempt_logged_def)
  ultimately show ?thesis using d unfolding attempts_made_def by blast
qed

lemma loop_end_Cons:
  assumes "att_result a \<noteq> Sent" "messages (db v) = messages (db w)"
    "loop_end mid (after_attempt a st) v new res w'"
  shows "loop_end mid st w (a # new) res w'"
proof (cases res)
  case None
  then obtain failed b t where "new = failed @ [b]" "att_result b = Sent"
    "list_all (\<lambda>b. att_result b \<noteq> Sent) failed"
    "messages (db w') = update_where (\<lambda>m. msg_id m = mid) (sent_row (prov b) t) (messages (db w))"
    using assms by (auto simp: loop_end_def)
  then show ?thesis using assms(1) None
    by (auto simp: loop_end_def intro!: exI [of _ "a # failed"] exI [of _ b] exI [of _ t])
qed (use assms in \<open>simp add: loop_end_def\<close>)

lemma registry_known: "valid_settings s \<Longrightarrow> provider s n = Some cfg \<Longrightarrow> registry_get s n = Some cfg"
  by (simp add: registry_get_valid)

text \<open>The effect of the whole loop, by induction on the number of iterations left.\<close>

text \<open>One round of the loop: the provider that was selected is offered the message.\<close>

lemma failover_round:
  assumes s: "valid_settings s" and e: "smtp_only e" and cap: "capacity_ok w" and mid: "mid \<in> msg_id ` set (messages (db w))"
    and sel: "select e s (set (tried st)) w = (Inr (Some d), v)"
  obtains res v' a where "one_attempt e s mid sn raw d st v = (Inr res, v')" "inflight v' = inflight w" "work_frame w v'" "capacity_ok v'"
    "attempt_logged mid (sn_attempts sn + int (length (tried st)) + 1) (rd_provider d) w a v'" "prov a = rd_provider d"
    "rd_provider d \<notin> set (tried st)" "rd_provider d \<in> set (candidate_names s w)"
    "case res of
        None \<Rightarrow> att_result a = Sent \<and> (\<exists>t. messages (db v') =
          update_where (\<lambda>m. msg_id m = mid) (sent_row (rd_provider d) t) (messages (db w)))
      | Some st' \<Rightarrow> att_result a \<noteq> Sent \<and> st' = after_attempt a st \<and> messages (db v') = messages (db w)"
proof -
  let ?no = "sn_attempts sn + int (length (tried st)) + 1"
  obtain pre cfg post k m where D: "enabled_providers s w = pre @ cfg # post"
    "list_all (passed_over e s (set (tried st)) w) pre" "rd_provider d = prov_name cfg"
    "res_provider (rd_reservation d) = prov_name cfg" "prov_name cfg \<notin> set (tried st)"
    "inflight v = (inflight w)(prov_name cfg := inflight w (prov_name cfg) + 1)"
    "route_frame w v" "tick w \<le> k" "tick w \<le> m" "fit_at e s w cfg k m"
    "provider s (prov_name cfg) = Some cfg"
    using sel s cap by (rule select_SomeD)
  have cv: "capacity_ok v" by (rule select_capacity_ok [OF sel s cap])
  have mv: "messages (db v) = messages (db w)" by (rule route_messages [OF D(7)])
  have known: "registry_get s (rd_provider d) = Some cfg" using registry_known [OF s D(11)] D(3) by simp
  have new: "rd_provider d \<notin> set (tried st)" using D by simp
  obtain res v' a where A: "one_attempt e s mid sn raw d st v = (Inr res, v')"
    and i: "inflight v' = (inflight v)(res_provider (rd_reservation d) :=
         max 0 (inflight v (res_provider (rd_reservation d)) - 1))"
    and f: "work_frame v v'" and c: "capacity_ok v \<longrightarrow> capacity_ok v'" and l: "attempt_logged mid ?no (rd_provider d) v a v'"
    and R: "case res of
        None \<Rightarrow> att_result a = Sent \<and> (\<exists>t. messages (db v') =
          update_where (\<lambda>m. msg_id m = mid) (sent_row (rd_provider d) t) (messages (db v)))
      | Some st' \<Rightarrow> att_result a \<noteq> Sent \<and> st' = after_attempt a st \<and> messages (db v') = messages (db v)"
    using one_attempt_effect [OF _ e known new, of mid v sn raw] mid by (auto simp: mv)
  have "0 \<le> inflight w (prov_name cfg)" using cap by (simp add: capacity_ok_def)
  then have "inflight v' = inflight w" using i D(4,6) by (simp add: fun_eq_iff)
  moreover have "work_frame w v'" by (rule work_frame_trans [OF route_work_frame [OF D(7)] f])
  moreover have "attempt_logged mid ?no (rd_provider d) w a v'" "prov a = rd_provider d"
    using l D(7) by (simp_all add: attempt_logged_def route_frame_def)
  moreover have "rd_provider d \<in> set (candidate_names s w)" using D by (simp add: candidate_names_def)
  ultimately show thesis using that A c cv new R [unfolded mv] by blast
qed

lemma failover_effect:
  assumes s: "valid_settings s" and e: "smtp_only e" and "capacity_ok w"
    and "mid \<in> msg_id ` set (messages (db w))"
  shows "\<exists>res w' new. failover e s mid sn raw n st w = (Inr res, w') \<and> length new \<le> n \<and>
    attempts_made s mid (sn_attempts sn + int (length (tried st)) + 1) (set (tried st)) w new w' \<and>
    loop_end mid st w new res w' \<and>
    (res = None \<or> length new = n \<or> (\<exists>v. select e s (set (tried (the res))) v = (Inr None, w')))"
  using assms(3,4)
proof (induction n arbitrary: st w)
  case 0
  then show ?case
    by (intro exI [of _ "Some st"] exI [of _ w] exI [of _ "[]"]) (simp add: attempts_made_Nil loop_end_def)
next
  case (Suc n)
  obtain r v where sel: "select e s (set (tried st)) w = (Inr r, v)"
    using select_not_Inl [OF s, of e "set (tried st)" w] by (metis old.prod.exhaust old.sum.exhaust)
  show ?case
  proof (cases r)
    case None
    have v: "view_eq w v" using select_NoneD [OF sel [unfolded None] s Suc.prems(1)] by simp
    have "messages (db v) = messages (db w)" using v by (simp add: view_eq_def route_messages)
    then show ?thesis using attempts_made_view [OF v Suc.prems(1)] sel None
      by (intro exI [of _ "Some st"] exI [of _ v] exI [of _ "[]"]) (auto simp: loop_end_def)
  next
    case (Some d)
    obtain res v' a where A: "one_attempt e s mid sn raw d st v = (Inr res, v')" "inflight v' = inflight w" "work_frame w v'" "capacity_ok v'"
      "attempt_logged mid (sn_attempts sn + int (length (tried st)) + 1) (rd_provider d) w a v'" "prov a = rd_provider d"
      "rd_provider d \<notin> set (tried st)" "rd_provider d \<in> set (candidate_names s w)"
      and R: "case res of
        None \<Rightarrow> att_result a = Sent \<and> (\<exists>t. messages (db v') =
          update_where (\<lambda>m. msg_id m = mid) (sent_row (rd_provider d) t) (messages (db w)))
      | Some st' \<Rightarrow> att_result a \<noteq> Sent \<and> st' = after_attempt a st \<and> messages (db v') = messages (db w)"
      using s e Suc.prems sel [unfolded Some] by (rule failover_round)
    note CONS = attempts_made_Cons [OF A(5,2,3,7,8)]
    show ?thesis
    proof (cases res)
      case None
      have "loop_end mid st w [a] None v'" using R None by (auto simp: loop_end_def A(6))
      then show ?thesis using sel Some A(1) None CONS [OF attempts_made_Nil [OF A(4)]]
        by (intro exI [of _ None] exI [of _ v'] exI [of _ "[a]"]) simp
    next
      case st': (Some st')
      have r: "att_result a \<noteq> Sent" "st' = after_attempt a st" "messages (db v') = messages (db w)" using R st' by simp_all
      obtain res' w' new' where B: "failover e s mid sn raw n st' v' = (Inr res', w')" "length new' \<le> n"
        "attempts_made s mid (sn_attempts sn + int (length (tried st)) + 1 + 1) (insert (rd_provider d) (set (tried st))) v' new' w'"
        "loop_end mid st' v' new' res' w'"
        "res' = None \<or> length new' = n \<or> (\<exists>v. select e s (set (tried (the res'))) v = (Inr None, w'))"
        using Suc.IH [of v' st'] A(4,6) Suc.prems(2) by (auto simp: r(2,3) algebra_simps)
      show ?thesis using sel Some A(1) st' B(1,2,5) CONS [OF B(3)] loop_end_Cons [OF r(1,3) B(4) [unfolded r(2)]]
        by (intro exI [of _ res'] exI [of _ w'] exI [of _ "a # new'"]) auto
    qed
  qed
qed

section \<open>The end of a tick without a delivery\<close>

lemma fold_after_attempt:
  "tried (fold after_attempt new st) = rev (map prov new) @ tried st"
  "made_attempt (fold after_attempt new st) \<longleftrightarrow> made_attempt st \<or> new \<noteq> []"
  "saw_connect (fold after_attempt new st) \<longleftrightarrow> saw_connect st \<or> list_ex (\<lambda>a. att_result a = Connect_error) new"
  "saw_transient (fold after_attempt new st) \<longleftrightarrow> saw_transient st \<or> list_ex (\<lambda>a. att_result a = Transient) new"
  by (induction new arbitrary: st)
     (auto simp: after_attempt_def mark_seen_def split: classification.splits)

definition retry_delay :: "'e env_scheme \<Rightarrow> settings \<Rightarrow> int \<Rightarrow> nat \<Rightarrow> rat" where
  "retry_delay e s n k =
     (let rt = retry (dispatch s)
      in backoff_delay n (base_delay_seconds rt) (max_delay_seconds rt) (jitter_ratio rt)
           (if jitter_ratio rt \<le> 0 then 0 else rand e k))"

definition hold_delay :: "settings \<Rightarrow> rat" where
  "hold_delay s = fl (of_int (no_capacity_backoff_seconds (dispatch s)))"

text \<open>The four ways \<open>_handle_no_success\<close> can end.\<close>

lemma handle_no_success_cases:
  assumes "handle_no_success e s mid sn st w = w'"
  obtains (hold) "\<not> made_attempt st"
      "w' = reschedule e mid (hold_delay s) (Some ''no provider capacity'') False w"
  | (reject) "made_attempt st" "\<not> saw_transient st" "\<not> saw_connect st"
      "set (candidate_names s w) \<subseteq> set (tried st)" "w' = deadletter mid ''rejected'' (ts_error st) w"
  | (give_up) "made_attempt st" "sn_attempts sn + 1 \<ge> max_attempts (retry (dispatch s))"
      "w' = deadletter mid ''max_attempts'' (ts_error st) w"
  | (late) k n where "made_attempt st" "tick w \<le> n" "n < k"
      "clock e n + timedelta_seconds (retry_delay e s (sn_attempts sn + 1) (tick w)) \<ge>
         sn_received_at sn + hours_td (max_age_hours (retry (dispatch s)))"
      "w' = deadletter mid ''expired'' (ts_error st) (w\<lparr>tick := k\<rparr>)"
  | (again) k where "made_attempt st" "sn_attempts sn + 1 < max_attempts (retry (dispatch s))" "tick w \<le> k"
      "w' = reschedule e mid (retry_delay e s (sn_attempts sn + 1) (tick w)) (ts_error st) True (w\<lparr>tick := k\<rparr>)"
proof -
  let ?rt = "retry (dispatch s)" and ?no = "sn_attempts sn + 1"
  let ?t = "if jitter_ratio ?rt \<le> 0 then tick w else Suc (tick w)"
  have dj: "draw_jitter e ?rt w = (if jitter_ratio ?rt \<le> 0 then 0 else rand e (tick w), w\<lparr>tick := ?t\<rparr>)"
    by (simp add: draw_jitter_def random_random_def)
  have dl: "backoff_delay ?no (base_delay_seconds ?rt) (max_delay_seconds ?rt) (jitter_ratio ?rt)
      (if jitter_ratio ?rt \<le> 0 then 0 else rand e (tick w)) = retry_delay e s ?no (tick w)"
    by (simp add: retry_delay_def Let_def)
  let ?oe = "(saw_permanent st \<and> \<not> saw_transient st \<and> \<not> saw_connect st) \<and>
        set (candidate_names s w) \<subseteq> set (tried st)"
  let ?v = "w\<lparr>tick := Suc ?t\<rparr>"
  have rest: "w' = (if ?no \<ge> max_attempts ?rt then deadletter mid ''max_attempts'' (ts_error st) w
      else if clock e ?t + timedelta_seconds (retry_delay e s ?no (tick w)) \<ge>
          sn_received_at sn + hours_td (max_age_hours ?rt)
        then deadletter mid ''expired'' (ts_error st) ?v
        else reschedule e mid (retry_delay e s ?no (tick w)) (ts_error st) True ?v)"
    if m: "made_attempt st" and n: "\<not> ?oe"
    unfolding assms [symmetric] handle_no_success_def Let_def if_not_P [OF n] dj dl [symmetric]
    by (simp add: m utcnow_def)
  consider "\<not> made_attempt st"
    | "made_attempt st" "saw_permanent st \<and> \<not> saw_transient st \<and> \<not> saw_connect st"
      "set (candidate_names s w) \<subseteq> set (tried st)"
    | "made_attempt st" "\<not> ?oe" "?no \<ge> max_attempts ?rt"
    | "made_attempt st" "\<not> ?oe" "?no < max_attempts ?rt"
    by linarith
  then show thesis
  proof cases
    case 1
    then show thesis using assms by (intro hold) (simp_all add: handle_no_success_def Let_def hold_delay_def)
  next
    case 2
    then show thesis using assms by (intro reject) (simp_all add: handle_no_success_def Let_def)
  next
    case 3
    then show thesis using rest by (intro give_up) simp_all
  next
    case 4
    have w': "w' = (if clock e ?t + timedelta_seconds (retry_delay e s ?no (tick w)) \<ge>
          sn_received_at sn + hours_td (max_age_hours ?rt)
        then deadletter mid ''expired'' (ts_error st) ?v
        else reschedule e mid (retry_delay e s ?no (tick w)) (ts_error st) True ?v)"
      using rest [OF 4(1,2)] 4(3) by simp
    show thesis
    proof (cases "clock e ?t + timedelta_seconds (retry_delay e s ?no (tick w)) \<ge>
          sn_received_at sn + hours_td (max_age_hours ?rt)")
      case True
      then show thesis using 4 w' by (intro late [of ?t "Suc ?t"]) simp_all
    next
      case False
      then show thesis using 4 w' by (intro again [of "Suc ?t"]) simp_all
    qed
  qed
qed

section \<open>The outcome of a tick\<close>

text \<open>A held message, a message scheduled for a retry, and the reasons to give a message up; \<open>new\<close>
  are the attempts of this tick.\<close>

definition held :: "'e env_scheme \<Rightarrow> settings \<Rightarrow> world \<Rightarrow> message \<Rightarrow> message \<Rightarrow> bool" where
  "held e s w m m' \<longleftrightarrow> attempts m' = attempts m \<and> last_error m' = Some ''no provider capacity'' \<and>
     (\<exists>n\<ge>tick w. next_attempt_at m' = clock e n + timedelta_seconds (hold_delay s))"

definition retried :: "'e env_scheme \<Rightarrow> settings \<Rightarrow> world \<Rightarrow> message \<Rightarrow> message \<Rightarrow> bool" where
  "retried e s w m m' \<longleftrightarrow>
     attempts m' = attempts m + 1 \<and> attempts m' < max_attempts (retry (dispatch s)) \<and>
     (\<exists>n\<ge>tick w. \<exists>k. next_attempt_at m' = clock e n + timedelta_seconds (retry_delay e s (attempts m') k))"

definition dead_for ::
  "'e env_scheme \<Rightarrow> settings \<Rightarrow> world \<Rightarrow> message \<Rightarrow> delivery_attempt list \<Rightarrow> bool" where
  "dead_for e s w m new \<longleftrightarrow>
     spool w (spool_path m) = None \<or>
     clock e (tick w) > received_at m + hours_td (max_age_hours (retry (dispatch s))) \<or>
     new \<noteq> [] \<and>
       (list_all (\<lambda>a. att_result a = Permanent) new \<and> set (candidate_names s w) \<subseteq> set (map prov new) \<or>
        attempts m + 1 \<ge> max_attempts (retry (dispatch s)) \<or>
        (\<exists>n\<ge>tick w. \<exists>k. clock e n + timedelta_seconds (retry_delay e s (attempts m + 1) k) \<ge>
           received_at m + hours_td (max_age_hours (retry (dispatch s)))))"

definition row_outcome ::
  "'e env_scheme \<Rightarrow> settings \<Rightarrow> world \<Rightarrow> message \<Rightarrow> delivery_attempt list \<Rightarrow> message \<Rightarrow> bool" where
  "row_outcome e s w m new m' \<longleftrightarrow>
     (case status m' of
        SENT \<Rightarrow> new \<noteq> [] \<and> att_result (last new) = Sent \<and> provider_used m' = att_provider (last new) \<and>
          list_all (\<lambda>a. att_result a \<noteq> Sent) (butlast new) \<and> attempts m' = attempts m
      | QUEUED \<Rightarrow> list_all (\<lambda>a. att_result a \<noteq> Sent) new \<and>
          (if new = [] then held e s w m m' else retried e s w m m')
      | DEADLETTER \<Rightarrow> list_all (\<lambda>a. att_result a \<noteq> Sent) new \<and> dead_for e s w m new
      | SENDING \<Rightarrow> False)"

lemma reschedule_row:
  assumes "msg_of w mid = Some m"
  obtains m' where "row_changed mid w m m' (reschedule e mid d err b w)" "status m' = QUEUED"
    "attempts m' = (if b then attempts m + 1 else attempts m)"
    "next_attempt_at m' = clock e (tick w) + timedelta_seconds d"
    "last_error m' = none_if_empty (take 2000 (str_or_empty err))"
  using resched.changes_row [of w "(mid, d, err, b)" m e] assms
  by (intro that [of "m\<lparr>status := QUEUED, next_attempt_at := clock e (tick w) + timedelta_seconds d,
        last_error := none_if_empty (take 2000 (str_or_empty err)), claimed_at := None,
        attempts := (if b then attempts m + 1 else attempts m)\<rparr>"]) simp_all

lemma deadletter_row:
  assumes "msg_of w mid = Some m"
  obtains m' where "row_changed mid w m m' (deadletter mid reason dt w)" "status m' = DEADLETTER"
  using dead.changes_row [of w "(mid, reason, dt)" m] assms
  by (intro that [of "m\<lparr>status := DEADLETTER,
        last_error := Some (take 2000 (strip (''['' @ reason @ ''] '' @ str_or_empty dt))),
        claimed_at := None\<rparr>"]) simp_all

lemma reschedule_store: "store_frame w (reschedule e mid d err b w)"
  using resched.write_frame [of w e "(mid, d, err, b)"] by simp

lemma deadletter_store: "store_frame w (deadletter mid r dt w)"
  using dead.write_frame [of w "(mid, r, dt)"] by simp

lemma store_frame_tick: "store_frame (w\<lparr>tick := k\<rparr>) w' \<Longrightarrow> tick w \<le> k \<Longrightarrow> store_frame w w'"
  by (auto simp: store_frame_def)

lemma all_permanent:
  assumes "list_all (\<lambda>a. att_result a \<noteq> Sent) new" "\<not> list_ex (\<lambda>a. att_result a = Connect_error) new"
    "\<not> list_ex (\<lambda>a. att_result a = Transient) new"
  shows "list_all (\<lambda>a. att_result a = Permanent) new"
proof -
  have "att_result a = Permanent" if "a \<in> set new" for a
    using assms that by (cases "att_result a") (auto simp: list_all_iff list_ex_iff)
  then show ?thesis by (simp add: list_all_iff)
qed

text \<open>The row after a tick without a delivery. \<open>w0\<close> is the world before the tick.\<close>

text \<open>The two writes after further readings of the clock.\<close>

lemma row_changed_tick: "row_changed mid (w\<lparr>tick := k\<rparr>) m m' v \<Longrightarrow> row_changed mid w m m' v"
  by (simp add: row_changed_def msg_of_def)

lemma deadletter_later:
  assumes "msg_of w mid = Some m" "tick w \<le> k"
  obtains m' where "row_changed mid w m m' (deadletter mid reason dt (w\<lparr>tick := k\<rparr>))" "status m' = DEADLETTER"
    "store_frame w (deadletter mid reason dt (w\<lparr>tick := k\<rparr>))"
proof -
  have "msg_of (w\<lparr>tick := k\<rparr>) mid = Some m" using assms(1) by (simp add: msg_of_def)
  then obtain m' where r: "row_changed mid (w\<lparr>tick := k\<rparr>) m m' (deadletter mid reason dt (w\<lparr>tick := k\<rparr>))" "status m' = DEADLETTER"
    by (rule deadletter_row)
  show thesis by (rule that [OF row_changed_tick [OF r(1)] r(2) store_frame_tick [OF deadletter_store assms(2)]])
qed

lemma reschedule_later:
  assumes "msg_of w mid = Some m" "tick w \<le> k"
  obtains m' where "row_changed mid w m m' (reschedule e mid delay err True (w\<lparr>tick := k\<rparr>))" "status m' = QUEUED"
    "attempts m' = attempts m + 1" "next_attempt_at m' = clock e k + timedelta_seconds delay"
    "store_frame w (reschedule e mid delay err True (w\<lparr>tick := k\<rparr>))"
proof -
  have "msg_of (w\<lparr>tick := k\<rparr>) mid = Some m" using assms(1) by (simp add: msg_of_def)
  then obtain m' where r: "row_changed mid (w\<lparr>tick := k\<rparr>) m m' (reschedule e mid delay err True (w\<lparr>tick := k\<rparr>))" "status m' = QUEUED"
    "attempts m' = (if True then attempts m + 1 else attempts m)"
    "next_attempt_at m' = clock e (tick (w\<lparr>tick := k\<rparr>)) + timedelta_seconds delay"
    "last_error m' = none_if_empty (take 2000 (str_or_empty err))"
    by (rule reschedule_row)
  show thesis by (rule that [OF row_changed_tick [OF r(1)] r(2) _ _ store_frame_tick [OF reschedule_store assms(2)]]) (use r(3,4) in simp_all)
qed

lemma no_success_row:
  assumes m: "msg_of w mid = Some m" and st: "st = fold after_attempt new fresh_tick"
    and ns: "list_all (\<lambda>a. att_result a \<noteq> Sent) new" and f: "work_frame w0 w"
  shows "\<exists>m'. row_changed mid w m m' (handle_no_success e s mid (from_row m) st w) \<and>
    row_outcome e s w0 m new m' \<and> store_frame w (handle_no_success e s mid (from_row m) st w)"
proof -
  let ?w' = "handle_no_success e s mid (from_row m) st w"
  have t0: "tick w0 \<le> tick w" using f by (simp add: work_frame_def)
  have cn: "candidate_names s w = candidate_names s w0" using f by (rule candidate_names_frame)
  have made: "made_attempt st \<longleftrightarrow> new \<noteq> []" and tr: "set (tried st) = set (map prov new)"
    and sc: "saw_connect st \<longleftrightarrow> list_ex (\<lambda>a. att_result a = Connect_error) new"
    and sx: "saw_transient st \<longleftrightarrow> list_ex (\<lambda>a. att_result a = Transient) new"
    by (simp_all add: st fold_after_attempt fresh_tick_def)
  have sn: "sn_attempts (from_row m) = attempts m" "sn_received_at (from_row m) = received_at m"
    by (simp_all add: from_row_def)
  have "handle_no_success e s mid (from_row m) st w = ?w'" by (rule refl)
  then show ?thesis
  proof (cases rule: handle_no_success_cases)
    case hold
    obtain m' where r: "row_changed mid w m m' ?w'" "status m' = QUEUED"
      "attempts m' = (if False then attempts m + 1 else attempts m)"
      "next_attempt_at m' = clock e (tick w) + timedelta_seconds (hold_delay s)"
      "last_error m' = none_if_empty (take 2000 (str_or_empty (Some ''no provider capacity'')))"
      unfolding hold(2) by (rule reschedule_row [OF m])
    from r(5) have m'_err: "last_error m' = Some ''no provider capacity''"
      by (simp add: none_if_empty_def str_or_empty_def)
    note m' = r(1-4) m'_err
    then have "row_outcome e s w0 m new m'" using hold(1) made ns t0 by (auto simp: row_outcome_def held_def)
    with m'(1) show ?thesis unfolding hold(2) using reschedule_store by blast
  next
    case reject
    obtain m' where m': "row_changed mid w m m' ?w'" "status m' = DEADLETTER"
      unfolding reject(5) by (rule deadletter_row [OF m])
    have "list_all (\<lambda>a. att_result a = Permanent) new"
      using all_permanent [OF ns] reject(2,3) sc sx by simp
    then have "row_outcome e s w0 m new m'"
      using m'(2) ns made reject(1,4) tr by (simp add: row_outcome_def dead_for_def cn)
    with m'(1) show ?thesis unfolding reject(5) using deadletter_store by blast
  next
    case give_up
    obtain m' where m': "row_changed mid w m m' ?w'" "status m' = DEADLETTER"
      unfolding give_up(3) by (rule deadletter_row [OF m])
    then have "row_outcome e s w0 m new m'"
      using ns made give_up(1,2) by (simp add: row_outcome_def dead_for_def sn)
    with m'(1) show ?thesis unfolding give_up(3) using deadletter_store by blast
  next
    case (late k n)
    obtain m' where m': "row_changed mid w m m' ?w'" "status m' = DEADLETTER" "store_frame w ?w'"
      unfolding late(5) by (rule deadletter_later [OF m order_trans [OF late(2) less_imp_le [OF late(3)]]])
    have "\<exists>n\<ge>tick w0. \<exists>j. clock e n + timedelta_seconds (retry_delay e s (attempts m + 1) j) \<ge>
        received_at m + hours_td (max_age_hours (retry (dispatch s)))"
      using late(2,4) t0 by (intro exI [of _ n]) (auto simp: sn)
    then have "row_outcome e s w0 m new m'"
      using m'(2) ns made late(1) by (simp add: row_outcome_def dead_for_def)
    then show ?thesis using m'(1,3) by blast
  next
    case (again k)
    obtain m' where m': "row_changed mid w m m' ?w'" "status m' = QUEUED" "attempts m' = attempts m + 1"
      "next_attempt_at m' = clock e k + timedelta_seconds (retry_delay e s (attempts m + 1) (tick w))" "store_frame w ?w'"
      unfolding again(4) sn by (rule reschedule_later [OF m again(3)])
    have "retried e s w0 m m'"
      unfolding retried_def using m'(3,4) again(2,3) t0
      by (intro conjI exI [of _ k] exI [of _ "tick w"]) (simp_all add: sn)
    then have "row_outcome e s w0 m new m'" using m'(2) ns made again(1) by (simp add: row_outcome_def)
    then show ?thesis using m'(1,5) by blast
  qed
qed

lemma msg_of_in: "msg_of w mid = Some m \<Longrightarrow> mid \<in> msg_id ` set (messages (db w))"
  unfolding msg_of_def using get_by_Some_in by fastforce

lemma msg_of_cong: "messages (db w') = messages (db w) \<Longrightarrow> msg_of w' = msg_of w"
  by (simp add: msg_of_def fun_eq_iff)

lemma row_changed_cong:
  "messages (db w) = messages (db v) \<Longrightarrow> row_changed mid w m m' w' \<Longrightarrow> row_changed mid v m m' w'"
  by (simp add: row_changed_def msg_of_def)

lemma attempts_made_tick:
  "attempts_made s mid no excl (w\<lparr>tick := Suc (tick w)\<rparr>) new w' \<Longrightarrow> attempts_made s mid no excl w new w'"
  using candidate_names_frame [of w "w\<lparr>tick := Suc (tick w)\<rparr>" s]
  by (simp add: attempts_made_def work_frame_def)

lemma attempts_made_store:
  assumes "attempts_made s mid no excl w new v" "store_frame v w'"
  shows "attempts_made s mid no excl w new w'"
  using assms work_frame_trans [OF _ store_work_frame [OF assms(2)]]
  by (auto simp: attempts_made_def store_frame_fields store_frame_db store_capacity_ok
      log_ids_ok_cong [OF store_frame_db(1)])

text \<open>Everything one call of \<open>_process\<close> does to a message that is not yet terminal.\<close>

text \<open>What a call of \<open>process\<close> leaves behind: the row of the message and the attempts in the log.\<close>

definition tick_effect ::
  "'e env_scheme \<Rightarrow> settings \<Rightarrow> int \<Rightarrow> world \<Rightarrow> message \<Rightarrow> message \<Rightarrow> delivery_attempt list \<Rightarrow> world \<Rightarrow> bool" where
  "tick_effect e s mid w m m' new w' \<longleftrightarrow>
     row_changed mid w m m' w' \<and> row_outcome e s w m new m' \<and> attempts_made s mid (attempts m + 1) {} w new w'"

lemma dead_effect:
  assumes "msg_of w mid = Some m" "capacity_ok w" "dead_for e s w m []"
  shows "\<exists>m'. tick_effect e s mid w m m' [] (deadletter mid reason dt (w\<lparr>tick := Suc (tick w)\<rparr>))"
proof -
  obtain m' where r: "row_changed mid w m m' (deadletter mid reason dt (w\<lparr>tick := Suc (tick w)\<rparr>))" "status m' = DEADLETTER"
    "store_frame w (deadletter mid reason dt (w\<lparr>tick := Suc (tick w)\<rparr>))"
    by (rule deadletter_later [OF assms(1) le_SucI [OF order_refl]])
  have "attempts_made s mid (attempts m + 1) {} w [] (deadletter mid reason dt (w\<lparr>tick := Suc (tick w)\<rparr>))"
    by (rule attempts_made_store [OF attempts_made_Nil [OF assms(2)] r(3)])
  then show ?thesis using r assms(3) by (auto simp: tick_effect_def row_outcome_def)
qed

lemma sent_effect:
  assumes m: "msg_of w mid = Some m" and am: "attempts_made s mid (attempts m + 1) {} w new v"
    and L: "loop_end mid st (w\<lparr>tick := k\<rparr>) new None v"
  shows "\<exists>m'. tick_effect e s mid w m m' new v"
proof -
  obtain failed a t where A: "new = failed @ [a]" "att_result a = Sent" "list_all (\<lambda>b. att_result b \<noteq> Sent) failed"
    "messages (db v) = update_where (\<lambda>m. msg_id m = mid) (sent_row (prov a) t) (messages (db w))"
    using L by (auto simp: loop_end_def)
  have "row_changed mid w m (sent_row (prov a) t m) v"
    by (rule update_row_changed [OF A(4) _ m]) (simp add: sent_row_def payload_def)
  moreover have "numbered mid no (failed @ [a]) \<Longrightarrow> att_provider a \<noteq> None" for no
    by (induction failed arbitrary: no) auto
  then have "att_provider a \<noteq> None" using am A(1) by (auto simp: attempts_made_def)
  then have "row_outcome e s w m new (sent_row (prov a) t m)" using A by (auto simp: row_outcome_def sent_row_def)
  ultimately show ?thesis using am by (auto simp: tick_effect_def)
qed

lemma unsent_effect:
  assumes m: "msg_of w mid = Some m" and am: "attempts_made s mid (attempts m + 1) {} w new v"
    and L: "loop_end mid fresh_tick (w\<lparr>tick := k\<rparr>) new (Some st) v"
  shows "\<exists>m'. tick_effect e s mid w m m' new (handle_no_success e s mid (from_row m) st v)"
proof -
  have L: "list_all (\<lambda>b. att_result b \<noteq> Sent) new" "st = fold after_attempt new fresh_tick" "messages (db v) = messages (db w)"
    using L by (auto simp: loop_end_def)
  have mv: "msg_of v mid = Some m" using m msg_of_cong [OF L(3)] by simp
  have fv: "work_frame w v" using am by (simp add: attempts_made_def)
  obtain m' where r: "row_changed mid v m m' (handle_no_success e s mid (from_row m) st v)" "row_outcome e s w m new m'"
    "store_frame v (handle_no_success e s mid (from_row m) st v)"
    using no_success_row [OF mv L(2,1) fv, of e s] by blast
  then show ?thesis
    using row_changed_cong [OF L(3) r(1)] attempts_made_store [OF am r(3)] by (auto simp: tick_effect_def)
qed

lemma process_effect:
  assumes s: "valid_settings s" and e: "smtp_only e" and cap: "capacity_ok w"
    and m: "msg_of w mid = Some m" and nt: "\<not> is_terminal (status m)"
  obtains w' m' new where "process e s mid w = (Inr (), w')" "row_changed mid w m m' w'"
    "row_outcome e s w m new m'" "attempts_made s mid (attempts m + 1) {} w new w'"
    "int (length new) \<le> failover_per_tick (dispatch s)"
proof -
  let ?w1 = "w\<lparr>tick := Suc (tick w)\<rparr>" and ?n = "nat (failover_per_tick (dispatch s))"
  have fp: "0 < failover_per_tick (dispatch s)" using s by (simp add: valid_settings_def valid_dispatch_def)
  have m1: "msg_of ?w1 mid = Some m" using m by (simp add: msg_of_def)
  have c1: "capacity_ok ?w1" using cap by simp
  note live = process_def utcnow_def Let_def spool_read_def from_row_def
  note result = that
  have fin: thesis if "process e s mid w = (Inr (), w')" "\<exists>m'. tick_effect e s mid w m m' new w'" "length new \<le> ?n" for w' new
    using that fp result by (auto simp: tick_effect_def)
  consider "spool w (spool_path m) = None"
    | raw where "spool w (spool_path m) = Some raw" "clock e (tick w) - received_at m > hours_td (max_age_hours (retry (dispatch s)))"
    | raw where "spool w (spool_path m) = Some raw" "\<not> clock e (tick w) - received_at m > hours_td (max_age_hours (retry (dispatch s)))"
    by (cases "spool w (spool_path m)") auto
  then show thesis
  proof cases
    case 1
    then have "process e s mid w = (Inr (), deadletter mid ''spool_missing'' None ?w1)" using m nt by (simp add: live)
    then show thesis by (rule fin [OF _ dead_effect [OF m cap]]) (simp_all add: dead_for_def 1)
  next
    case (2 raw)
    then have "process e s mid w = (Inr (), deadletter mid ''expired'' (Some ''message exceeded max age'') ?w1)"
      using m nt by (simp add: live)
    then show thesis using 2 by (elim fin [OF _ dead_effect [OF m cap]]) (auto simp: dead_for_def)
  next
    case (3 raw)
    obtain res v new where F: "failover e s mid (from_row m) raw ?n fresh_tick ?w1 = (Inr res, v)"
      "length new \<le> ?n" "attempts_made s mid (attempts m + 1) {} ?w1 new v" "loop_end mid fresh_tick ?w1 new res v"
      using failover_effect [OF s e c1 msg_of_in [OF m1], of "from_row m" raw ?n fresh_tick]
      by (auto simp: from_row_def fresh_tick_def)
    note am = attempts_made_tick [OF F(3)]
    have run: "process e s mid w = (case res of None \<Rightarrow> (Inr (), v)
        | Some st \<Rightarrow> (Inr (), handle_no_success e s mid (from_row m) st v))"
      using m nt 3 F(1) by (simp add: live split: option.splits)
    show thesis
    proof (cases res)
      case None
      then show thesis using run F(4) by (intro fin [OF _ sent_effect [OF m am] F(2)]) simp_all
    next
      case (Some st)
      then show thesis using run F(4) by (intro fin [OF _ unsent_effect [OF m am] F(2)]) simp_all
    qed
  qed
qed

lemma row_changed_keys:
  assumes "row_changed mid w m m' w'" "attempts_made s mid no excl w new w'" "msg_of w mid = Some m"
    "db_keys (db w)"
  shows "db_keys (db w')"
proof -
  have ids: "map msg_id (messages (db w')) = map msg_id (messages (db w))"
    using assms(1) by (simp add: row_changed_def)
  then have im: "msg_id ` set (messages (db w')) = msg_id ` set (messages (db w))"
    by (metis set_map)
  have num: "numbered mid k new \<Longrightarrow> a \<in> set new \<Longrightarrow> att_message_id a = mid" for k a
    by (induction new arbitrary: k) auto
  have "log_ids_ok w" using assms(4) by (simp add: log_ids_ok_def db_keys_def)
  then have "log_ids_ok w'" using assms(2) by (simp add: attempts_made_def)
  moreover have "att_message_id a \<in> msg_id ` set (messages (db w))" if "a \<in> set (delivery_attempts (db w'))" for a
    using that assms(2,4) num msg_of_in [OF assms(3)] by (auto simp: attempts_made_def db_keys_def)
  moreover have "distinct (map sl_id (send_log (db w')))"
    using assms(2) by (simp add: attempts_made_def capacity_ok_def)
  ultimately show ?thesis using assms(4) by (simp add: db_keys_def ids im log_ids_ok_def)
qed

section \<open>Properties\<close>

definition demo_mid_world :: world where
  "demo_mid_world = (demo_world [(demo_msg 1)\<lparr>status := SENDING\<rparr>, demo_msg 2])\<lparr>
     overrides := [''b'' \<mapsto> Some False]\<rparr>"

definition accepting :: "nat \<Rightarrow> send_kwargs \<Rightarrow> string \<Rightarrow> string list \<Rightarrow> string \<Rightarrow> send_outcome" where
  "accepting = (\<lambda>_ _ _ _ _. Returned [] ''ok'')"

definition rejecting :: "nat \<Rightarrow> send_kwargs \<Rightarrow> string \<Rightarrow> string list \<Rightarrow> string \<Rightarrow> send_outcome" where
  "rejecting = (\<lambda>_ _ _ _ _. Raised (demo_exc [SMTPException, SMTPResponseException] 550))"

lemma demo_smtp_only [simp]: "smtp_only (demo_relay_env accepting)" "smtp_only (demo_relay_env rejecting)"
  by (auto simp: smtp_only_def demo_relay_env_def accepting_def rejecting_def demo_exc_def)

lemma demo_mid_world_facts:
  "capacity_ok demo_mid_world" "msg_of demo_mid_world 1 = Some ((demo_msg 1)\<lparr>status := SENDING\<rparr>)"
  "\<not> is_terminal (status ((demo_msg 1)\<lparr>status := SENDING\<rparr>))"
  by (simp_all add: capacity_ok_def quota_nonneg_def quota_of_def demo_mid_world_def demo_world_def
      init_world_def empty_database_def msg_of_def get_by_def demo_msg_def is_terminal_def)

lemma demo_mid_world_keys: "db_keys (db demo_mid_world)"
  unfolding demo_mid_world_def using demo_world_keys [of "[(demo_msg 1)\<lparr>status := SENDING\<rparr>, demo_msg 2]"]
  by (simp add: demo_msg_def)







subsection \<open>Expiry\<close>

text \<open>No message lives forever. A message that is not terminal and is older than
  \<open>max_age_hours\<close> when it is taken up, or whose spool file is gone, is dead-lettered at once: no
  provider is contacted, nothing is logged or reserved, and nothing else changes.\<close>

theorem expired_message_is_deadlettered:
  assumes "msg_of w mid = Some m" "\<not> is_terminal (status m)"
    and "spool w (spool_path m) = None \<or>
         received_at m + hours_td (max_age_hours (retry (dispatch s))) < clock e (tick w)"
  shows "\<exists>w' m'. process e s mid w = (Inr (), w') \<and> msg_of w' mid = Some m' \<and> status m' = DEADLETTER \<and>
    (\<forall>k. k \<noteq> mid \<longrightarrow> msg_of w' k = msg_of w k) \<and> store_frame w w'"
proof -
  let ?w1 = "w\<lparr>tick := Suc (tick w)\<rparr>"
  obtain reason dt where run: "process e s mid w = (Inr (), deadletter mid reason dt ?w1)"
    using assms by (cases "spool w (spool_path m)")
      (auto simp: process_def utcnow_def Let_def spool_read_def from_row_def)
  have "msg_of ?w1 mid = Some m" using assms(1) by (simp add: msg_of_def)
  then obtain m' where "row_changed mid ?w1 m m' (deadletter mid reason dt ?w1)" "status m' = DEADLETTER"
    by (rule deadletter_row)
  moreover have "store_frame w (deadletter mid reason dt ?w1)"
    by (rule store_frame_tick [OF deadletter_store]) simp
  ultimately show ?thesis using run by (auto simp: row_changed_def msg_of_def)
qed

theorem expired_message_is_deadlettered_witness:
  "\<exists>w' m'. process (demo_relay_env accepting) demo_settings 1 (demo_mid_world\<lparr>spool := Map.empty\<rparr>) = (Inr (), w') \<and>
     msg_of w' 1 = Some m' \<and> status m' = DEADLETTER"
proof -
  have "msg_of (demo_mid_world\<lparr>spool := Map.empty\<rparr>) 1 = Some ((demo_msg 1)\<lparr>status := SENDING\<rparr>)"
    using demo_mid_world_facts(2) by (simp add: msg_of_def)
  from expired_message_is_deadlettered [OF this demo_mid_world_facts(3), of demo_settings "demo_relay_env accepting"]
  show ?thesis by auto
qed

subsection \<open>Capacity\<close>

text \<open>The specification of the route at a frozen clock.\<close>

definition best_provider :: "settings \<Rightarrow> datetime \<Rightarrow> world \<Rightarrow> provider_config option" where
  "best_provider s now w =
     find (\<lambda>c. available_at (circuit_breaker s) now (cb_of w (prov_name c)) \<and>
               can_reserve (limits c) (prov_name c) now now w) (enabled_providers s w)"

lemma can_reserve_tick: "can_reserve l p t t' (w\<lparr>tick := n\<rparr>) = can_reserve l p t t' w"
  by (simp add: can_reserve_def split: option.splits)

lemma best_provider_tick: "best_provider s now (w\<lparr>tick := n\<rparr>) = best_provider s now w"
  using enabled_providers_cong [of "w\<lparr>tick := n\<rparr>" w s] by (simp add: best_provider_def can_reserve_tick)

lemma select_best:
  assumes "valid_settings s" "capacity_ok w" "\<And>n. clock e n = now"
  obtains r w' where "select e s {} w = (Inr r, w')"
    "map_option rd_provider r = map_option prov_name (best_provider s now w)"
  using select_find [OF assms, of "{}"] by (auto simp: best_provider_def)

lemma process_live:
  assumes "msg_of w mid = Some m" "\<not> is_terminal (status m)" "spool w (spool_path m) = Some raw"
    "clock e (tick w) - received_at m \<le> hours_td (max_age_hours (retry (dispatch s)))"
    "0 < failover_per_tick (dispatch s)"
  shows "process e s mid w =
    (case failover e s mid (from_row m) raw (Suc (nat (failover_per_tick (dispatch s) - 1))) fresh_tick
            (w\<lparr>tick := Suc (tick w)\<rparr>) of
       (Inl x, w) \<Rightarrow> (Inl x, w)
     | (Inr None, w) \<Rightarrow> (Inr (), w)
     | (Inr (Some st), w) \<Rightarrow> (Inr (), handle_no_success e s mid (from_row m) st w))"
proof -
  have "nat (failover_per_tick (dispatch s)) = Suc (nat (failover_per_tick (dispatch s) - 1))"
    using assms(5) by simp
  then show ?thesis
    using assms(1-4)
    by (simp add: process_def utcnow_def Let_def spool_read_def from_row_sel del: failover.simps)
qed

text \<open>A lack of capacity costs a message nothing but time. When no enabled provider is
  available and within its limits, the message goes back to the queue, due after exactly
  \<open>no_capacity_backoff_seconds\<close>; its attempt count is unchanged, no attempt is logged, and no
  capacity, breaker state or counter is touched.\<close>

theorem no_capacity_holds_message:
  assumes "valid_settings s" "capacity_ok w" "\<And>n. clock e n = now" "msg_of w mid = Some m"
    and "\<not> is_terminal (status m)" "spool w (spool_path m) = Some raw"
    and "now - received_at m \<le> hours_td (max_age_hours (retry (dispatch s)))"
    and "best_provider s now w = None" "no_capacity_backoff_seconds (dispatch s) \<le> 2 ^ 53"
  shows "\<exists>w' m'. process e s mid w = (Inr (), w') \<and> msg_of w' mid = Some m' \<and> status m' = QUEUED \<and>
    attempts m' = attempts m \<and>
    next_attempt_at m' = now + seconds_td (no_capacity_backoff_seconds (dispatch s)) \<and>
    delivery_attempts (db w') = delivery_attempts (db w) \<and> inflight w' = inflight w \<and>
    send_log (db w') = send_log (db w) \<and> (\<forall>k. quota_of (db w') k = quota_of (db w) k) \<and>
    (\<forall>p. cb_of w' p = cb_of w p)"
proof -
  let ?w1 = "w\<lparr>tick := Suc (tick w)\<rparr>" and ?h = "no_capacity_backoff_seconds (dispatch s)"
  have fp: "0 < failover_per_tick (dispatch s)" and hp: "0 < ?h"
    using assms(1) by (simp_all add: valid_settings_def valid_dispatch_def)
  have c1: "capacity_ok ?w1" using assms(2) by simp
  obtain r v where "select e s {} ?w1 = (Inr r, v)"
    "map_option rd_provider r = map_option prov_name (best_provider s now ?w1)"
    using select_best [OF assms(1) c1 assms(3)] by blast
  then have sel: "select e s {} ?w1 = (Inr None, v)" by (simp add: best_provider_tick assms(8))
  have vv: "view_eq ?w1 v" using select_NoneD [OF sel assms(1) c1] by simp
  have mv: "msg_of v mid = Some m"
    using assms(4) vv route_messages [of ?w1 v] by (simp add: msg_of_def view_eq_def)
  let ?w' = "reschedule e mid (hold_delay s) (Some ''no provider capacity'') False v"
  have run: "process e s mid w = (Inr (), ?w')"
    using sel process_live [OF assms(4,5,6) _ fp, of e] assms(3,7)
    by (simp add: fresh_tick_def handle_no_success_def hold_delay_def)
  have "hold_delay s = of_int ?h" using double.rnd_int [of ?h] assms(9) hp by (simp add: hold_delay_def)
  then have hd: "timedelta_seconds (hold_delay s) = seconds_td ?h"
    by (simp add: seconds_td_def usec_per_second_def)
  obtain m' where m': "row_changed mid v m m' ?w'" "status m' = QUEUED"
    "attempts m' = (if False then attempts m + 1 else attempts m)"
    "next_attempt_at m' = clock e (tick v) + timedelta_seconds (hold_delay s)"
    "last_error m' = none_if_empty (take 2000 (str_or_empty (Some ''no provider capacity'')))"
    by (rule reschedule_row [OF mv])
  note sf = reschedule_store [of v e mid "hold_delay s" "Some ''no provider capacity''" False]
  have "cb_of ?w' p = cb_of v p" for p using store_frame_fields(2) [OF sf] by (simp add: cb_of_def)
  then have "cb_of ?w' p = cb_of w p" for p using vv by (simp add: view_eq_def)
  moreover have "quota_of (db ?w') k = quota_of (db w) k" for k
    using vv quota_of_db_cong [OF store_frame_db(3) [OF sf]] by (cases k) (simp add: view_eq_def)
  ultimately show ?thesis
    using run m' vv hd assms(3) by (intro exI [of _ ?w'] exI [of _ m'])
      (simp add: row_changed_def view_eq_def route_frame_def store_frame_fields [OF sf] store_frame_db [OF sf])
qed

definition frozen_env ::
  "(nat \<Rightarrow> send_kwargs \<Rightarrow> string \<Rightarrow> string list \<Rightarrow> string \<Rightarrow> send_outcome) \<Rightarrow> relay_env" where
  "frozen_env f = (demo_relay_env f)\<lparr>clock := (\<lambda>_. demo_epoch)\<rparr>"

lemma frozen_env_facts [simp]:
  "clock (frozen_env f) n = demo_epoch" "smtp_send (frozen_env f) = f"
  by (simp_all add: frozen_env_def demo_relay_env_def)

lemma demo_mid_world_spool:
  "spool demo_mid_world (spool_path ((demo_msg 1)\<lparr>status := SENDING\<rparr>)) = Some ''m''"
  by (simp add: demo_mid_world_def demo_world_def demo_msg_def)

lemma demo_msg_received [simp]: "received_at ((demo_msg i)\<lparr>status := st\<rparr>) = demo_epoch"
  by (simp add: demo_msg_def)

theorem no_capacity_holds_message_witness:
  "\<exists>w' m'. process (frozen_env accepting) (demo_settings\<lparr>providers := []\<rparr>) 1 demo_mid_world = (Inr (), w') \<and>
     msg_of w' 1 = Some m' \<and> status m' = QUEUED \<and> attempts m' = 0 \<and>
     next_attempt_at m' = demo_epoch + seconds_td 20"
proof -
  let ?s = "demo_settings\<lparr>providers := []\<rparr>"
  have "valid_settings ?s" by code_simp
  moreover have "best_provider ?s demo_epoch demo_mid_world = None"
    by (simp add: best_provider_def enabled_providers_def registry_all_def by_name_def dict_by_def)
  moreover have "no_capacity_backoff_seconds (dispatch ?s) = 20" "max_age_hours (retry (dispatch ?s)) = 48"
    "attempts ((demo_msg 1)\<lparr>status := SENDING\<rparr>) = 0"
    by (simp_all add: demo_settings_def demo_msg_def)
  ultimately show ?thesis
    using no_capacity_holds_message [of ?s demo_mid_world "frozen_env accepting" demo_epoch 1,
        OF _ demo_mid_world_facts(1) _ demo_mid_world_facts(2,3) demo_mid_world_spool]
    by (auto simp: hours_td_def usec_per_second_def)
qed

subsection \<open>Delivery\<close>

lemma relay_accepted:
  assumes "smtp_send e (tick w) (relay_kwargs (smtp cfg)) f t raw = Returned errs resp"
  shows "\<exists>r. relay e (Some cfg) f t raw w = Inr r \<and> relay_ok r"
  using assms by (simp add: relay_def relay_ok_def)

lemma one_attempt_accepted:
  assumes "mid \<in> msg_id ` set (messages (db w))" "registry_get s (rd_provider d) = Some cfg"
    and "smtp_send e (Suc (tick w)) (relay_kwargs (smtp cfg)) (sn_from_addr sn) (sn_rcpt_to sn) raw =
         Returned errs resp"
  shows "fst (one_attempt e s mid sn raw d st w) = Inr None"
proof -
  obtain r where "relay e (Some cfg) (sn_from_addr sn) (sn_rcpt_to sn) raw (w\<lparr>tick := Suc (tick w)\<rparr>) = Inr r"
    "relay_ok r"
    using relay_accepted [of e "w\<lparr>tick := Suc (tick w)\<rparr>" cfg "sn_from_addr sn" "sn_rcpt_to sn" raw] assms(3)
    by auto
  then show ?thesis using assms(1,2)
    by (simp add: one_attempt_def Let_def utcnow_def record_attempt_unfold settle_ok)
qed

lemma accepted_first_attempt:
  assumes mid: "mid \<in> msg_id ` set (messages (db v))" and e: "smtp_only e" and cc: "registry_get s (rd_provider d) = Some cfg"
    and send: "\<And>n. \<exists>errs resp. smtp_send e n (relay_kwargs (smtp cfg)) (sn_from_addr sn) (sn_rcpt_to sn) raw = Returned errs resp"
  obtains w' a t where "one_attempt e s mid sn raw d fresh_tick v = (Inr None, w')"
    "inflight w' = (inflight v)(res_provider (rd_reservation d) := max 0 (inflight v (res_provider (rd_reservation d)) - 1))"
    "attempt_logged mid (sn_attempts sn + int (length (tried fresh_tick)) + 1) (rd_provider d) v a w'" "att_result a = Sent"
    "messages (db w') = update_where (\<lambda>m. msg_id m = mid) (sent_row (rd_provider d) t) (messages (db v))"
proof -
  have new: "rd_provider d \<notin> set (tried fresh_tick)" by (simp add: fresh_tick_def)
  obtain res w' a where A: "one_attempt e s mid sn raw d fresh_tick v = (Inr res, w')"
    and i: "inflight w' = (inflight v)(res_provider (rd_reservation d) :=
           max 0 (inflight v (res_provider (rd_reservation d)) - 1))"
    and l: "attempt_logged mid (sn_attempts sn + int (length (tried fresh_tick)) + 1) (rd_provider d) v a w'"
    and R: "case res of
       None \<Rightarrow> att_result a = Sent \<and> (\<exists>t. messages (db w') =
         update_where (\<lambda>m. msg_id m = mid) (sent_row (rd_provider d) t) (messages (db v)))
     | Some st' \<Rightarrow> att_result a \<noteq> Sent \<and> st' = after_attempt a fresh_tick \<and> messages (db w') = messages (db v)"
    using one_attempt_effect [OF mid e cc new, of sn raw] by (elim exE conjE) rule
  have "fst (one_attempt e s mid sn raw d fresh_tick v) = Inr None"
    using one_attempt_accepted [OF mid cc, of e sn raw] send [of "Suc (tick v)"] by auto
  then have res: "res = None" using A by simp
  then obtain t where "att_result a = Sent"
    "messages (db w') = update_where (\<lambda>m. msg_id m = mid) (sent_row (rd_provider d) t) (messages (db v))"
    using R by auto
  then show thesis using that A i l by (simp add: res)
qed

lemma best_selected:
  assumes s: "valid_settings s" and cap: "capacity_ok w" and now: "\<And>n. clock e n = now" and b: "best_provider s now w = Some cfg"
  obtains d v where "select e s {} w = (Inr (Some d), v)" "rd_provider d = prov_name cfg" "res_provider (rd_reservation d) = prov_name cfg"
    "inflight v = (inflight w)(prov_name cfg := inflight w (prov_name cfg) + 1)" "route_frame w v" "registry_get s (rd_provider d) = Some cfg"
proof -
  obtain r v where r: "select e s {} w = (Inr r, v)" "map_option rd_provider r = map_option prov_name (best_provider s now w)"
    using s cap now by (rule select_best)
  then obtain d where d: "select e s {} w = (Inr (Some d), v)" "rd_provider d = prov_name cfg" using b by (cases r) auto
  obtain pre cfg' post k n where D: "enabled_providers s w = pre @ cfg' # post"
      "list_all (passed_over e s {} w) pre" "rd_provider d = prov_name cfg'"
      "res_provider (rd_reservation d) = prov_name cfg'" "prov_name cfg' \<notin> {}"
      "inflight v = (inflight w)(prov_name cfg' := inflight w (prov_name cfg') + 1)"
      "route_frame w v" "tick w \<le> k" "tick w \<le> n" "fit_at e s w cfg' k n"
      "provider s (prov_name cfg') = Some cfg'"
    using d(1) s cap by (rule select_SomeD)
  have "cfg \<in> set (enabled_providers s w)" using b by (auto simp: best_provider_def find_Some_iff)
  then have "registry_get s (rd_provider d) = Some cfg"
    using enabled_provider_known [OF s] registry_known [OF s] d(2) by simp
  then show thesis using that [OF d] D(3,4,6,7) d(2) by simp
qed

text \<open>Claim C8: a deliverable message is delivered, once, through the right provider. When the message
  is not expired, its body is in the spool, and the best provider (the first enabled one in priority
  order that is available and within its limits) accepts it, one call of \<open>_process\<close> marks it sent
  through that provider after exactly one logged attempt, and gives the slot back.\<close>

theorem process_delivers_through_best_provider:
  assumes "valid_settings s" "smtp_only e" "capacity_ok w" "\<And>n. clock e n = now" "msg_of w mid = Some m"
    and "\<not> is_terminal (status m)" "spool w (spool_path m) = Some raw"
    and "now - received_at m \<le> hours_td (max_age_hours (retry (dispatch s)))"
    and "best_provider s now w = Some cfg"
    and "\<And>n. \<exists>errs resp. smtp_send e n (relay_kwargs (smtp cfg)) (from_addr m) (rcpt_to m) raw = Returned errs resp"
  shows "\<exists>w' m' a. process e s mid w = (Inr (), w') \<and> msg_of w' mid = Some m' \<and> status m' = SENT \<and>
    provider_used m' = Some (prov_name cfg) \<and>
    delivery_attempts (db w') = delivery_attempts (db w) @ [a] \<and>
    att_message_id a = mid \<and> att_provider a = Some (prov_name cfg) \<and> att_result a = Sent \<and>
    inflight w' = inflight w"
proof -
  let ?w1 = "w\<lparr>tick := Suc (tick w)\<rparr>" and ?sn = "from_row m"
  have fp: "0 < failover_per_tick (dispatch s)" using assms(1) by (simp add: valid_settings_def valid_dispatch_def)
  have c1: "capacity_ok ?w1" using assms(3) by simp
  obtain d v where sel: "select e s {} ?w1 = (Inr (Some d), v)" and rd: "rd_provider d = prov_name cfg"
    and D: "res_provider (rd_reservation d) = prov_name cfg"
      "inflight v = (inflight ?w1)(prov_name cfg := inflight ?w1 (prov_name cfg) + 1)" "route_frame ?w1 v"
    and cc: "registry_get s (rd_provider d) = Some cfg"
    using assms(1) c1 assms(4) assms(9) [folded best_provider_tick [where w = w and n = "Suc (tick w)"]] by (rule best_selected)
  have mv: "messages (db v) = messages (db w)" using route_messages [OF D(3)] by simp
  have mid: "mid \<in> msg_id ` set (messages (db v))" using msg_of_in [OF assms(5)] by (simp add: mv)
  obtain w' a t where A: "one_attempt e s mid ?sn raw d fresh_tick v = (Inr None, w')"
    and i: "inflight w' = (inflight v)(res_provider (rd_reservation d) := max 0 (inflight v (res_provider (rd_reservation d)) - 1))"
    and l: "attempt_logged mid (sn_attempts ?sn + int (length (tried fresh_tick)) + 1) (rd_provider d) v a w'"
    and t: "att_result a = Sent" "messages (db w') = update_where (\<lambda>m. msg_id m = mid) (sent_row (rd_provider d) t) (messages (db w))"
    unfolding mv [symmetric]
    by (rule accepted_first_attempt [OF mid assms(2) cc, where sn = ?sn and raw = raw]) (use assms(10) in \<open>simp_all add: from_row_sel\<close>)
  have "row_changed mid w m (sent_row (rd_provider d) t m) w'"
    by (rule update_row_changed [OF t(2) _ assms(5)]) (simp add: sent_row_def payload_def)
  moreover have "0 \<le> inflight w (prov_name cfg)" using assms(3) by (simp add: capacity_ok_def)
  then have "inflight w' = inflight w" using i D(1,2) by (simp add: fun_eq_iff)
  moreover have "process e s mid w = (Inr (), w')"
    using process_live [OF assms(5,6,7) _ fp, of e] assms(4,8) sel A by (simp add: fresh_tick_def)
  moreover have "delivery_attempts (db w') = delivery_attempts (db w) @ [a]"
    using l D(3) by (simp add: attempt_logged_def route_frame_def)
  ultimately show ?thesis using t(1) l rd
    by (intro exI [of _ w'] exI [of _ "sent_row (rd_provider d) t m"] exI [of _ a])
       (simp add: row_changed_def sent_row_def attempt_logged_def)
qed

theorem process_delivers_through_best_provider_witness:
  "\<exists>w' m'. process (frozen_env accepting) demo_settings 1 demo_mid_world = (Inr (), w') \<and>
     msg_of w' 1 = Some m' \<and> status m' = SENT \<and> provider_used m' = Some ''a''"
proof -
  have "map_option prov_name (best_provider demo_settings demo_epoch demo_mid_world) = Some ''a''" by code_simp
  then obtain cfg where b: "best_provider demo_settings demo_epoch demo_mid_world = Some cfg" "prov_name cfg = ''a''"
    by auto
  have "smtp_only (frozen_env accepting)" by (simp add: smtp_only_def accepting_def)
  moreover have "max_age_hours (retry (dispatch demo_settings)) = 48" by (simp add: demo_settings_def)
  ultimately show ?thesis
    using process_delivers_through_best_provider [OF demo_settings_valid _ demo_mid_world_facts(1) _
        demo_mid_world_facts(2,3) demo_mid_world_spool _ b(1), of "frozen_env accepting"] b(2)
    by (auto simp: hours_td_def usec_per_second_def accepting_def)
qed

subsection \<open>The consumer\<close>

text \<open>An exception leaves the message table alone.\<close>

lemma one_attempt_error:
  assumes "one_attempt e s mid sn raw d st w = (Inl x, w')"
  shows "messages (db w') = messages (db w)" "queue w' = queue w"
  using assms
  by (auto simp: one_attempt_def Let_def utcnow_def record_attempt_def split: sum.splits prod.splits if_splits)

lemma one_attempt_continue:
  assumes "one_attempt e s mid sn raw d st w = (Inr (Some st'), w')"
  shows "messages (db w') = messages (db w)" "log_frame w w' \<or> work_frame w w'" "capacity_ok w \<Longrightarrow> capacity_ok w'"
proof -
  let ?p = "rd_provider d" and ?w1 = "w\<lparr>tick := Suc (tick w)\<rparr>"
  let ?st = "st\<lparr>tried := List.insert ?p (tried st), made_attempt := True\<rparr>"
  obtain r where r: "relay e (registry_get s ?p) (sn_from_addr sn) (sn_rcpt_to sn) raw ?w1 = Inr r"
    using assms by (auto simp: one_attempt_def Let_def utcnow_def split: sum.splits)
  obtain w2 where ra: "record_attempt e mid (sn_attempts sn + int (length (tried ?st))) ?p (clock e (tick w)) r ?w1
      = (Inr (), w2)"
    and se: "settle_attempt e s mid d r (?st\<lparr>ts_error := Some (detail r), ts_code := res_code r\<rparr>) w2 = (Some st', w')"
    using assms r by (auto simp: one_attempt_def Let_def utcnow_def split: sum.splits prod.splits)
  have "messages (db w2) = messages (db w)" "work_frame w w2" "capacity_ok w \<Longrightarrow> capacity_ok w2"
    using ra by (auto simp: record_attempt_def utcnow_def Let_def work_frame_def capacity_ok_def
        quota_nonneg_def quota_of_def split: if_splits)
  then show "messages (db w') = messages (db w)" "log_frame w w' \<or> work_frame w w'" "capacity_ok w \<Longrightarrow> capacity_ok w'"
    using settle_messages [OF se] settle_attempt_effect [OF se]
    by (auto simp: log_frame_def intro: work_frame_trans)
qed

lemma failover_error:
  assumes "failover e s mid sn raw n st w = (Inl x, w')" "valid_settings s" "capacity_ok w"
  shows "messages (db w') = messages (db w) \<and> queue w' = queue w"
  using assms(1,3)
proof (induction n arbitrary: st w)
  case (Suc n)
  obtain r v where sel: "select e s (set (tried st)) w = (Inr r, v)"
    using select_not_Inl [OF assms(2), of e "set (tried st)" w] by (metis old.prod.exhaust old.sum.exhaust)
  obtain d where r: "r = Some d" using Suc.prems(1) sel by (cases r) auto
  have rf: "route_frame w v" using sel [unfolded r] assms(2) Suc.prems(2) by (rule select_SomeD)
  have cv: "capacity_ok v" by (rule select_capacity_ok [OF sel [unfolded r] assms(2) Suc.prems(2)])
  have mq: "messages (db v) = messages (db w)" "queue v = queue w" using rf by (simp_all add: route_frame_def)
  consider (raised) "one_attempt e s mid sn raw d st v = (Inl x, w')"
    | (more) st' v' where "one_attempt e s mid sn raw d st v = (Inr (Some st'), v')"
        "failover e s mid sn raw n st' v' = (Inl x, w')"
    using Suc.prems(1) sel r by (auto split: prod.splits sum.splits option.splits)
  then show ?case
  proof cases
    case raised
    then show ?thesis using one_attempt_error [OF raised] mq by simp
  next
    case more
    note C = one_attempt_continue [OF more(1)]
    have "queue v' = queue v" using C(2) by (auto simp: log_frame_def work_frame_def)
    then show ?thesis using Suc.IH [OF more(2)] C(1,3) cv mq by simp
  qed
qed simp

lemma process_error:
  assumes "process e s mid w = (Inl x, w')" "valid_settings s" "capacity_ok w"
  shows "messages (db w') = messages (db w) \<and> queue w' = queue w"
  using assms(1)
  by (auto simp: process_def utcnow_def Let_def split: option.splits if_splits sum.splits prod.splits
      dest!: failover_error [OF _ assms(2)]) (use assms(3) in simp_all)

lemma requeue_now_msg:
  "msg_of (requeue_now mid w) mid =
     map_option (\<lambda>m. if status m = SENDING then m\<lparr>status := QUEUED\<rparr> else m) (msg_of w mid)"
proof -
  have "get_by msg_id mid (update_where (\<lambda>m. msg_id m = mid \<and> status m = SENDING) (\<lambda>m. m\<lparr>status := QUEUED\<rparr>) rows)
    = map_option (\<lambda>m. if status m = SENDING then m\<lparr>status := QUEUED\<rparr> else m) (get_by msg_id mid rows)" for rows
    by (induction rows) (auto simp: get_by_def update_where_def)
  then show ?thesis by (simp add: msg_of_def requeue_now_def)
qed

text \<open>An exception while a message is processed puts it back in the queue. Whatever leaves
  \<open>_process\<close>, the consumer's turn ends with the message \<open>queued\<close>, with the attempt count, due time and
  everything else it had, and no other message changed; since the due time is the one it was claimed
  by, it is due again at once.\<close>

theorem consumer_requeues_on_error:
  assumes "valid_settings s" "capacity_ok w" "queue w = mid # rest" "msg_of w mid = Some m" "status m = SENDING"
    and "process e s mid (w\<lparr>queue := rest\<rparr>) = (Inl x, v)"
  shows "msg_of (consumer_turn e s w) mid = Some (m\<lparr>status := QUEUED\<rparr>) \<and>
    queue (consumer_turn e s w) = rest \<and>
    (\<forall>k. k \<noteq> mid \<longrightarrow> msg_of (consumer_turn e s w) k = msg_of w k) \<and>
    inflight (consumer_turn e s w) = inflight v"
proof -
  have "capacity_ok (w\<lparr>queue := rest\<rparr>)" using assms(2) by (simp add: capacity_ok_def quota_nonneg_def)
  from process_error [OF assms(6,1) this]
  have v: "messages (db v) = messages (db w)" "queue v = rest" by simp_all
  have run: "consumer_turn e s w = requeue_now mid v" using assms(3,6) by (simp add: consumer_turn_def)
  have mv: "msg_of v mid = Some m" using assms(4) msg_of_cong [OF v(1)] by simp
  have "get_by msg_id k (update_where (\<lambda>m. msg_id m = mid \<and> status m = SENDING) (\<lambda>m. m\<lparr>status := QUEUED\<rparr>) rows)
    = get_by msg_id k rows" if "k \<noteq> mid" for k rows
    using that by (induction rows) (auto simp: get_by_def update_where_def)
  then have "msg_of (requeue_now mid v) k = msg_of w k" if "k \<noteq> mid" for k
    using that by (simp add: msg_of_def requeue_now_def v)
  moreover have "queue (requeue_now mid v) = rest" "inflight (requeue_now mid v) = inflight v"
    by (simp_all add: requeue_now_def v)
  ultimately show ?thesis using requeue_now_msg [of mid v] by (simp add: run mv assms(5))
qed

text \<open>An exception that is not one of the provider library's leaks an in-flight slot. When
  \<open>relay\<close> raises such an exception for the provider the router chose, the consumer requeues the message
  and goes on, but the reservation is neither committed nor released: the provider's in-flight count
  stays one higher than before the turn.\<close>

theorem unexpected_error_leaks_slot:
  assumes "valid_settings s" "capacity_ok w" "queue w = mid # rest" "msg_of w mid = Some m"
    and "\<not> is_terminal (status m)" "spool w (spool_path m) = Some raw"
    and "clock e (tick w) - received_at m \<le> hours_td (max_age_hours (retry (dispatch s)))"
    and "select e s {} (w\<lparr>queue := rest, tick := Suc (tick w)\<rparr>) = (Inr (Some d), v)"
    and "relay e (registry_get s (rd_provider d)) (from_addr m) (rcpt_to m) raw (v\<lparr>tick := Suc (tick v)\<rparr>) = Inl x"
  shows "inflight (consumer_turn e s w) = (inflight w)(rd_provider d := inflight w (rd_provider d) + 1)"
proof -
  let ?w0 = "w\<lparr>queue := rest\<rparr>"
  let ?w1 = "?w0\<lparr>tick := Suc (tick ?w0)\<rparr>"
  have fp: "0 < failover_per_tick (dispatch s)" using assms(1) by (simp add: valid_settings_def valid_dispatch_def)
  have c: "capacity_ok ?w1" using assms(2) by (simp add: capacity_ok_def quota_nonneg_def)
  have sel: "select e s {} ?w1 = (Inr (Some d), v)" using assms(8) by simp
  have "inflight v = (inflight ?w1)(rd_provider d := inflight ?w1 (rd_provider d) + 1)"
    using sel assms(1) c by (rule select_SomeD) simp
  moreover have "process e s mid ?w0 = (Inl x, v\<lparr>tick := Suc (tick v)\<rparr>)"
    using process_live [of ?w0 mid m raw e s] assms(4-7) fp sel assms(9)
    by (simp add: msg_of_def fresh_tick_def one_attempt_def Let_def utcnow_def from_row_sel)
  ultimately show ?thesis using assms(3) by (simp add: consumer_turn_def requeue_now_def)
qed

definition demo_queue_world :: world where
  "demo_queue_world = demo_mid_world\<lparr>queue := [1]\<rparr>"

definition crashing :: "nat \<Rightarrow> send_kwargs \<Rightarrow> string \<Rightarrow> string list \<Rightarrow> string \<Rightarrow> send_outcome" where
  "crashing = (\<lambda>_ _ _ _ _. Raised (demo_exc [] 0))"

lemma demo_queue_world_facts:
  "capacity_ok demo_queue_world" "queue demo_queue_world = 1 # []"
  "msg_of demo_queue_world 1 = Some ((demo_msg 1)\<lparr>status := SENDING\<rparr>)"
  "spool demo_queue_world (spool_path ((demo_msg 1)\<lparr>status := SENDING\<rparr>)) = Some ''m''"
  using demo_mid_world_facts demo_mid_world_spool
  by (simp_all add: demo_queue_world_def capacity_ok_def quota_nonneg_def msg_of_def)

theorem consumer_requeues_on_error_witness:
  "\<exists>m'. msg_of (consumer_turn (demo_relay_env crashing) demo_settings demo_queue_world) 1 = Some m' \<and>
     status m' = QUEUED \<and> attempts m' = 0"
proof -
  let ?e = "demo_relay_env crashing" and ?w = "demo_queue_world\<lparr>queue := []\<rparr>"
  have "fst (process ?e demo_settings 1 ?w) = Inl (Unexpected ''error'')" by code_simp
  then obtain v where "process ?e demo_settings 1 ?w = (Inl (Unexpected ''error''), v)"
    by (cases "process ?e demo_settings 1 ?w") auto
  from consumer_requeues_on_error [OF demo_settings_valid demo_queue_world_facts(1-3) _ this]
  show ?thesis by (simp add: demo_msg_def)
qed

theorem unexpected_error_leaks_slot_witness:
  "inflight (consumer_turn (demo_relay_env crashing) demo_settings demo_queue_world) ''a'' = 1"
proof -
  let ?e = "demo_relay_env crashing"
  let ?w1 = "demo_queue_world\<lparr>queue := [], tick := Suc (tick demo_queue_world)\<rparr>"
  have "map_sum id (map_option rd_provider) (fst (select ?e demo_settings {} ?w1)) = Inr (Some ''a'')" by code_simp
  then obtain d v where d: "select ?e demo_settings {} ?w1 = (Inr (Some d), v)" "rd_provider d = ''a''"
    by (cases "select ?e demo_settings {} ?w1"; cases "fst (select ?e demo_settings {} ?w1)") auto
  have "registry_get demo_settings ''a'' = Some demo_a" by (simp add: registry_get_valid)
  then have r: "relay ?e (registry_get demo_settings (rd_provider d)) f t raw u = Inl (Unexpected ''error'')" for f t raw u
    by (simp add: d(2) relay_def demo_relay_env_def crashing_def handle_raised_def isinst_def demo_exc_def)
  have age: "clock ?e (tick demo_queue_world) - received_at ((demo_msg 1)\<lparr>status := SENDING\<rparr>)
      \<le> hours_td (max_age_hours (retry (dispatch demo_settings)))"
    by (simp add: demo_relay_env_def demo_queue_world_def demo_mid_world_def demo_world_def init_world_def
        hours_td_def usec_per_second_def demo_settings_def)
  have "inflight demo_queue_world ''a'' = 0"
    by (simp add: demo_queue_world_def demo_mid_world_def demo_world_def init_world_def)
  then show ?thesis
    using unexpected_error_leaks_slot [OF demo_settings_valid demo_queue_world_facts(1-3)
        demo_mid_world_facts(3) demo_queue_world_facts(4) age d(1) r] by (simp add: d(2))
qed

end
