(* ===== verification/Dispatcher.thy ===== *)
theory Dispatcher
  imports Worker
begin

text \<open>
  The tasks around the worker (\<open>Dispatcher\<close> in \<open>src/smtp_switch/dispatch/worker.py\<close>) and the start of
  the process (\<open>Application.start\<close> in \<open>src/smtp_switch/main.py\<close>), as a transition system: the producer
  that claims batches and puts their ids into a bounded queue, the consumers, the housekeeping task,
  operator toggles, and crashes followed by a restart, in any order. A state is the world together
  with the ids the producer has claimed and not yet put into the queue. A consumer's turn is one
  step here; \<open>Interleaving\<close> cuts it at its awaits.
\<close>

section \<open>Operations\<close>

definition notify_new_message :: "world \<Rightarrow> world" where
  "notify_new_message w = w\<lparr>wakeup := True\<rparr>"

definition queue_maxsize :: "settings \<Rightarrow> int" where
  "queue_maxsize s = claim_batch_size (dispatch s) * 2"

text \<open>A new process on the same database and spool.\<close>

definition fresh_process :: "world \<Rightarrow> world" where
  "fresh_process w = w\<lparr>inflight := (\<lambda>_. 0), states := Map.empty, overrides := Map.empty, queue := [],
     wakeup := False, metrics := empty_counters\<rparr>"

definition app_start :: "world \<Rightarrow> world" where
  "app_start w =
     (let w = refresh_overrides (fresh_process w);
          w = load w
      in snd (recover_orphans w))"

text \<open>The producer: claim a batch when the last one is in the queue; wait and clear the wake-up flag
  when there was nothing to claim.\<close>

definition producer_claim :: "'e env_scheme \<Rightarrow> settings \<Rightarrow> world \<Rightarrow> world \<times> int list" where
  "producer_claim e s w =
     (let (claimed, w) = claim_batch e (claim_batch_size (dispatch s)) w
      in if claimed = [] then (w\<lparr>wakeup := False\<rparr>, []) else (w, claimed))"

definition producer_put :: "int \<Rightarrow> world \<Rightarrow> world" where
  "producer_put mid w = w\<lparr>queue := queue w @ [mid]\<rparr>"

record gauges =
  queue_depth :: "(message_status \<times> int) list"
  provider_healthy :: "(string \<times> int) list"
  provider_inflight :: "(string \<times> int) list"
  provider_headroom :: "((string \<times> string) \<times> int) list"

definition status_counts :: "database \<Rightarrow> (message_status \<times> int) list" where
  "status_counts d =
     map (\<lambda>st. (st, count_where (\<lambda>m. status m = st) (messages d))) [QUEUED, SENDING, SENT, DEADLETTER]"

text \<open>\<open>set_queue_depth\<close> of \<open>metrics.py\<close>, the loop that \<open>_refresh_gauges\<close> has too: a label that is not counted stays.\<close>

definition set_queue_depth :: "(message_status \<times> int) list \<Rightarrow> gauges \<Rightarrow> gauges" where
  "set_queue_depth counts g = g\<lparr>queue_depth := fold (\<lambda>(st, n). AList.update st n) counts (queue_depth g)\<rparr>"

fun provider_gauges ::
  "'e env_scheme \<Rightarrow> settings \<Rightarrow> provider_config list \<Rightarrow> gauges \<Rightarrow> world \<Rightarrow> (exn + gauges) \<times> world" where
  "provider_gauges e s [] g w = (Inr g, w)"
| "provider_gauges e s (cfg # cfgs) g w =
     (let name = prov_name cfg;
          (up, w) = is_available e (circuit_breaker s) name w;
          g = g\<lparr>provider_healthy := AList.update name (if up then 1 else 0) (provider_healthy g),
                provider_inflight := AList.update name (inflight w name) (provider_inflight g)\<rparr>
      in case check e s name w of
           (Inl x, w) \<Rightarrow> (Inl x, w)
         | (Inr c, w) \<Rightarrow>
             provider_gauges e s cfgs
               (g\<lparr>provider_headroom :=
                  fold (\<lambda>(window, room). AList.update (name, window) room) (headroom c) (provider_headroom g)\<rparr>) w)"

definition refresh_gauges :: "'e env_scheme \<Rightarrow> settings \<Rightarrow> gauges \<Rightarrow> world \<Rightarrow> (exn + gauges) \<times> world" where
  "refresh_gauges e s g w =
     provider_gauges e s (registry_all s) (set_queue_depth (status_counts (db w)) g) w"

text \<open>One turn of \<open>_housekeeping\<close>; an exception ends the turn.\<close>

definition housekeeping_turn ::
  "'e env_scheme \<Rightarrow> settings \<Rightarrow> (message list \<Rightarrow> message list) \<Rightarrow> gauges \<Rightarrow> world \<Rightarrow> world" where
  "housekeeping_turn e s scan g w =
     (let (pruned, w) = prune e s w in
      case refresh_gauges e s g w of
        (Inl _, w) \<Rightarrow> w
      | (Inr _, w) \<Rightarrow> snd (retention_sweep e s scan w))"

section \<open>The transition system\<close>

type_synonym dispatcher_state = "world \<times> int list"

inductive dispatcher_step ::
  "'e relay_env_scheme \<Rightarrow> settings \<Rightarrow> (message list \<Rightarrow> message list) \<Rightarrow> dispatcher_state \<Rightarrow> dispatcher_state \<Rightarrow> bool"
  for e s scan where
  claim: "dispatcher_step e s scan (w, []) (producer_claim e s w)"
| put: "int (length (queue w)) < queue_maxsize s \<Longrightarrow>
    dispatcher_step e s scan (w, mid # pend) (producer_put mid w, pend)"
| consume: "dispatcher_step e s scan (w, pend) (consumer_turn e s w, pend)"
| housekeep: "dispatcher_step e s scan (w, pend) (housekeeping_turn e s scan g w, pend)"
| toggle: "dispatcher_step e s scan (w, pend) (snd (set_enabled e s name en nt w), pend)"
| notify: "dispatcher_step e s scan (w, pend) (notify_new_message w, pend)"
| wait: "dispatcher_step e s scan (w, pend) (w\<lparr>tick := Suc (tick w)\<rparr>, pend)"
| restart: "dispatcher_step e s scan (w, pend) (app_start w, [])"

text \<open>Every message that is being sent is in the producer's hands or in the queue, so that a consumer
  will settle it.\<close>

definition sending_ids :: "world \<Rightarrow> int set" where
  "sending_ids w = msg_id ` {m \<in> set (messages (db w)). status m = SENDING}"

definition in_hand :: "dispatcher_state \<Rightarrow> bool" where
  "in_hand = (\<lambda>(w, pend). sending_ids w \<subseteq> set (queue w @ pend))"

text \<open>Conversely, nothing else is there, and nothing twice: no message is processed by two consumers.\<close>

definition exact :: "dispatcher_state \<Rightarrow> bool" where
  "exact = (\<lambda>(w, pend). distinct (queue w @ pend) \<and> set (queue w @ pend) \<subseteq> sending_ids w)"

text \<open>Every message has its body in the spool, in a file of its own.\<close>

definition bodies_ok :: "world \<Rightarrow> bool" where
  "bodies_ok w \<longleftrightarrow> distinct (map spool_path (messages (db w))) \<and>
     (\<forall>m \<in> set (messages (db w)). spool w (spool_path m) \<noteq> None)"

text \<open>The invariant, at given numbers of slots in use; between whole turns none is.\<close>

definition dispatcher_at :: "(string \<Rightarrow> int) \<Rightarrow> settings \<Rightarrow> dispatcher_state \<Rightarrow> bool" where
  "dispatcher_at f s = (\<lambda>(w, pend).
     db_keys (db w) \<and> capacity_ok w \<and> inflight w = f \<and> in_hand (w, pend) \<and> bodies_ok w \<and>
     int (length (queue w)) \<le> queue_maxsize s)"

abbreviation dispatcher_ok :: "settings \<Rightarrow> dispatcher_state \<Rightarrow> bool" where
  "dispatcher_ok \<equiv> dispatcher_at (\<lambda>_. 0)"

text \<open>What a step keeps: the invariant always, exactness if it held before.\<close>

definition kept_at :: "(string \<Rightarrow> int) \<Rightarrow> settings \<Rightarrow> dispatcher_state \<Rightarrow> dispatcher_state \<Rightarrow> bool" where
  "kept_at f s st st' \<longleftrightarrow> dispatcher_at f s st' \<and> (exact st \<longrightarrow> exact st')"

abbreviation kept :: "settings \<Rightarrow> dispatcher_state \<Rightarrow> dispatcher_state \<Rightarrow> bool" where
  "kept \<equiv> kept_at (\<lambda>_. 0)"

lemmas dispatcher_ok_def = dispatcher_at_def [of "\<lambda>_. 0"]

lemmas kept_def = kept_at_def [of "\<lambda>_. 0"]

definition dispatcher_init :: "dispatcher_state \<Rightarrow> bool" where
  "dispatcher_init = (\<lambda>(w, pend). \<exists>v. w = app_start v \<and> pend = [] \<and> db_keys (db v) \<and> quota_nonneg v \<and> bodies_ok v)"

section \<open>The invariant\<close>

lemma sending_iff:
  "db_keys (db w) \<Longrightarrow> k \<in> sending_ids w \<longleftrightarrow> (\<exists>m. msg_of w k = Some m \<and> status m = SENDING)"
proof -
  assume k: "db_keys (db w)"
  have "msg_of w (msg_id m) = Some m" if "m \<in> set (messages (db w))" for m
    using k that by (simp add: msg_of_def get_by_distinct db_keys_def)
  moreover have "m \<in> set (messages (db w)) \<and> msg_id m = k" if "msg_of w k = Some m" for m
    using that get_by_Some_in [of msg_id k] by (simp add: msg_of_def)
  ultimately show ?thesis unfolding sending_ids_def by auto
qed

lemma slots_nonneg: "dispatcher_at f s (w, pend) \<Longrightarrow> 0 \<le> f p"
  by (auto simp: dispatcher_at_def capacity_ok_def)

text \<open>Steps that leave the messages, the log, the spool and the queue alone.\<close>

lemma dispatcher_ok_same:
  assumes ok: "dispatcher_at f s (w, pend)" and eq: "messages (db w') = messages (db w)"
    "delivery_attempts (db w') = delivery_attempts (db w)" "spool w' = spool w" "queue w' = queue w"
    "inflight w' = inflight w" and c: "capacity_ok w'"
  shows "kept_at f s (w, pend) (w', pend)"
proof -
  have k: "db_keys (db w)" using ok by (simp add: dispatcher_at_def)
  have d: "distinct (map sl_id (send_log (db w')))" using c by (simp add: capacity_ok_def)
  have "db_keys (db w')" using k d unfolding db_keys_def eq(1,2) by blast
  moreover have S: "sending_ids w' = sending_ids w" by (simp add: sending_ids_def eq)
  moreover have "bodies_ok w'" using ok eq by (simp add: dispatcher_at_def bodies_ok_def)
  ultimately show ?thesis using ok c eq by (simp add: kept_at_def dispatcher_at_def in_hand_def exact_def)
qed

lemma image_filter_image: "g ` {x \<in> f ` M. P x} = (\<lambda>n. g (f n)) ` {n \<in> M. P (f n)}"
  by auto

lemma bodies_ok_payload:
  assumes "bodies_ok w" "map payload (messages (db w')) = map payload (messages (db w))" "spool w' = spool w"
  shows "bodies_ok w'"
proof -
  have p: "map spool_path (messages (db w')) = map spool_path (messages (db w))"
    using arg_cong [OF assms(2), of "map (\<lambda>(_, _, _, _, _, _, _, _, p). p)"] by (simp add: payload_def comp_def)
  have A: "(\<forall>m \<in> set (messages d). spool w (spool_path m) \<noteq> None) \<longleftrightarrow>
      list_all (\<lambda>p. spool w p \<noteq> None) (map spool_path (messages d))" for d
    by (simp add: list_all_iff)
  show ?thesis using assms(1) unfolding bodies_ok_def assms(3) A p .
qed

lemma ok_claim:
  assumes ok: "dispatcher_at f s (w, pend)"
  shows "kept_at f s (w, pend) (fst (producer_claim e s w), snd (producer_claim e s w) @ pend)"
proof -
  let ?ids = "due_ids (clock e (tick w)) (claim_batch_size (dispatch s)) (messages (db w))"
  let ?f = "\<lambda>m. if msg_id m \<in> set ?ids then m\<lparr>status := SENDING, claimed_at := Some (clock e (tick w))\<rparr> else m"
  have k: "db_keys (db w)" using ok by (simp add: dispatcher_at_def)
  obtain w' where run: "producer_claim e s w = (w', ?ids)" and m: "messages (db w') = map ?f (messages (db w))"
    and F: "delivery_attempts (db w') = delivery_attempts (db w)" "spool w' = spool w" "queue w' = queue w"
      "inflight w' = inflight w" "send_log (db w') = send_log (db w)" "quota (db w') = quota (db w)"
  proof (cases "?ids = []")
    case True
    show thesis by (rule that [of "w\<lparr>tick := Suc (tick w), wakeup := False\<rparr>"])
      (simp_all add: True producer_claim_def claim_batch_unfold update_where_def)
  next
    case False
    show thesis by (rule that [of "snd (claim_batch e (claim_batch_size (dispatch s)) w)"])
      (simp_all add: False producer_claim_def claim_batch_unfold update_where_def)
  qed
  have ids_in: "set ?ids \<subseteq> msg_id ` set (messages (db w))" using due_ids_in by fastforce
  have sid: "sending_ids w' = sending_ids w \<union> set ?ids"
  proof -
    have f: "msg_id (?f n) = msg_id n" "status (?f n) = SENDING \<longleftrightarrow> msg_id n \<in> set ?ids \<or> status n = SENDING" for n
      by simp_all
    have "sending_ids w' = msg_id ` {n \<in> set (messages (db w)). msg_id n \<in> set ?ids \<or> status n = SENDING}"
      unfolding sending_ids_def m set_map image_filter_image f ..
    also have "\<dots> = sending_ids w \<union> set ?ids" using ids_in unfolding sending_ids_def by blast
    finally show ?thesis .
  qed
  have dis: "sending_ids w \<inter> set ?ids = {}"
  proof -
    have False if "m \<in> set (messages (db w))" "status m = SENDING" "msg_id m \<in> set ?ids" for m
      using due_ids_due [OF k that(1,3)] that(2) by (simp add: due_def)
    then show ?thesis by (auto simp: sending_ids_def)
  qed
  have "in_hand (w', ?ids @ pend)" using ok by (auto simp: in_hand_def sid F dispatcher_at_def)
  moreover have "exact (w', ?ids @ pend)" if "exact (w, pend)"
    using that dis due_ids_distinct [OF k] by (auto simp: exact_def sid F)
  moreover have "bodies_ok w'"
    by (rule bodies_ok_payload [of w]) (use ok in \<open>simp_all add: dispatcher_at_def m F payload_def\<close>)
  moreover have "map msg_id (messages (db w')) = map msg_id (messages (db w))" by (simp add: m)
  then have "db_keys (db w')" using k by (simp add: db_keys_def F) (metis set_map)
  moreover have "capacity_ok w'"
    using ok slots_nonneg [OF ok] by (simp add: dispatcher_at_def capacity_ok_def quota_nonneg_def quota_of_def F)
  ultimately show ?thesis using ok by (simp add: run kept_at_def dispatcher_at_def F)
qed

lemma ok_put:
  assumes "dispatcher_at f s (w, mid # pend)" "int (length (queue w)) < queue_maxsize s"
  shows "kept_at f s (w, mid # pend) (producer_put mid w, pend)"
  using assms
  by (auto simp: kept_at_def dispatcher_at_def producer_put_def in_hand_def exact_def sending_ids_def bodies_ok_def
      capacity_ok_def quota_nonneg_def)

lemma msg_of_member: "db_keys (db w) \<Longrightarrow> m \<in> set (messages (db w)) \<Longrightarrow> msg_of w (msg_id m) = Some m"
  by (simp add: msg_of_def get_by_distinct db_keys_def)

lemma msg_of_SomeD: "msg_of w k = Some m \<Longrightarrow> m \<in> set (messages (db w)) \<and> msg_id m = k"
  unfolding msg_of_def by (rule get_by_Some_in)

text \<open>A consumer's turn: the message at the head of the queue is no longer being sent.\<close>

lemma ok_drop:
  assumes ok: "dispatcher_ok s (w, pend)" and q: "queue w = mid # rest" and mid: "mid \<notin> sending_ids w"
  shows "kept s (w, pend) (w\<lparr>queue := rest\<rparr>, pend)"
proof -
  have "capacity_ok (w\<lparr>queue := rest\<rparr>)" "sending_ids (w\<lparr>queue := rest\<rparr>) = sending_ids w"
    "bodies_ok (w\<lparr>queue := rest\<rparr>) = bodies_ok w"
    using ok by (simp_all add: dispatcher_ok_def capacity_ok_def quota_nonneg_def sending_ids_def bodies_ok_def)
  then show ?thesis using ok q mid by (auto simp: kept_def dispatcher_ok_def in_hand_def exact_def)
qed

lemma ok_settle:
  assumes ok: "dispatcher_ok s (w, pend)" and s: "valid_settings s" and e: "smtp_only e"
    and q: "queue w = mid # rest" and m: "msg_of w mid = Some m" and nt: "\<not> is_terminal (status m)"
  shows "kept s (w, pend) (consumer_turn e s w, pend)"
proof -
  let ?w0 = "w\<lparr>queue := rest\<rparr>"
  have k: "db_keys (db w)" and b: "bodies_ok w"
    and c0: "capacity_ok ?w0" and i0: "inflight w = (\<lambda>_. 0)" and len: "int (length rest) < queue_maxsize s"
    using ok q by (simp_all add: dispatcher_ok_def capacity_ok_def quota_nonneg_def)
  have m0: "msg_of ?w0 mid = Some m" using m by (simp add: msg_of_def)
  obtain w' m' new where P: "process e s mid ?w0 = (Inr (), w')" "row_changed mid ?w0 m m' w'"
    "row_outcome e s ?w0 m new m'" "attempts_made s mid (attempts m + 1) {} ?w0 new w'"
    "int (length new) \<le> failover_per_tick (dispatch s)"
    using s e c0 m0 nt by (rule process_effect)
  have run: "consumer_turn e s w = w'" using P(1) q by (simp add: consumer_turn_def)
  have k': "db_keys (db w')" by (rule row_changed_keys [OF P(2,4) m0]) (use k in simp)
  have m': "msg_of w' mid = Some m'" "status m' \<noteq> SENDING"
    using P(2,3) by (auto simp: row_changed_def row_outcome_def)
  have other: "msg_of w' j = msg_of w j" if "j \<noteq> mid" for j
    using P(2) that by (simp add: row_changed_def) (simp add: msg_of_def)
  have "j \<in> sending_ids w' \<longleftrightarrow> j \<in> sending_ids w - {mid}" for j
    using m' other [of j] by (cases "j = mid") (simp_all add: sending_iff [OF k] sending_iff [OF k'])
  then have S: "sending_ids w' = sending_ids w - {mid}" by blast
  have F: "inflight w' = (\<lambda>_. 0)" "capacity_ok w'" "queue w' = rest" "spool w' = spool w"
    using P(4) i0 by (simp_all add: attempts_made_def work_frame_def)
  have "bodies_ok w'"
    by (rule bodies_ok_payload [OF b _ F(4)]) (use P(2) in \<open>simp add: row_changed_def\<close>)
  moreover have "in_hand (w', pend)" using ok by (auto simp: in_hand_def dispatcher_ok_def S F q)
  moreover have "exact (w', pend)" if "exact (w, pend)" using that by (auto simp: exact_def S F q)
  ultimately show ?thesis using k' len F by (simp add: run kept_def dispatcher_ok_def)
qed

lemma ok_consume:
  assumes ok: "dispatcher_ok s (w, pend)" and s: "valid_settings s" and e: "smtp_only e"
  shows "kept s (w, pend) (consumer_turn e s w, pend)"
proof (cases "queue w")
  case Nil
  then show ?thesis using ok by (simp add: consumer_turn_def kept_def)
next
  case (Cons mid rest)
  have k: "db_keys (db w)" using ok by (simp add: dispatcher_ok_def)
  show ?thesis
  proof (cases "\<exists>m. msg_of w mid = Some m \<and> \<not> is_terminal (status m)")
    case True
    then show ?thesis using ok_settle [OF ok s e Cons] by blast
  next
    case False
    then have "mid \<notin> sending_ids w" using sending_iff [OF k, of mid] by (auto simp: is_terminal_def)
    then have "kept s (w, pend) (w\<lparr>queue := rest\<rparr>, pend)" by (rule ok_drop [OF ok Cons])
    moreover have "process e s mid (w\<lparr>queue := rest\<rparr>) = (Inr (), w\<lparr>queue := rest\<rparr>)"
      using False by (auto simp: process_def msg_of_def split: option.splits)
    ultimately show ?thesis using Cons by (simp add: consumer_turn_def)
  qed
qed

lemma consume_queue:
  assumes ok: "dispatcher_ok s (w, pend)" and s: "valid_settings s" and e: "smtp_only e"
  shows "queue (consumer_turn e s w) = tl (queue w)"
proof (cases "queue w")
  case (Cons mid rest)
  let ?w0 = "w\<lparr>queue := rest\<rparr>"
  have c0: "capacity_ok ?w0" using ok by (simp add: dispatcher_ok_def capacity_ok_def quota_nonneg_def)
  show ?thesis
  proof (cases "\<exists>m. msg_of ?w0 mid = Some m \<and> \<not> is_terminal (status m)")
    case True
    then obtain m where m: "msg_of ?w0 mid = Some m" "\<not> is_terminal (status m)" by blast
    obtain w' m' new where P: "process e s mid ?w0 = (Inr (), w')" "row_changed mid ?w0 m m' w'"
      "row_outcome e s ?w0 m new m'" "attempts_made s mid (attempts m + 1) {} ?w0 new w'"
      "int (length new) \<le> failover_per_tick (dispatch s)"
      using s e c0 m by (rule process_effect)
    then show ?thesis using Cons by (simp add: consumer_turn_def attempts_made_def work_frame_def)
  next
    case False
    then have "process e s mid ?w0 = (Inr (), ?w0)" by (auto simp: process_def split: option.splits)
    then show ?thesis using Cons by (simp add: consumer_turn_def)
  qed
qed (simp add: consumer_turn_def)

text \<open>Housekeeping.\<close>

lemma check_frame: "snd (check e s p w) = w \<or> snd (check e s p w) = w\<lparr>tick := Suc (Suc (tick w))\<rparr>"
proof (cases "provider s p")
  case (Some cfg)
  then show ?thesis using check_allowed_iff [OF Some, of e w] by auto
qed (simp add: check_def)

lemma check_view: "view_eq w (snd (check e s p w))"
  using check_frame [of e s p w] tick_view_eq [of w "Suc (Suc (tick w))"] by auto

lemma provider_gauges_view: "view_eq w (snd (provider_gauges e s cfgs g w))"
proof (induction cfgs arbitrary: g w)
  case (Cons cfg cfgs)
  let ?w1 = "snd (is_available e (circuit_breaker s) (prov_name cfg) w)"
  have v: "view_eq w (snd (check e s (prov_name cfg) ?w1))"
    by (rule view_eq_trans [OF is_available_view check_view])
  show ?case
  proof (cases "fst (check e s (prov_name cfg) ?w1)")
    case (Inl x)
    then show ?thesis using v by (simp add: Let_def prod.case_eq_if)
  next
    case (Inr c)
    then show ?thesis using view_eq_trans [OF v Cons.IH] by (simp add: Let_def prod.case_eq_if)
  qed
qed simp

lemma view_ok:
  assumes "dispatcher_at f s (w, pend)" "view_eq w w'"
  shows "kept_at f s (w, pend) (w', pend)"
proof (rule dispatcher_ok_same [OF assms(1)])
  show "capacity_ok w'" using assms view_eq_capacity_ok by (auto simp: dispatcher_at_def)
qed (use assms(2) in \<open>simp_all add: view_eq_def route_frame_def\<close>)

lemma prune_ok:
  assumes "dispatcher_at f s (w, pend)"
  shows "kept_at f s (w, pend) (snd (prune e s w), pend)"
proof (rule dispatcher_ok_same [OF assms])
  note F = limiter_frame_fields [OF prune_limiter_frame [of w e s]]
  show "messages (db (snd (prune e s w))) = messages (db w)"
    "delivery_attempts (db (snd (prune e s w))) = delivery_attempts (db w)"
    "spool (snd (prune e s w)) = spool w" "queue (snd (prune e s w)) = queue w" by (rule F)+
  show "inflight (snd (prune e s w)) = inflight w" by (rule prune_fields)
  show "capacity_ok (snd (prune e s w))"
    using assms by (auto simp: dispatcher_at_def capacity_ok_def quota_nonneg_def prune_def Let_def utcnow_def
        quota_of_def distinct_map_delete_where)
qed

lemma fold_spool_delete_queue: "queue (fold (\<lambda>m. spool_delete (spool_path m)) rows w) = queue w"
  by (induction rows arbitrary: w) (auto simp: spool_delete_def)

lemma sweep_queue: "queue (snd (retention_sweep e s scan w)) = queue w"
proof -
  have "queue (snd (fold (sweep_one scan) plans (n, w))) = queue w" for plans n w
    by (induction plans arbitrary: n w)
       (auto simp: sweep_one_def Let_def fold_spool_delete_queue split: prod.splits)
  then show ?thesis by (simp add: retention_sweep_def utcnow_def)
qed

lemma sweep_removes:
  assumes "scans scan" "db_keys (db w)"
  obtains ids where "removed ids w (snd (retention_sweep e s scan w))"
    "\<And>m. m \<in> set (messages (db w)) \<Longrightarrow> msg_id m \<in> ids \<Longrightarrow> is_terminal (status m)"
proof -
  let ?w1 = "w\<lparr>tick := Suc (tick w)\<rparr>" and ?plans = "sweep_plans s (clock e (tick w))"
  obtain n w' where f: "fold (sweep_one scan) ?plans (0, ?w1) = (n, w')"
    by (cases "fold (sweep_one scan) ?plans (0, ?w1)")
  have k: "db_keys (db ?w1)" using assms(2) by simp
  obtain ids where R: "removed ids ?w1 w'"
    and P: "\<forall>m \<in> set (messages (db ?w1)). msg_id m \<in> ids \<longrightarrow>
       (\<exists>cutoff. (status m, cutoff) \<in> set ?plans \<and> received_at m < cutoff)"
    using sweep_fold_removes [OF assms(1) k f] by blast
  have "removed ids w (snd (retention_sweep e s scan w))"
    using R f by (simp add: retention_sweep_def utcnow_def removed_def)
  moreover have "is_terminal (status m)" if "m \<in> set (messages (db w))" "msg_id m \<in> ids" for m
    using P that by (fastforce simp: sweep_plans_def Let_def is_terminal_def split: if_splits)
  ultimately show thesis by (rule that)
qed

text \<open>Rows removed together with their files.\<close>

lemma removed_bodies:
  assumes R: "removed ids w w'" and b: "bodies_ok w"
  shows "bodies_ok w'"
proof -
  have M: "set (messages (db w')) = {m \<in> set (messages (db w)). msg_id m \<notin> ids}" using R by (simp add: removed_def)
  have d: "distinct (map spool_path (messages (db w)))" using b by (simp add: bodies_ok_def)
  have "spool w' (spool_path m) = spool w (spool_path m)" if "m \<in> set (messages (db w'))" for m
  proof -
    have m: "m \<in> set (messages (db w))" "msg_id m \<notin> ids" using that M by auto
    have "spool_path m \<notin> spool_path ` {m \<in> set (messages (db w)). msg_id m \<in> ids}"
      using m d by (auto simp: distinct_map inj_on_def)
    then show ?thesis using R by (simp add: removed_def)
  qed
  moreover have "distinct (map spool_path (messages (db w')))"
    using R distinct_map_delete_where [OF d] by (simp add: removed_def)
  ultimately show ?thesis using b M by (simp add: bodies_ok_def)
qed

lemma removed_ok:
  assumes ok: "dispatcher_at f s (w, pend)" and R: "removed ids w w'" and q: "queue w' = queue w"
  shows "dispatcher_at f s (w', pend)"
proof -
  have M: "set (messages (db w')) = {m \<in> set (messages (db w)). msg_id m \<notin> ids}" using R by (simp add: removed_def)
  have "sending_ids w' \<subseteq> sending_ids w" unfolding sending_ids_def M by auto
  moreover have "capacity_ok w'"
    using ok R slots_nonneg [OF ok] by (simp add: dispatcher_at_def capacity_ok_def quota_nonneg_def removed_def quota_of_def)
  ultimately show ?thesis
    using ok removed_keys [OF R] removed_bodies [OF R] R by (auto simp: dispatcher_at_def in_hand_def q removed_def)
qed

lemma sweep_ok:
  assumes ok: "dispatcher_at f s (w, pend)" and "scans scan"
  shows "kept_at f s (w, pend) (snd (retention_sweep e s scan w), pend)"
proof -
  let ?w' = "snd (retention_sweep e s scan w)"
  have k: "db_keys (db w)" using ok by (simp add: dispatcher_at_def)
  obtain ids where R: "removed ids w ?w'"
    and T: "\<And>m. m \<in> set (messages (db w)) \<Longrightarrow> msg_id m \<in> ids \<Longrightarrow> is_terminal (status m)"
    using sweep_removes [OF assms(2) k, of e s] by metis
  have M: "set (messages (db ?w')) = {m \<in> set (messages (db w)). msg_id m \<notin> ids}" using R by (simp add: removed_def)
  have "sending_ids ?w' = sending_ids w"
    using T unfolding sending_ids_def M by (fastforce simp: is_terminal_def)
  then show ?thesis using removed_ok [OF ok R sweep_queue] by (simp add: kept_at_def exact_def sweep_queue)
qed

lemma kept_trans: "kept_at f s a b \<Longrightarrow> kept_at f s b c \<Longrightarrow> kept_at f s a c"
  by (simp add: kept_at_def)

lemma housekeeping_ok:
  assumes "dispatcher_at f s (w, pend)" "scans scan"
  shows "kept_at f s (w, pend) (housekeeping_turn e s scan g w, pend)"
proof -
  let ?w1 = "snd (prune e s w)"
  let ?w2 = "snd (refresh_gauges e s g ?w1)"
  have 1: "kept_at f s (w, pend) (?w1, pend)" by (rule prune_ok [OF assms(1)])
  have "kept_at f s (?w1, pend) (?w2, pend)"
    by (rule view_ok) (use 1 in \<open>simp_all add: kept_at_def refresh_gauges_def provider_gauges_view\<close>)
  with 1 have 2: "kept_at f s (w, pend) (?w2, pend)" by (rule kept_trans)
  then have "kept_at f s (?w2, pend) (snd (retention_sweep e s scan ?w2), pend)"
    using assms(2) by (simp add: kept_at_def [of f s "(w, pend)"] sweep_ok)
  with 2 have "kept_at f s (w, pend) (snd (retention_sweep e s scan ?w2), pend)" by (rule kept_trans)
  with 2 show ?thesis
    by (auto simp: housekeeping_turn_def Let_def prod.case_eq_if split: sum.splits)
qed

lemma toggle_ok:
  assumes "dispatcher_at f s (w, pend)"
  shows "kept_at f s (w, pend) (snd (set_enabled e s name en nt w), pend)"
  by (rule dispatcher_ok_same [OF assms])
     (use assms slots_nonneg [OF assms] in \<open>simp_all add: set_enabled_def utcnow_def Let_def dispatcher_at_def capacity_ok_def
        quota_nonneg_def quota_of_def\<close>)

lemma capacity_ok_same:
  "db w' = db w \<Longrightarrow> inflight w' = inflight w \<Longrightarrow> capacity_ok w' = capacity_ok w"
  by (simp add: capacity_ok_def quota_nonneg_def quota_of_def)

lemma wait_ok:
  assumes "dispatcher_at f s (w, pend)"
  shows "kept_at f s (w, pend) (w\<lparr>tick := n\<rparr>, pend)"
proof (rule dispatcher_ok_same [OF assms])
  show "capacity_ok (w\<lparr>tick := n\<rparr>)" using assms capacity_ok_same [of "w\<lparr>tick := n\<rparr>" w] by (simp add: dispatcher_at_def)
qed simp_all

lemma notify_ok:
  assumes "dispatcher_at f s (w, pend)"
  shows "kept_at f s (w, pend) (notify_new_message w, pend)"
proof (rule dispatcher_ok_same [OF assms])
  show "capacity_ok (notify_new_message w)"
    using assms capacity_ok_same [of "notify_new_message w" w] by (simp add: dispatcher_at_def notify_new_message_def)
qed (simp_all add: notify_new_message_def)

lemma app_start_ok:
  assumes k: "db_keys (db v)" and q: "quota_nonneg v" and b: "bodies_ok v" and s: "0 \<le> queue_maxsize s"
  shows "dispatcher_ok s (app_start v, []) \<and> exact (app_start v, [])"
proof -
  let ?w = "app_start v"
  let ?f = "\<lambda>m. if status m = SENDING then m\<lparr>status := QUEUED, claimed_at := None\<rparr> else m"
  have m: "messages (db ?w) = map ?f (messages (db v))"
    by (simp add: app_start_def Let_def fresh_process_def recover_orphans_def load_def refresh_overrides_def update_where_def)
  have F: "delivery_attempts (db ?w) = delivery_attempts (db v)" "send_log (db ?w) = send_log (db v)"
    "quota (db ?w) = quota (db v)" "spool ?w = spool v" "queue ?w = []" "inflight ?w = (\<lambda>_. 0)"
    by (simp_all add: app_start_def Let_def fresh_process_def recover_orphans_def load_def refresh_overrides_def)
  have ids: "map msg_id (messages (db ?w)) = map msg_id (messages (db v))" by (simp add: m)
  then have "db_keys (db ?w)" using k by (simp add: db_keys_def F) (metis set_map)
  moreover have "capacity_ok ?w"
    using q k by (simp add: capacity_ok_def quota_nonneg_def quota_of_def F db_keys_def)
  moreover have none: "status x \<noteq> SENDING" if "x \<in> set (messages (db ?w))" for x
    using that unfolding m set_map by (auto split: if_splits)
  have "sending_ids ?w = {}" using none by (auto simp: sending_ids_def)
  moreover have "bodies_ok ?w" by (rule bodies_ok_payload [OF b _ F(4)]) (simp add: m payload_def)
  ultimately show ?thesis using s by (simp add: dispatcher_ok_def in_hand_def exact_def F)
qed

lemma queue_maxsize_pos: "valid_settings s \<Longrightarrow> 0 \<le> queue_maxsize s"
  by (simp add: queue_maxsize_def valid_settings_def valid_dispatch_def)

lemma dispatcher_step_kept:
  assumes "dispatcher_step e s scan st st'" "valid_settings s" "smtp_only e" "scans scan" "dispatcher_ok s st"
  shows "kept s st st'"
  using assms(1)
proof cases
  case (claim w)
  then show ?thesis using ok_claim [of _ s w "[]" e] assms(5) by simp
next
  case (put w mid pend)
  then show ?thesis using ok_put assms(5) by simp
next
  case (consume w pend)
  then show ?thesis using ok_consume [OF _ assms(2,3)] assms(5) by simp
next
  case (housekeep w pend g)
  then show ?thesis using housekeeping_ok [OF _ assms(4)] assms(5) by simp
next
  case (toggle w pend name en nt)
  then show ?thesis using toggle_ok assms(5) by simp
next
  case (notify w pend)
  then show ?thesis using notify_ok assms(5) by simp
next
  case (wait w pend)
  then show ?thesis using wait_ok assms(5) by simp
next
  case (restart w pend)
  have "db_keys (db w)" "quota_nonneg w" "bodies_ok w"
    using assms(5) restart(1) by (simp_all add: dispatcher_ok_def capacity_ok_def)
  then show ?thesis unfolding restart(2) kept_def using app_start_ok queue_maxsize_pos [OF assms(2)] by blast
qed

definition dispatcher_inv ::
  "'e relay_env_scheme \<Rightarrow> settings \<Rightarrow> (message list \<Rightarrow> message list) \<Rightarrow> dispatcher_state \<Rightarrow> bool" where
  "dispatcher_inv e s scan st \<longleftrightarrow>
     (valid_settings s \<longrightarrow> smtp_only e \<longrightarrow> scans scan \<longrightarrow> dispatcher_ok s st \<and> exact st)"

interpretation disp_sys: invariant_system dispatcher_init "dispatcher_step e s scan" "dispatcher_inv e s scan"
  for e s scan
proof
  show "dispatcher_inv e s scan st" if "dispatcher_init st" for st
    using that app_start_ok queue_maxsize_pos by (auto simp: dispatcher_init_def dispatcher_inv_def)
  show "dispatcher_inv e s scan st'" if "dispatcher_inv e s scan st" "dispatcher_step e s scan st st'" for st st'
    using that dispatcher_step_kept unfolding dispatcher_inv_def kept_def by blast
qed

section \<open>Settled messages\<close>

text \<open>A step may delete a settled message, with its log; otherwise it leaves both as they are.\<close>

definition log_of :: "int \<Rightarrow> world \<Rightarrow> delivery_attempt list" where
  "log_of mid w = filter (\<lambda>a. att_message_id a = mid) (delivery_attempts (db w))"

definition final_in :: "int \<Rightarrow> world \<Rightarrow> world \<Rightarrow> bool" where
  "final_in mid w w' \<longleftrightarrow> msg_of w' mid = None \<or> (msg_of w' mid = msg_of w mid \<and> log_of mid w' = log_of mid w)"

definition terminal_in :: "int \<Rightarrow> world \<Rightarrow> bool" where
  "terminal_in mid w \<longleftrightarrow> (case msg_of w mid of None \<Rightarrow> True | Some m \<Rightarrow> is_terminal (status m))"

lemma final_refl [simp]: "final_in mid w w"
  by (simp add: final_in_def)

lemma final_trans: "final_in mid u v \<Longrightarrow> final_in mid v w \<Longrightarrow> final_in mid u w"
  by (auto simp: final_in_def)

lemma final_terminal: "final_in mid w w' \<Longrightarrow> terminal_in mid w \<Longrightarrow> terminal_in mid w'"
  by (auto simp: final_in_def terminal_in_def)

lemma final_same:
  "messages (db w') = messages (db w) \<Longrightarrow> delivery_attempts (db w') = delivery_attempts (db w) \<Longrightarrow> final_in mid w w'"
  by (simp add: final_in_def msg_of_def log_of_def)

lemma get_by_map_if:
  "(\<And>r. key (f r) = key r) \<Longrightarrow> get_by key k (map (\<lambda>r. if P r then f r else r) rows) =
     map_option (\<lambda>r. if P r then f r else r) (get_by key k rows)"
  by (induction rows) (auto simp: get_by_def)

lemma final_update:
  assumes "messages (db w') = map (\<lambda>m. if P m then f m else m) (messages (db w))" "\<And>m. msg_id (f m) = msg_id m"
    "delivery_attempts (db w') = delivery_attempts (db w)"
    "\<And>m. msg_of w mid = Some m \<Longrightarrow> \<not> P m"
  shows "final_in mid w w'"
  using assms(4) get_by_map_if [of msg_id f mid P "messages (db w)", OF assms(2)]
  by (cases "msg_of w mid") (simp_all add: final_in_def msg_of_def log_of_def assms(1,3))

lemma final_removed:
  assumes "removed ids w w'" "db_keys (db w)"
  shows "final_in mid w w'"
proof (cases "mid \<in> ids")
  case True
  then have "msg_of w' mid = None" using assms by (auto simp: msg_of_def get_by_None_iff removed_def)
  then show ?thesis by (simp add: final_in_def)
next
  case False
  have "get_by msg_id mid (delete_where (\<lambda>m. msg_id m \<in> ids) rows) = get_by msg_id mid rows"
    for rows :: "message list"
    using False by (induction rows) (auto simp: get_by_def delete_where_def)
  moreover have "filter (\<lambda>a. att_message_id a = mid) (delete_where (\<lambda>a. att_message_id a \<in> ids) xs) =
      filter (\<lambda>a. att_message_id a = mid) xs" for xs :: "delivery_attempt list"
    using False by (auto simp: delete_where_def intro: filter_cong)
  ultimately show ?thesis using assms(1) by (simp add: final_in_def msg_of_def log_of_def removed_def)
qed

lemma numbered_other: "numbered j no new \<Longrightarrow> j \<noteq> mid \<Longrightarrow> filter (\<lambda>a. att_message_id a = mid) new = []"
  by (induction new arbitrary: no) auto

lemma final_consume:
  assumes ok: "dispatcher_ok s (w, pend)" and s: "valid_settings s" and e: "smtp_only e" and t: "terminal_in mid w"
  shows "final_in mid w (consumer_turn e s w)"
proof (cases "queue w")
  case (Cons j rest)
  let ?w0 = "w\<lparr>queue := rest\<rparr>"
  have c0: "capacity_ok ?w0" using ok by (simp add: dispatcher_ok_def capacity_ok_def quota_nonneg_def)
  have same: "msg_of ?w0 i = msg_of w i" "log_of i ?w0 = log_of i w" for i by (simp_all add: msg_of_def log_of_def)
  show ?thesis
  proof (cases "\<exists>m. msg_of ?w0 j = Some m \<and> \<not> is_terminal (status m)")
    case True
    then obtain m where m: "msg_of ?w0 j = Some m" "\<not> is_terminal (status m)" by blast
    obtain w' m' new where P: "process e s j ?w0 = (Inr (), w')" "row_changed j ?w0 m m' w'"
      "row_outcome e s ?w0 m new m'" "attempts_made s j (attempts m + 1) {} ?w0 new w'"
      "int (length new) \<le> failover_per_tick (dispatch s)"
      using s e c0 m by (rule process_effect)
    have "j \<noteq> mid" using t m by (auto simp: terminal_in_def same)
    moreover from this have "log_of mid w' = log_of mid w"
      using P(4) numbered_other [of j _ new mid] by (auto simp: attempts_made_def log_of_def)
    ultimately show ?thesis using P(1,2) Cons by (simp add: final_in_def consumer_turn_def row_changed_def same)
  next
    case False
    then have "process e s j ?w0 = (Inr (), ?w0)" by (auto simp: process_def split: option.splits)
    then show ?thesis using Cons by (simp add: consumer_turn_def final_same)
  qed
qed (simp add: consumer_turn_def)

lemma final_view: "view_eq w w' \<Longrightarrow> final_in mid w w'"
  by (rule final_same) (simp_all add: view_eq_def route_frame_def)

lemma final_housekeep:
  assumes "dispatcher_ok s (w, pend)" "scans scan"
  shows "final_in mid w (housekeeping_turn e s scan g w)"
proof -
  let ?w1 = "snd (prune e s w)"
  let ?w2 = "snd (refresh_gauges e s g ?w1)"
  have 1: "dispatcher_ok s (?w1, pend)" using prune_ok [OF assms(1), of e] by (simp add: kept_def)
  have v: "view_eq ?w1 ?w2" by (simp add: refresh_gauges_def provider_gauges_view)
  have "db_keys (db ?w2)" using view_ok [OF 1 v] by (simp add: kept_def dispatcher_ok_def)
  then obtain ids where "removed ids ?w2 (snd (retention_sweep e s scan ?w2))"
    using sweep_removes [OF assms(2), of ?w2 e s] by metis
  then have sweep: "final_in mid ?w2 (snd (retention_sweep e s scan ?w2))"
    using \<open>db_keys (db ?w2)\<close> by (rule final_removed)
  have "final_in mid w ?w1"
    by (rule final_same) (rule limiter_frame_fields [OF prune_limiter_frame [of w e s]])+
  from final_trans [OF this final_view [OF v]] have 2: "final_in mid w ?w2" .
  from final_trans [OF this sweep] 2 show ?thesis
    by (auto simp: housekeeping_turn_def Let_def prod.case_eq_if split: sum.splits)
qed

lemma final_claim:
  assumes k: "db_keys (db w)" and t: "terminal_in mid w"
  shows "final_in mid w (fst (producer_claim e s w))"
proof -
  let ?ids = "due_ids (clock e (tick w)) (claim_batch_size (dispatch s)) (messages (db w))"
  have "\<not> msg_id m \<in> set ?ids" if m: "msg_of w mid = Some m" for m
  proof
    assume "msg_id m \<in> set ?ids"
    from due_ids_due [OF k _ this] have "status m = QUEUED" using msg_of_SomeD [OF m] by (simp add: due_def)
    then show False using t m by (simp add: terminal_in_def is_terminal_def)
  qed
  then have "final_in mid w (snd (claim_batch e (claim_batch_size (dispatch s)) w))"
    by (intro final_update [where P = "\<lambda>m. msg_id m \<in> set ?ids"
          and f = "\<lambda>m. m\<lparr>status := SENDING, claimed_at := Some (clock e (tick w))\<rparr>"])
       (auto simp: claim_batch_unfold update_where_def)
  then show ?thesis by (auto simp: producer_claim_def final_in_def msg_of_def log_of_def split: prod.splits)
qed

lemma final_restart:
  assumes t: "terminal_in mid w"
  shows "final_in mid w (app_start w)"
proof (rule final_update [where P = "\<lambda>m. status m = SENDING" and f = "\<lambda>m. m\<lparr>status := QUEUED, claimed_at := None\<rparr>"])
  show "\<not> status m = SENDING" if "msg_of w mid = Some m" for m
    using that t by (auto simp: terminal_in_def is_terminal_def)
qed (simp_all add: app_start_def Let_def fresh_process_def recover_orphans_def load_def refresh_overrides_def update_where_def)

lemma final_step:
  assumes "dispatcher_step e s scan (w, pend) (w', pend')" "valid_settings s" "smtp_only e" "scans scan"
    "dispatcher_ok s (w, pend)" "terminal_in mid w"
  shows "final_in mid w w'"
  using assms(1)
proof cases
  case claim
  then show ?thesis using final_claim [OF _ assms(6), of e s] assms(5) by (simp add: dispatcher_ok_def) (metis fst_conv)
next
  case (put mid)
  then show ?thesis by (simp add: producer_put_def final_same)
next
  case consume
  then show ?thesis using final_consume [OF assms(5,2,3,6)] by simp
next
  case (housekeep g)
  then show ?thesis using final_housekeep [OF assms(5,4)] by simp
next
  case (toggle name en nt)
  then show ?thesis by (auto simp: set_enabled_def utcnow_def Let_def intro!: final_same)
next
  case notify
  then show ?thesis by (simp add: notify_new_message_def final_same)
next
  case wait
  then show ?thesis by (simp add: final_same)
next
  case restart
  then show ?thesis using final_restart [OF assms(6)] by simp
qed

definition final_inv ::
  "'e relay_env_scheme \<Rightarrow> settings \<Rightarrow> (message list \<Rightarrow> message list) \<Rightarrow> int \<Rightarrow> world \<Rightarrow> dispatcher_state \<Rightarrow> bool" where
  "final_inv e s scan mid w0 = (\<lambda>(w, pend). valid_settings s \<longrightarrow> smtp_only e \<longrightarrow> scans scan \<longrightarrow>
     dispatcher_ok s (w, pend) \<and> terminal_in mid w \<and> final_in mid w0 w)"

interpretation final_sys: invariant_system
    "\<lambda>(w, pend). w = w0 \<and> dispatcher_ok s (w, pend) \<and> terminal_in mid w" "dispatcher_step e s scan"
    "final_inv e s scan mid w0"
  for e s scan mid w0
proof
  show "final_inv e s scan mid w0 st"
    if "case st of (w, pend) \<Rightarrow> w = w0 \<and> dispatcher_ok s (w, pend) \<and> terminal_in mid w" for st
    using that by (auto simp: final_inv_def)
  show "final_inv e s scan mid w0 st'" if inv: "final_inv e s scan mid w0 st" and step: "dispatcher_step e s scan st st'" for st st'
  proof -
    obtain w pend w' pend' where st: "st = (w, pend)" "st' = (w', pend')" by (cases st; cases st') auto
    have "dispatcher_ok s (w', pend') \<and> terminal_in mid w' \<and> final_in mid w0 w'"
      if v: "valid_settings s" "smtp_only e" "scans scan"
    proof -
      have i: "dispatcher_ok s (w, pend)" "terminal_in mid w" "final_in mid w0 w"
        using inv v by (simp_all add: final_inv_def st)
      have f: "final_in mid w w'" by (rule final_step [OF step [unfolded st] v i(1,2)])
      have "dispatcher_ok s (w', pend')" using dispatcher_step_kept [OF step [unfolded st] v i(1)] by (simp add: kept_def)
      then show ?thesis using final_terminal [OF f i(2)] final_trans [OF i(3) f] by simp
    qed
    then show ?thesis by (simp add: final_inv_def st)
  qed
qed

section \<open>Properties\<close>

definition demo_start :: world where
  "demo_start = app_start (demo_world [demo_msg 1, demo_msg 2])"

lemma demo_init: "dispatcher_init (demo_start, [])"
proof -
  have "db_keys (db (demo_world [demo_msg 1, demo_msg 2]))" by (rule demo_world_keys) (simp add: demo_msg_def)
  moreover have "quota_nonneg (demo_world [demo_msg 1, demo_msg 2])"
    by (simp add: quota_nonneg_def quota_of_def demo_world_def init_world_def empty_database_def)
  moreover have "distinct (map spool_path [demo_msg 1, demo_msg 2])" by code_simp
  then have "bodies_ok (demo_world [demo_msg 1, demo_msg 2])" by (simp add: bodies_ok_def demo_world_def)
  ultimately show ?thesis unfolding dispatcher_init_def demo_start_def by blast
qed

lemma scans_rev: "scans rev"
  by (simp add: scans_def)

text \<open>The dispatcher loses no message and hands none to two consumers. Whatever the order in
  which the producer, the consumers, housekeeping, operators and restarts act, the ids in the queue
  and in the producer's hands are exactly the messages that are marked as being sent, each once;
  between turns no provider slot is taken, the queue keeps its bound, the keys of the database hold
  and every message still has its body in the spool.\<close>

theorem dispatcher_holds_exactly_sending:
  assumes "valid_settings s" "smtp_only e" "scans scan" "dispatcher_init st0"
    "(dispatcher_step e s scan)\<^sup>*\<^sup>* st0 (w, pend)"
  shows "distinct (queue w @ pend) \<and> set (queue w @ pend) = sending_ids w \<and> inflight w = (\<lambda>_. 0) \<and>
    int (length (queue w)) \<le> queue_maxsize s \<and> db_keys (db w) \<and>
    (\<forall>m \<in> set (messages (db w)). spool w (spool_path m) \<noteq> None)"
  using disp_sys.inv_reachable [OF assms(4,5)] assms(1-3)
  by (auto simp: dispatcher_inv_def dispatcher_ok_def exact_def in_hand_def bodies_ok_def)

theorem dispatcher_holds_exactly_sending_witness:
  "snd (producer_claim (demo_relay_env accepting) demo_settings demo_start) = [1, 2] \<and>
   sending_ids (fst (producer_claim (demo_relay_env accepting) demo_settings demo_start)) = {1, 2}"
proof -
  let ?c = "producer_claim (demo_relay_env accepting) demo_settings demo_start"
  have "(dispatcher_step (demo_relay_env accepting) demo_settings rev)\<^sup>*\<^sup>* (demo_start, []) (fst ?c, snd ?c)"
    using dispatcher_step.claim [of "demo_relay_env accepting" demo_settings rev demo_start] by simp
  from dispatcher_holds_exactly_sending [OF demo_settings_valid demo_smtp_only(1) scans_rev demo_init this]
  have "set (queue (fst ?c) @ snd ?c) = sending_ids (fst ?c)" by blast
  moreover have "snd ?c = [1, 2]" "queue (fst ?c) = []" by code_simp+
  ultimately show ?thesis by simp
qed

text \<open>Claim C22: a settled message stays settled. Once a message is sent or dead-lettered, no later step
  of the dispatcher, restarts included, changes its row or adds to its delivery log, so that a
  message that was delivered is never delivered again; only the retention sweep may remove it, and
  then the log goes with it.\<close>

theorem settled_message_is_final:
  assumes "valid_settings s" "smtp_only e" "scans scan" "dispatcher_ok s (w, pend)"
    "(dispatcher_step e s scan)\<^sup>*\<^sup>* (w, pend) (w', pend')" "msg_of w mid = Some m" "is_terminal (status m)"
  shows "(msg_of w' mid = Some m \<and> log_of mid w' = log_of mid w) \<or> (msg_of w' mid = None \<and> log_of mid w' = [])"
proof -
  have "terminal_in mid w" using assms(6,7) by (simp add: terminal_in_def)
  then have f: "final_in mid w w'" "dispatcher_ok s (w', pend')"
    using final_sys.inv_reachable [of w s mid "(w, pend)" e scan "(w', pend')"] assms(1-5) by (simp_all add: final_inv_def)
  have "log_of mid w' = []" if "msg_of w' mid = None"
    using f(2) that by (auto simp: dispatcher_ok_def db_keys_def log_of_def msg_of_def get_by_None_iff filter_empty_conv)
  then show ?thesis using f(1) assms(6) by (auto simp: final_in_def)
qed

definition demo_settled :: world where
  "demo_settled = app_start (demo_world [(demo_msg 1)\<lparr>status := SENT\<rparr>, demo_msg 2])"

lemma demo_settled_ok: "dispatcher_ok demo_settings (demo_settled, [])"
proof -
  let ?v = "demo_world [(demo_msg 1)\<lparr>status := SENT\<rparr>, demo_msg 2]"
  have "db_keys (db ?v)" by (rule demo_world_keys) (simp add: demo_msg_def)
  moreover have "quota_nonneg ?v"
    by (simp add: quota_nonneg_def quota_of_def demo_world_def init_world_def empty_database_def)
  moreover have "distinct (map spool_path [(demo_msg 1)\<lparr>status := SENT\<rparr>, demo_msg 2])" by code_simp
  then have "bodies_ok ?v" by (simp add: bodies_ok_def demo_world_def)
  ultimately show ?thesis
    using app_start_ok queue_maxsize_pos [OF demo_settings_valid] unfolding demo_settled_def by blast
qed

theorem settled_message_is_final_witness:
  "msg_of (app_start demo_settled) 1 = Some ((demo_msg 1)\<lparr>status := SENT\<rparr>) \<or> msg_of (app_start demo_settled) 1 = None"
proof -
  let ?m = "(demo_msg 1)\<lparr>status := SENT\<rparr>"
  have m: "msg_of demo_settled 1 = Some ?m"
    by (simp add: demo_settled_def app_start_def fresh_process_def refresh_overrides_def load_def recover_orphans_def
        demo_world_def demo_msg_def msg_of_def get_by_def update_where_def)
  have t: "is_terminal (status ?m)" by (simp add: is_terminal_def)
  have "(dispatcher_step (demo_relay_env accepting) demo_settings rev)\<^sup>*\<^sup>* (demo_settled, []) (app_start demo_settled, [])"
    by (rule r_into_rtranclp) (rule dispatcher_step.restart)
  from settled_message_is_final [OF demo_settings_valid demo_smtp_only(1) scans_rev demo_settled_ok this m t]
  show ?thesis by (elim disjE conjE) simp_all
qed

text \<open>Claim C23: the consumers work the queue off. As many turns as the queue is long empty it, whatever
  the providers answer, and when the producer holds nothing no message is left marked as being sent.\<close>

theorem consumers_drain_queue:
  assumes "valid_settings s" "smtp_only e" "dispatcher_ok s (w, [])"
  shows "queue ((consumer_turn e s ^^ length (queue w)) w) = [] \<and>
    sending_ids ((consumer_turn e s ^^ length (queue w)) w) = {}"
proof -
  have turn: "dispatcher_ok s (consumer_turn e s v, [])" if "dispatcher_ok s (v, [])" for v
    using ok_consume [OF that assms(1,2)] by (simp add: kept_def)
  have tail: "queue (consumer_turn e s v) = tl (queue v)" if ok: "dispatcher_ok s (v, [])" for v
    by (rule consume_queue [OF ok assms(1,2)])
  have "dispatcher_ok s ((consumer_turn e s ^^ n) v, []) \<and> queue ((consumer_turn e s ^^ n) v) = drop n (queue v)"
    if "dispatcher_ok s (v, [])" for n v
    using that
  proof (induction n)
    case (Suc n)
    then show ?case using turn tail by (simp add: drop_Suc tl_drop)
  qed simp
  from this [OF assms(3), of "length (queue w)"] show ?thesis by (auto simp: dispatcher_ok_def in_hand_def)
qed

definition demo_handed :: world where
  "demo_handed = producer_put 2 (producer_put 1 (fst (producer_claim (demo_relay_env accepting) demo_settings demo_start)))"

lemma demo_handed_reached:
  "(dispatcher_step (demo_relay_env accepting) demo_settings rev)\<^sup>*\<^sup>* (demo_start, []) (demo_handed, [])"
proof -
  let ?step = "dispatcher_step (demo_relay_env accepting) demo_settings rev"
  let ?c = "producer_claim (demo_relay_env accepting) demo_settings demo_start"
  have c: "snd ?c = [1, 2]" "queue (fst ?c) = []" by code_simp+
  have m: "queue_maxsize demo_settings = 4" by code_simp
  have 1: "?step (demo_start, []) (fst ?c, [1, 2])"
    using dispatcher_step.claim [of "demo_relay_env accepting" demo_settings rev demo_start] c by (metis prod.collapse)
  have 2: "?step (fst ?c, [1, 2]) (producer_put 1 (fst ?c), [2])"
    by (rule dispatcher_step.put) (simp add: c m)
  have 3: "?step (producer_put 1 (fst ?c), [2]) (demo_handed, [])"
    unfolding demo_handed_def by (rule dispatcher_step.put) (simp add: c m producer_put_def)
  show ?thesis
    using 1 2 3 by (meson rtranclp.rtrancl_into_rtrancl rtranclp.rtrancl_refl)
qed

theorem consumers_drain_queue_witness:
  "length (queue demo_handed) = 2 \<and> sending_ids demo_handed = {1, 2} \<and>
   sending_ids ((consumer_turn (demo_relay_env accepting) demo_settings ^^ 2) demo_handed) = {}"
proof -
  have inv: "dispatcher_ok demo_settings (demo_handed, [])" "exact (demo_handed, [])"
    using disp_sys.inv_reachable [OF demo_init demo_handed_reached] demo_smtp_only(1) scans_rev
    by (simp_all add: dispatcher_inv_def)
  have q: "queue demo_handed = [1, 2]" by code_simp
  then have "sending_ids demo_handed = {1, 2}" using inv by (auto simp: dispatcher_ok_def exact_def in_hand_def)
  then show ?thesis using consumers_drain_queue [OF demo_settings_valid demo_smtp_only(1) inv(1)] q
    by (simp add: numeral_2_eq_2)
qed

end
