(* ===== verification/Ingress.thy ===== *)
theory Ingress
  imports Accounts Dispatcher
begin

text \<open>
  \<open>src/smtp_switch/ingress/server.py\<close>: the hooks that the SMTP library calls for each command of a
  client (\<open>SwitchHandler\<close>) and the spool writer. The library itself is outside: a session is any
  sequence of hook calls. Parameters (\<open>mail_env\<close>) are the header text that \<open>BytesHeaderParser\<close>
  finds, \<open>parseaddr\<close>, \<open>uuid4\<close>, and when the file system or the database fails.
\<close>

record mail_env =
  raw_header :: "string \<Rightarrow> string \<Rightarrow> string option"
  parseaddr :: "string \<Rightarrow> string \<times> string"
  uuid_hex :: "nat \<Rightarrow> string"
  write_fails :: "nat \<Rightarrow> string option"
  db_fails :: "nat \<Rightarrow> string option"

text \<open>The parts of \<open>Session\<close> and \<open>Envelope\<close> that the hooks use; \<open>sess_auth_data\<close> is \<open>None\<close> when it is
  not a string.\<close>

record session =
  sess_peer :: peer
  host_name :: "string option"
  authenticated :: bool
  sess_auth_data :: "string option"

record envelope =
  mail_from :: "string option"
  mail_options :: "string list"
  rcpt_tos :: "string list"
  original_content :: py_value
  content :: py_value

section \<open>The spool writer\<close>

text \<open>\<open>dir / name\<close> of two paths in their normal form.\<close>

definition path_join :: "string \<Rightarrow> string \<Rightarrow> string" where
  "path_join dir name =
     (if dir = ''.'' then name else if dir = ''/'' then dir @ name else dir @ ''/'' @ name)"

definition spool_name :: "string \<Rightarrow> datetime \<Rightarrow> string \<Rightarrow> string" where
  "spool_name dir now uid =
     path_join dir (zpad 4 (dec (nat (year_of now))) @ ''/'' @ zpad 2 (dec (nat (month_of now))) @ ''/'' @
                     zpad 2 (dec (nat (day_of now))) @ ''/'' @ uid @ ''.eml'')"

definition spool_write ::
  "'e env_scheme \<Rightarrow> mail_env \<Rightarrow> settings \<Rightarrow> string \<Rightarrow> world \<Rightarrow> (exn + (string \<times> int)) \<times> world" where
  "spool_write e x s body w =
     (let (now, w) = utcnow e w;
          path = spool_name (spool_dir (dispatch s)) now (uuid_hex x (tick w));
          w = w\<lparr>tick := Suc (tick w)\<rparr>
      in case write_fails x (tick w) of
           Some err \<Rightarrow> (Inl (Unexpected err), w)
         | None \<Rightarrow> (Inr (path, int (length body)), w\<lparr>spool := (spool w)(path \<mapsto> body)\<rparr>))"

section \<open>Connection and envelope\<close>

definition access_denied :: string where
  "access_denied = ''550 5.7.1 Access denied''"

definition reject_peer :: "ip_net list \<Rightarrow> session \<Rightarrow> string option" where
  "reject_peer networks ses = (if peer_allowed (sess_peer ses) networks then None else Some access_denied)"

definition handle_EHLO :: "ip_net list \<Rightarrow> string \<Rightarrow> string list \<Rightarrow> session \<Rightarrow> string list \<times> session" where
  "handle_EHLO networks hostname responses ses =
     (let ses = ses\<lparr>host_name := Some hostname\<rparr>
      in case reject_peer networks ses of
           Some rejection \<Rightarrow> ([rejection], ses)
         | None \<Rightarrow> (responses, ses))"

definition handle_HELO :: "ip_net list \<Rightarrow> string \<Rightarrow> string \<Rightarrow> session \<Rightarrow> string \<times> session" where
  "handle_HELO networks server_hostname hostname ses =
     (let ses = ses\<lparr>host_name := Some hostname\<rparr>
      in case reject_peer networks ses of
           Some rejection \<Rightarrow> (rejection, ses)
         | None \<Rightarrow> (''250 '' @ server_hostname, ses))"

definition handle_MAIL :: "settings \<Rightarrow> session \<Rightarrow> string \<Rightarrow> string list \<Rightarrow> envelope \<Rightarrow> string \<times> envelope" where
  "handle_MAIL s ses address options env =
     (if require_auth (ingress s) \<and> \<not> authenticated ses
      then (''530 5.7.0 Authentication required'', env)
      else (''250 OK'', env\<lparr>mail_from := Some address, mail_options := mail_options env @ options\<rparr>))"

definition handle_RCPT :: "mail_env \<Rightarrow> string \<Rightarrow> envelope \<Rightarrow> string \<times> envelope" where
  "handle_RCPT x address env =
     (let (_, addr) = parseaddr x address
      in if CHR ''@'' \<notin> set addr then (''550 5.1.3 Bad recipient address syntax'', env)
         else (''250 OK'', env\<lparr>rcpt_tos := rcpt_tos env @ [address]\<rparr>))"

section \<open>The message\<close>

text \<open>\<open>s.encode('utf-8', 'surrogateescape')\<close> on the characters below 256.\<close>

definition utf8_encode :: "string \<Rightarrow> string" where
  "utf8_encode s = concat (map (\<lambda>c. let n = of_char c :: nat in
     if n < 128 then [c] else [char_of (192 + n div 64), char_of (128 + n mod 64)]) s)"

definition py_truthy :: "py_value \<Rightarrow> bool" where
  "py_truthy v = (case v of PyBytes b \<Rightarrow> b \<noteq> [] | PyStr t \<Rightarrow> t \<noteq> [] | PyNone \<Rightarrow> False)"

definition content_bytes :: "envelope \<Rightarrow> string" where
  "content_bytes env =
     (let raw = (if py_truthy (original_content env) then original_content env
                 else if py_truthy (content env) then content env else PyBytes [])
      in case raw of PyBytes b \<Rightarrow> b | PyStr t \<Rightarrow> utf8_encode t | PyNone \<Rightarrow> [])"

text \<open>
  \<open>headers.get(name)\<close>: under the parser's default policy a value with bytes outside ASCII is a
  \<open>Header\<close> object, which has no method \<open>strip\<close>.
\<close>

datatype header_value = Header_str string | Header_object

definition header_get :: "mail_env \<Rightarrow> string \<Rightarrow> string \<Rightarrow> header_value option" where
  "header_get x body name =
     map_option (\<lambda>v. if list_all (\<lambda>c. (of_char c :: nat) < 128) v then Header_str v else Header_object)
       (raw_header x body name)"

definition header_text :: "mail_env \<Rightarrow> string \<Rightarrow> string \<Rightarrow> exn + string option" where
  "header_text x body name =
     (case header_get x body name of
        None \<Rightarrow> Inr None
      | Some (Header_str v) \<Rightarrow> Inr (none_if_empty (take 512 (strip v)))
      | Some Header_object \<Rightarrow> Inl (AttributeError ''strip''))"

definition new_message ::
  "datetime \<Rightarrow> string option \<Rightarrow> envelope \<Rightarrow> string option \<Rightarrow> string option \<Rightarrow> int \<Rightarrow> string \<Rightarrow> int \<Rightarrow> message" where
  "new_message now acct env subj hdr sz path k =
     \<lparr>msg_id = k, received_at = now, submitting_account = acct, from_addr = str_or_empty (mail_from env),
      rcpt_to = rcpt_tos env, subject = subj, message_id_header = hdr, msg_size = sz, spool_path = path,
      status = QUEUED, attempts = 0, next_attempt_at = now, last_error = None, provider_used = None,
      sent_at = None, claimed_at = None\<rparr>"

definition account_label :: "string option \<Rightarrow> string" where
  "account_label acct = (case acct of None \<Rightarrow> ''-'' | Some a \<Rightarrow> if a = [] then ''-'' else a)"

definition store_message ::
  "'e env_scheme \<Rightarrow> mail_env \<Rightarrow> (world \<Rightarrow> world) option \<Rightarrow> string option \<Rightarrow> envelope \<Rightarrow> string option \<Rightarrow>
   string option \<Rightarrow> string \<Rightarrow> int \<Rightarrow> world \<Rightarrow> string \<times> world" where
  "store_message e x on_enqueue acct env subj hdr path sz w =
     (let (now, w) = utcnow e w in
      case db_fails x (tick w) of
        Some _ \<Rightarrow> (''451 4.3.0 Temporary failure storing message'', spool_delete path w)
      | None \<Rightarrow>
          let k = next_rowid msg_id (messages (db w));
              w = w\<lparr>db := (db w)\<lparr>messages := messages (db w) @ [new_message now acct env subj hdr sz path k]\<rparr>,
                    metrics := (metrics w)\<lparr>messages_received :=
                      bump_label (messages_received (metrics w)) (account_label acct)\<rparr>\<rparr>;
              w = (case on_enqueue of None \<Rightarrow> w | Some f \<Rightarrow> f w)
          in (''250 2.0.0 Message accepted for delivery (queued as '' @ dec (nat k) @ '')'', w))"

definition handle_DATA ::
  "'e env_scheme \<Rightarrow> mail_env \<Rightarrow> settings \<Rightarrow> (world \<Rightarrow> world) option \<Rightarrow> session \<Rightarrow> envelope \<Rightarrow> world \<Rightarrow>
   (exn + string) \<times> world" where
  "handle_DATA e x s on_enqueue ses env w =
     (let body = content_bytes env; max_bytes = max_message_bytes (ingress s) in
      if rcpt_tos env = [] then (Inr ''554 5.5.1 No valid recipients'', w)
      else if int (length body) > max_bytes
      then (Inr (''552 5.3.4 Message exceeds size limit ('' @ dec (nat max_bytes) @ '' bytes)''), w)
      else
        case header_text x body ''Subject'' of
          Inl err \<Rightarrow> (Inl err, w)
        | Inr subj \<Rightarrow>
            (case header_text x body ''Message-ID'' of
               Inl err \<Rightarrow> (Inl err, w)
             | Inr hdr \<Rightarrow>
                 (case spool_write e x s body w of
                    (Inl err, w) \<Rightarrow> (Inl err, w)
                  | (Inr (path, sz), w) \<Rightarrow>
                      (let (reply, w) = store_message e x on_enqueue (sess_auth_data ses) env subj hdr path sz w
                       in (Inr reply, w)))))"

section \<open>Lemmas\<close>

text \<open>Where the body of the next message goes, and when the message is accepted.\<close>

definition data_path :: "'e env_scheme \<Rightarrow> mail_env \<Rightarrow> settings \<Rightarrow> world \<Rightarrow> string" where
  "data_path e x s w = spool_name (spool_dir (dispatch s)) (clock e (tick w)) (uuid_hex x (Suc (tick w)))"

definition headers_ok :: "mail_env \<Rightarrow> string \<Rightarrow> bool" where
  "headers_ok x body \<longleftrightarrow> (\<forall>name \<in> {''Subject'', ''Message-ID''}. header_get x body name \<noteq> Some Header_object)"

definition header_or_none :: "mail_env \<Rightarrow> string \<Rightarrow> string \<Rightarrow> string option" where
  "header_or_none x body name = (case header_text x body name of Inr t \<Rightarrow> t | Inl _ \<Rightarrow> None)"

definition data_accepted :: "mail_env \<Rightarrow> settings \<Rightarrow> envelope \<Rightarrow> world \<Rightarrow> bool" where
  "data_accepted x s env w \<longleftrightarrow>
     rcpt_tos env \<noteq> [] \<and> int (length (content_bytes env)) \<le> max_message_bytes (ingress s) \<and>
     headers_ok x (content_bytes env) \<and>
     write_fails x (Suc (Suc (tick w))) = None \<and> db_fails x (Suc (Suc (Suc (tick w)))) = None"

definition accepted_row :: "'e env_scheme \<Rightarrow> mail_env \<Rightarrow> settings \<Rightarrow> session \<Rightarrow> envelope \<Rightarrow> world \<Rightarrow> message" where
  "accepted_row e x s ses env w =
     new_message (clock e (Suc (Suc (tick w)))) (sess_auth_data ses) env
       (header_or_none x (content_bytes env) ''Subject'') (header_or_none x (content_bytes env) ''Message-ID'')
       (int (length (content_bytes env))) (data_path e x s w) (next_rowid msg_id (messages (db w)))"

definition stored_world ::
  "'e env_scheme \<Rightarrow> mail_env \<Rightarrow> settings \<Rightarrow> session \<Rightarrow> envelope \<Rightarrow> world \<Rightarrow> world" where
  "stored_world e x s ses env w =
     w\<lparr>spool := (spool w)(data_path e x s w \<mapsto> content_bytes env), tick := Suc (Suc (Suc (tick w))),
       db := (db w)\<lparr>messages := messages (db w) @ [accepted_row e x s ses env w]\<rparr>,
       metrics := (metrics w)\<lparr>messages_received := bump_label (messages_received (metrics w)) (account_label (sess_auth_data ses))\<rparr>\<rparr>"

lemma header_text_ok:
  assumes "headers_ok x body" "name \<in> {''Subject'', ''Message-ID''}"
  shows "header_text x body name = Inr (header_or_none x body name)"
proof -
  have "header_get x body name \<noteq> Some Header_object" using assms unfolding headers_ok_def by blast
  then show ?thesis
    by (auto simp: header_or_none_def header_text_def split: option.splits header_value.splits)
qed

lemma header_text_bad:
  assumes "\<not> headers_ok x body"
  shows "header_text x body ''Subject'' = Inl (AttributeError ''strip'') \<or>
    (\<exists>t. header_text x body ''Subject'' = Inr t) \<and> header_text x body ''Message-ID'' = Inl (AttributeError ''strip'')"
proof -
  obtain name where n: "name = ''Subject'' \<or> name = ''Message-ID''" "header_get x body name = Some Header_object"
    using assms unfolding headers_ok_def by blast
  then have "header_text x body name = Inl (AttributeError ''strip'')" by (simp add: header_text_def)
  moreover have "(\<exists>t. header_text x body ''Subject'' = Inr t) \<or> header_text x body ''Subject'' = Inl (AttributeError ''strip'')"
    by (auto simp: header_text_def split: option.splits header_value.splits)
  ultimately show ?thesis using n(1) by auto
qed

lemma data_accept:
  assumes "data_accepted x s env w"
  shows "handle_DATA e x s on_enqueue ses env w =
    (Inr (''250 2.0.0 Message accepted for delivery (queued as '' @ dec (nat (next_rowid msg_id (messages (db w)))) @ '')''),
     case on_enqueue of None \<Rightarrow> stored_world e x s ses env w | Some f \<Rightarrow> f (stored_world e x s ses env w))"
proof -
  have H: "header_text x (content_bytes env) ''Subject'' = Inr (header_or_none x (content_bytes env) ''Subject'')"
    "header_text x (content_bytes env) ''Message-ID'' = Inr (header_or_none x (content_bytes env) ''Message-ID'')"
    using header_text_ok [of x "content_bytes env"] assms by (simp_all add: data_accepted_def)
  have W: "spool_write e x s (content_bytes env) w = (Inr (data_path e x s w, int (length (content_bytes env))),
      w\<lparr>spool := (spool w)(data_path e x s w \<mapsto> content_bytes env), tick := Suc (Suc (tick w))\<rparr>)"
    using assms by (simp add: data_accepted_def spool_write_def utcnow_def data_path_def Let_def)
  have S: "store_message e x on_enqueue (sess_auth_data ses) env (header_or_none x (content_bytes env) ''Subject'')
      (header_or_none x (content_bytes env) ''Message-ID'') (data_path e x s w) (int (length (content_bytes env)))
      (w\<lparr>spool := (spool w)(data_path e x s w \<mapsto> content_bytes env), tick := Suc (Suc (tick w))\<rparr>) =
    (''250 2.0.0 Message accepted for delivery (queued as '' @ dec (nat (next_rowid msg_id (messages (db w)))) @ '')'',
     case on_enqueue of None \<Rightarrow> stored_world e x s ses env w | Some f \<Rightarrow> f (stored_world e x s ses env w))"
    using assms unfolding stored_world_def accepted_row_def by (simp add: data_accepted_def store_message_def utcnow_def Let_def)
  have "rcpt_tos env \<noteq> []" "\<not> int (length (content_bytes env)) > max_message_bytes (ingress s)"
    using assms by (simp_all add: data_accepted_def)
  then show ?thesis unfolding handle_DATA_def Let_def by (simp only: H W S if_False sum.case prod.case)
qed

text \<open>What a refused message leaves behind: the clock has moved, and a file of the same name would be
  gone.\<close>

lemma data_refuse_any:
  assumes "\<not> data_accepted x s env w"
  shows "\<exists>r n sp. handle_DATA e x s on_enqueue ses env w = (r, w\<lparr>spool := sp, tick := tick w + n\<rparr>) \<and>
    (\<forall>t. r \<noteq> Inr (''250'' @ t)) \<and> (spool w (data_path e x s w) = None \<longrightarrow> sp = spool w)"
proof -
  let ?body = "content_bytes env" and ?run = "handle_DATA e x s on_enqueue ses env w"
  have not_250: "''554 5.5.1 No valid recipients'' \<noteq> ''250'' @ t" "''552 5.3.4 Message exceeds size limit ('' @ u \<noteq> ''250'' @ t"
    "''451 4.3.0 Temporary failure storing message'' \<noteq> ''250'' @ t" for t u by simp_all
  have same: "w = w\<lparr>spool := spool w, tick := tick w + 0\<rparr>" by simp
  consider (recipients) "rcpt_tos env = []"
    | (too_big) "rcpt_tos env \<noteq> []" "int (length ?body) > max_message_bytes (ingress s)"
    | (headers) "rcpt_tos env \<noteq> []" "\<not> int (length ?body) > max_message_bytes (ingress s)" "\<not> headers_ok x ?body"
    | (late) "rcpt_tos env \<noteq> []" "\<not> int (length ?body) > max_message_bytes (ingress s)" "headers_ok x ?body"
        "write_fails x (Suc (Suc (tick w))) \<noteq> None \<or> db_fails x (Suc (Suc (Suc (tick w)))) \<noteq> None"
    using assms unfolding data_accepted_def by linarith
  then show ?thesis
  proof cases
    case recipients
    then have "?run = (Inr ''554 5.5.1 No valid recipients'', w)" by (simp add: handle_DATA_def)
    then show ?thesis using not_250(1) same by (metis sum.inject(2))
  next
    case too_big
    then have "?run = (Inr (''552 5.3.4 Message exceeds size limit ('' @ dec (nat (max_message_bytes (ingress s))) @ '' bytes)''), w)"
      by (simp add: handle_DATA_def)
    then show ?thesis using not_250(2) same by (metis sum.inject(2))
  next
    case headers
    then have "?run = (Inl (AttributeError ''strip''), w)"
      using header_text_bad [OF headers(3)] unfolding handle_DATA_def Let_def
      by (elim disjE exE conjE) (simp_all only: if_False sum.case)
    then show ?thesis using same by (metis sum.distinct(1))
  next
    case late
    have H: "header_text x ?body ''Subject'' = Inr (header_or_none x ?body ''Subject'')"
      "header_text x ?body ''Message-ID'' = Inr (header_or_none x ?body ''Message-ID'')"
      using header_text_ok [OF late(3)] by simp_all
    show ?thesis
    proof (cases "write_fails x (Suc (Suc (tick w)))")
      case (Some err)
      then have W: "spool_write e x s ?body w = (Inl (Unexpected err), w\<lparr>spool := spool w, tick := tick w + 2\<rparr>)"
        by (simp add: spool_write_def utcnow_def Let_def)
      have "?run = (Inl (Unexpected err), w\<lparr>spool := spool w, tick := tick w + 2\<rparr>)"
        using late(1,2) unfolding handle_DATA_def Let_def by (simp only: H W if_False sum.case prod.case)
      then show ?thesis by (metis sum.distinct(1))
    next
      case None
      then obtain err where err: "db_fails x (Suc (Suc (Suc (tick w)))) = Some err" using late(4) by auto
      have W: "spool_write e x s ?body w = (Inr (data_path e x s w, int (length ?body)),
          w\<lparr>spool := (spool w)(data_path e x s w \<mapsto> ?body), tick := Suc (Suc (tick w))\<rparr>)"
        using None by (simp add: spool_write_def utcnow_def data_path_def Let_def)
      have S: "store_message e x on_enqueue a env u v (data_path e x s w) k
          (w\<lparr>spool := (spool w)(data_path e x s w \<mapsto> ?body), tick := Suc (Suc (tick w))\<rparr>) =
        (''451 4.3.0 Temporary failure storing message'', w\<lparr>spool := (spool w)(data_path e x s w := None), tick := tick w + 3\<rparr>)" for a u v k
        using err by (simp add: store_message_def utcnow_def spool_delete_def numeral_3_eq_3)
      have "?run = (Inr ''451 4.3.0 Temporary failure storing message'', w\<lparr>spool := (spool w)(data_path e x s w := None), tick := tick w + 3\<rparr>)"
        using late(1,2) unfolding handle_DATA_def Let_def by (simp only: H W S if_False sum.case prod.case)
      then show ?thesis using not_250(3) by (metis fun_upd_triv sum.inject(2))
    qed
  qed
qed

lemma data_refuse:
  assumes "\<not> data_accepted x s env w" "spool w (data_path e x s w) = None"
  shows "\<exists>n. snd (handle_DATA e x s on_enqueue ses env w) = w\<lparr>tick := tick w + n\<rparr>"
    "\<forall>t. fst (handle_DATA e x s on_enqueue ses env w) \<noteq> Inr (''250'' @ t)"
proof -
  obtain r n sp where R: "handle_DATA e x s on_enqueue ses env w = (r, w\<lparr>spool := sp, tick := tick w + n\<rparr>)"
    "\<forall>t. r \<noteq> Inr (''250'' @ t)" "spool w (data_path e x s w) = None \<longrightarrow> sp = spool w"
    using data_refuse_any [OF assms(1), of e on_enqueue ses] by metis
  then show "\<exists>n. snd (handle_DATA e x s on_enqueue ses env w) = w\<lparr>tick := tick w + n\<rparr>"
    "\<forall>t. fst (handle_DATA e x s on_enqueue ses env w) \<noteq> Inr (''250'' @ t)" using assms(2) by auto
qed

section \<open>Properties\<close>


text \<open>Every header is plain, the file system and the database are in order, addresses are not rewritten.\<close>

definition demo_mail :: mail_env where
  "demo_mail = \<lparr>raw_header = (\<lambda>_ name. if name = ''Subject'' then Some '' hi '' else None),
     parseaddr = (\<lambda>a. ([], a)), uuid_hex = (\<lambda>n. ''u'' @ dec n), write_fails = (\<lambda>_. None), db_fails = (\<lambda>_. None)\<rparr>"

definition demo_session :: session where
  "demo_session = \<lparr>sess_peer = Peer_tuple ''127.0.0.1'', host_name = None, authenticated = False, sess_auth_data = None\<rparr>"

definition empty_envelope :: envelope where
  "empty_envelope = \<lparr>mail_from = None, mail_options = [], rcpt_tos = [], original_content = PyNone, content = PyNone\<rparr>"

definition demo_envelope :: envelope where
  "demo_envelope = empty_envelope\<lparr>mail_from := Some ''a@x'', rcpt_tos := [''b@y''], original_content := PyBytes ''body''\<rparr>"

lemma demo_data_accepted: "data_accepted demo_mail demo_settings demo_envelope init_world"
  by code_simp

lemma demo_reply:
  "fst (handle_DATA e demo_mail demo_settings f ses demo_envelope init_world) =
     Inr ''250 2.0.0 Message accepted for delivery (queued as 1)''"
proof -
  have "next_rowid msg_id (messages (db init_world)) = 1"
    by (simp add: next_rowid_def init_world_def empty_database_def)
  moreover have "dec 1 = ''1''" by code_simp
  ultimately show ?thesis using data_accept [OF demo_data_accepted, of e f ses] by simp
qed


text \<open>The address filter only decides the answer to the greeting. A client outside the allowed
  networks gets 550 as its answer to EHLO, but the session then looks like any other: its host name is
  set, and no later hook asks for its address, so that with \<open>require_auth\<close> off its MAIL, RCPT and DATA
  are accepted and the message is queued.\<close>

theorem rejected_peer_can_submit:
  assumes "\<not> peer_allowed (sess_peer ses) networks" "handle_EHLO networks h responses ses = (out, ses')"
    "\<not> require_auth (ingress s)" "CHR ''@'' \<in> set (snd (parseaddr x rcpt))"
    "handle_MAIL s ses' sender [] empty_envelope = (r1, env1)" "handle_RCPT x rcpt env1 = (r2, env2)"
    "data_accepted x s (env2\<lparr>original_content := PyBytes body\<rparr>) w"
  shows "out = [access_denied] \<and> host_name ses' = Some h \<and> r1 = ''250 OK'' \<and> r2 = ''250 OK'' \<and>
    (\<exists>t w' m. handle_DATA e x s on_enqueue ses' (env2\<lparr>original_content := PyBytes body\<rparr>) w = (Inr (''250'' @ t), w') \<and>
       (on_enqueue = None \<longrightarrow> messages (db w') = messages (db w) @ [m] \<and> from_addr m = sender \<and> rcpt_to m = [rcpt]))"
proof -
  let ?env = "env2\<lparr>original_content := PyBytes body\<rparr>"
  have h: "out = [access_denied]" "host_name ses' = Some h"
    using assms(1,2) by (auto simp: handle_EHLO_def reject_peer_def)
  have r1: "r1 = ''250 OK''" "env1 = empty_envelope\<lparr>mail_from := Some sender\<rparr>"
    using assms(3,5) by (auto simp: handle_MAIL_def empty_envelope_def)
  have r2: "r2 = ''250 OK''" "env2 = env1\<lparr>rcpt_tos := [rcpt]\<rparr>"
    using assms(4,6) r1(2) by (auto simp: handle_RCPT_def empty_envelope_def split: prod.splits if_splits)
  have "from_addr (accepted_row e x s ses' ?env w) = sender" "rcpt_to (accepted_row e x s ses' ?env w) = [rcpt]"
    by (simp_all add: accepted_row_def new_message_def r1(2) r2(2) str_or_empty_def)
  then show ?thesis using h r1(1) r2(1) data_accept [OF assms(7), of e on_enqueue ses']
    by (auto simp: stored_world_def)
qed

theorem rejected_peer_can_submit_witness:
  "\<exists>w' m. handle_EHLO [IPv4Network 0x7F000000 0xFF000000] ''evil'' [''250 OK''] (demo_session\<lparr>sess_peer := Peer_tuple ''8.8.8.8''\<rparr>) =
       ([access_denied], demo_session\<lparr>sess_peer := Peer_tuple ''8.8.8.8'', host_name := Some ''evil''\<rparr>) \<and>
     handle_DATA demo_env demo_mail demo_settings None (demo_session\<lparr>sess_peer := Peer_tuple ''8.8.8.8'', host_name := Some ''evil''\<rparr>)
       (demo_envelope) init_world = (Inr ''250 2.0.0 Message accepted for delivery (queued as 1)'', w') \<and>
     messages (db w') = [m] \<and> from_addr m = ''a@x''"
proof -
  let ?net = "[IPv4Network 0x7F000000 0xFF000000]" and ?ses = "demo_session\<lparr>sess_peer := Peer_tuple ''8.8.8.8''\<rparr>"
  let ?ses' = "?ses\<lparr>host_name := Some ''evil''\<rparr>"
  let ?env1 = "empty_envelope\<lparr>mail_from := Some ''a@x''\<rparr>"
  let ?env2 = "?env1\<lparr>rcpt_tos := [''b@y'']\<rparr>"
  have a: "ip_address ''8.8.8.8'' = Some (IPv4Address 0x08080808)" by code_simp
  have p: "\<not> peer_allowed (sess_peer ?ses) ?net" by (simp add: peer_allowed_def unmap_def a)
  then have ehlo: "handle_EHLO ?net ''evil'' [''250 OK''] ?ses = ([access_denied], ?ses')"
    by (simp add: handle_EHLO_def reject_peer_def)
  have open_relay: "\<not> require_auth (ingress demo_settings)" by (simp add: demo_settings_def)
  have at: "CHR ''@'' \<in> set (snd (parseaddr demo_mail ''b@y''))" by (simp add: demo_mail_def)
  have mail: "handle_MAIL demo_settings ?ses' ''a@x'' [] empty_envelope = (''250 OK'', ?env1)"
    using open_relay by (simp add: handle_MAIL_def empty_envelope_def)
  have rcpt: "handle_RCPT demo_mail ''b@y'' ?env1 = (''250 OK'', ?env2)"
    by (simp add: handle_RCPT_def demo_mail_def empty_envelope_def)
  have env: "?env2\<lparr>original_content := PyBytes ''body''\<rparr> = demo_envelope" by (simp add: demo_envelope_def)
  note T = rejected_peer_can_submit [where body = "''body''", OF p ehlo open_relay at mail rcpt, unfolded env, OF demo_data_accepted]
  have reply: "fst (handle_DATA demo_env demo_mail demo_settings None ?ses' demo_envelope init_world) =
      Inr ''250 2.0.0 Message accepted for delivery (queued as 1)''" by (rule demo_reply)
  obtain t w' m where D: "handle_DATA demo_env demo_mail demo_settings None ?ses' demo_envelope init_world = (Inr (''250'' @ t), w')"
    "messages (db w') = messages (db init_world) @ [m]" "from_addr m = ''a@x''"
    using T [of demo_env None] by blast
  then show ?thesis using ehlo reply by (intro exI [of _ w'] exI [of _ m]) (simp add: init_world_def empty_database_def)
qed

text \<open>A message whose subject (or message id) has a byte outside ASCII is never accepted,
  although the server announces SMTPUTF8: reading the header raises an \<open>AttributeError\<close>, the client gets
  the library's error reply and nothing is stored.\<close>

theorem eight_bit_header_is_refused:
  assumes "raw_header x (content_bytes env) name = Some v" "name \<in> {''Subject'', ''Message-ID''}"
    "c \<in> set v" "128 \<le> (of_char c :: nat)" "rcpt_tos env \<noteq> []"
    "int (length (content_bytes env)) \<le> max_message_bytes (ingress s)"
  shows "handle_DATA e x s on_enqueue ses env w = (Inl (AttributeError ''strip''), w)"
proof -
  have "\<not> list_all (\<lambda>c. (of_char c :: nat) < 128) v" unfolding list_all_iff using assms(3,4) by (meson not_less)
  then have "\<not> headers_ok x (content_bytes env)"
    using assms(1,2) unfolding headers_ok_def header_get_def by force
  then show ?thesis using header_text_bad [of x "content_bytes env"] assms(5,6) by (auto simp: handle_DATA_def Let_def)
qed

theorem eight_bit_header_is_refused_witness:
  "handle_DATA demo_env (demo_mail\<lparr>raw_header := (\<lambda>_ _. Some [CHR ''G'', CHR 0xC3, CHR 0xBC])\<rparr>) demo_settings None
     demo_session demo_envelope init_world = (Inl (AttributeError ''strip''), init_world)"
proof (rule eight_bit_header_is_refused [where name = "''Subject''" and c = "CHR 0xC3" and v = "[CHR ''G'', CHR 0xC3, CHR 0xBC]"])
  show "int (length (content_bytes demo_envelope)) \<le> max_message_bytes (ingress demo_settings)" by code_simp
  show "CHR 0xC3 \<in> set [CHR ''G'', CHR 0xC3, CHR 0xBC]" by (simp only: list.set insert_iff simp_thms)
qed (simp_all add: demo_envelope_def empty_envelope_def)

end
