(* ===== verification/Sessions.thy ===== *)
theory Sessions
  imports Ingress
begin

text \<open>
  The clients' side of the program as a transition system: any number of SMTP connections, each a
  sequence of calls of the hooks of \<open>Ingress\<close>, together with the account snapshot (\<open>IngressServer\<close> in
  \<open>src/smtp_switch/ingress/server.py\<close>) and the touch tasks. Which hook the SMTP library calls when is
  taken from its protocol: MAIL needs a greeting, RCPT needs MAIL, a successful AUTH marks the
  session, and a message ends its envelope.
\<close>

record conn =
  conn_session :: session
  conn_envelope :: envelope

text \<open>What the server takes over with a 250: account, sender, recipients and body.\<close>

type_synonym submission = "string option \<times> string \<times> string list \<times> string"

text \<open>\<open>logins\<close> records the names the authenticator has accepted and \<open>accepted\<close> the messages that were
  answered 250; no operation reads them.\<close>

record front =
  conns :: "nat \<Rightarrow> conn"
  acct_store :: account_store
  front_world :: world
  logins :: "string list"
  accepted :: "submission list"

definition fresh_conn :: "peer \<Rightarrow> conn" where
  "fresh_conn p = \<lparr>conn_session = \<lparr>sess_peer = p, host_name = None, authenticated = False, sess_auth_data = None\<rparr>,
     conn_envelope = empty_envelope\<rparr>"

definition set_conn :: "nat \<Rightarrow> conn \<Rightarrow> front \<Rightarrow> front" where
  "set_conn i k f = f\<lparr>conns := (conns f)(i := k)\<rparr>"

definition on_EHLO :: "ip_net list \<Rightarrow> nat \<Rightarrow> string \<Rightarrow> string list \<Rightarrow> front \<Rightarrow> front" where
  "on_EHLO networks i h responses f =
     set_conn i ((conns f i)\<lparr>conn_session := snd (handle_EHLO networks h responses (conn_session (conns f i)))\<rparr>) f"

definition on_HELO :: "ip_net list \<Rightarrow> string \<Rightarrow> nat \<Rightarrow> string \<Rightarrow> front \<Rightarrow> front" where
  "on_HELO networks server_hostname i h f =
     set_conn i ((conns f i)\<lparr>conn_session := snd (handle_HELO networks server_hostname h (conn_session (conns f i)))\<rparr>) f"

definition on_AUTH :: "crypto \<Rightarrow> (string \<Rightarrow> string) \<Rightarrow> nat \<Rightarrow> auth_data \<Rightarrow> front \<Rightarrow> front" where
  "on_AUTH c utf8 i ad f =
     (case authenticator c utf8 ad (acct_store f) of
        (Inr r, st) \<Rightarrow>
          if auth_success r
          then set_conn i ((conns f i)\<lparr>conn_session := (conn_session (conns f i))\<lparr>authenticated := True,
                 sess_auth_data := auth_user r\<rparr>\<rparr>)
               (f\<lparr>acct_store := st, logins := str_or_empty (auth_user r) # logins f\<rparr>)
          else f\<lparr>acct_store := st\<rparr>
      | (Inl _, st) \<Rightarrow> f\<lparr>acct_store := st\<rparr>)"

definition on_MAIL :: "settings \<Rightarrow> nat \<Rightarrow> string \<Rightarrow> string list \<Rightarrow> front \<Rightarrow> front" where
  "on_MAIL s i a opts f =
     set_conn i ((conns f i)\<lparr>conn_envelope :=
       snd (handle_MAIL s (conn_session (conns f i)) a opts (conn_envelope (conns f i)))\<rparr>) f"

definition on_RCPT :: "mail_env \<Rightarrow> nat \<Rightarrow> string \<Rightarrow> front \<Rightarrow> front" where
  "on_RCPT x i a f =
     set_conn i ((conns f i)\<lparr>conn_envelope := snd (handle_RCPT x a (conn_envelope (conns f i)))\<rparr>) f"

definition with_body :: "string \<Rightarrow> envelope \<Rightarrow> envelope" where
  "with_body body env = env\<lparr>original_content := PyBytes body, content := PyBytes body\<rparr>"

definition submission_of :: "session \<Rightarrow> envelope \<Rightarrow> submission" where
  "submission_of ses env = (sess_auth_data ses, str_or_empty (mail_from env), rcpt_tos env, content_bytes env)"

definition is_250 :: "exn + string \<Rightarrow> bool" where
  "is_250 r = (case r of Inl _ \<Rightarrow> False | Inr reply \<Rightarrow> take 3 reply = ''250'')"

definition on_DATA :: "'e env_scheme \<Rightarrow> mail_env \<Rightarrow> settings \<Rightarrow> nat \<Rightarrow> string \<Rightarrow> front \<Rightarrow> front" where
  "on_DATA e x s i body f =
     (let ses = conn_session (conns f i); env = with_body body (conn_envelope (conns f i));
          (r, w) = handle_DATA e x s (Some notify_new_message) ses env (front_world f)
      in set_conn i ((conns f i)\<lparr>conn_envelope := empty_envelope\<rparr>)
           (f\<lparr>front_world := w, accepted := (if is_250 r then [submission_of ses env] else []) @ accepted f\<rparr>))"

inductive session_step ::
  "'e env_scheme \<Rightarrow> mail_env \<Rightarrow> crypto \<Rightarrow> (string \<Rightarrow> string) \<Rightarrow> settings \<Rightarrow> ip_net list \<Rightarrow> front \<Rightarrow> front \<Rightarrow> bool"
  for e x c utf8 s networks where
  connect: "session_step e x c utf8 s networks f (set_conn i (fresh_conn p) f)"
| ehlo: "session_step e x c utf8 s networks f (on_EHLO networks i h responses f)"
| helo: "session_step e x c utf8 s networks f (on_HELO networks server i h f)"
| auth: "session_step e x c utf8 s networks f (on_AUTH c utf8 i ad f)"
| mail: "host_name (conn_session (conns f i)) \<noteq> None \<Longrightarrow>
    session_step e x c utf8 s networks f (on_MAIL s i a opts f)"
| rcpt: "mail_from (conn_envelope (conns f i)) \<noteq> None \<Longrightarrow>
    session_step e x c utf8 s networks f (on_RCPT x i a f)"
| data: "session_step e x c utf8 s networks f (on_DATA e x s i body f)"
| reset: "session_step e x c utf8 s networks f (set_conn i ((conns f i)\<lparr>conn_envelope := empty_envelope\<rparr>) f)"
| refresh: "session_step e x c utf8 s networks f (f\<lparr>acct_store := store_refresh (front_world f) (acct_store f)\<rparr>)"
| touch: "run_touch e c (acct_store f, front_world f) = (st, w) \<Longrightarrow>
    session_step e x c utf8 s networks f (f\<lparr>acct_store := st, front_world := w\<rparr>)"

section \<open>Invariant\<close>

text \<open>With \<open>require_auth\<close>: an envelope that has a sender belongs to an authenticated session, and the
  messages that were not there at the start (\<open>old\<close>) carry the name of an accepted login.\<close>

definition conn_ok :: "settings \<Rightarrow> string list \<Rightarrow> conn \<Rightarrow> bool" where
  "conn_ok s names k \<longleftrightarrow>
     (authenticated (conn_session k) \<longrightarrow> sess_auth_data (conn_session k) \<in> Some ` set names) \<and>
     (mail_from (conn_envelope k) \<noteq> None \<longrightarrow> require_auth (ingress s) \<longrightarrow> authenticated (conn_session k)) \<and>
     (rcpt_tos (conn_envelope k) \<noteq> [] \<longrightarrow> mail_from (conn_envelope k) \<noteq> None)"

definition front_ok :: "settings \<Rightarrow> message list \<Rightarrow> front \<Rightarrow> bool" where
  "front_ok s old f \<longleftrightarrow>
     (\<forall>i. conn_ok s (logins f) (conns f i)) \<and>
     (\<exists>new. messages (db (front_world f)) = old @ new \<and>
        (require_auth (ingress s) \<longrightarrow> (\<forall>m \<in> set new. submitting_account m \<in> Some ` set (logins f))))"

definition front_init :: "settings \<Rightarrow> message list \<Rightarrow> front \<Rightarrow> bool" where
  "front_init s old f \<longleftrightarrow> (\<forall>i. \<exists>p. conns f i = fresh_conn p) \<and> messages (db (front_world f)) = old"

lemma conn_ok_mono: "conn_ok s names k \<Longrightarrow> set names \<subseteq> set names' \<Longrightarrow> conn_ok s names' k"
  by (auto simp: conn_ok_def)

lemma front_ok_set_conn:
  "front_ok s old f \<Longrightarrow> conn_ok s (logins f) k \<Longrightarrow> front_ok s old (set_conn i k f)"
  by (auto simp: front_ok_def set_conn_def)

lemma conn_ok_fresh: "conn_ok s names (fresh_conn p)"
  by (simp add: conn_ok_def fresh_conn_def empty_envelope_def)

lemma conn_ok_reset: "conn_ok s names k \<Longrightarrow> conn_ok s names (k\<lparr>conn_envelope := empty_envelope\<rparr>)"
  by (simp add: conn_ok_def empty_envelope_def)

lemma greeting_session:
  "snd (handle_EHLO networks h responses ses) = ses\<lparr>host_name := Some h\<rparr>"
  "snd (handle_HELO networks server h ses) = ses\<lparr>host_name := Some h\<rparr>"
  by (auto simp: handle_EHLO_def handle_HELO_def Let_def split: option.splits)

lemma authenticator_user:
  "authenticator c utf8 ad st = (Inr r, st') \<Longrightarrow> auth_success r \<Longrightarrow> \<exists>u. auth_user r = Some u"
  by (auto simp: authenticator_def auth_refused_def Let_def split: auth_data.splits if_splits sum.splits option.splits prod.splits)

lemma data_messages:
  "messages (db (snd (handle_DATA e x s (Some notify_new_message) ses env w))) = messages (db w) \<or>
   (rcpt_tos env \<noteq> [] \<and> messages (db (snd (handle_DATA e x s (Some notify_new_message) ses env w))) =
      messages (db w) @ [accepted_row e x s ses env w])"
proof (cases "data_accepted x s env w")
  case True
  then show ?thesis
    by (simp add: data_accept notify_new_message_def stored_world_def) (simp add: data_accepted_def)
next
  case False
  then obtain r n sp where "handle_DATA e x s (Some notify_new_message) ses env w = (r, w\<lparr>spool := sp, tick := tick w + n\<rparr>)"
    using data_refuse_any by metis
  then show ?thesis by simp
qed

lemma auth_ok:
  assumes "front_ok s old f"
  shows "front_ok s old (on_AUTH c utf8 i ad f)"
proof -
  obtain res st where A: "authenticator c utf8 ad (acct_store f) = (res, st)" by fastforce
  show ?thesis
  proof (cases "\<exists>r. res = Inr r \<and> auth_success r")
    case True
    then obtain r u where r: "res = Inr r" "auth_success r" "auth_user r = Some u" using authenticator_user A by blast
    let ?f = "f\<lparr>acct_store := st, logins := u # logins f\<rparr>"
    let ?k = "(conns f i)\<lparr>conn_session := (conn_session (conns f i))\<lparr>authenticated := True, sess_auth_data := Some u\<rparr>\<rparr>"
    have "front_ok s old ?f" using assms conn_ok_mono [of s "logins f" _ "u # logins f"] by (fastforce simp: front_ok_def)
    moreover have "conn_ok s (logins ?f) ?k" using assms by (simp add: front_ok_def conn_ok_def)
    ultimately have "front_ok s old (set_conn i ?k ?f)" by (rule front_ok_set_conn)
    then show ?thesis by (simp add: auth on_AUTH_def A r str_or_empty_def)
  next
    case False
    then have "on_AUTH c utf8 i ad f = f\<lparr>acct_store := st\<rparr>" by (auto simp: on_AUTH_def A split: sum.splits)
    then show ?thesis using assms by (simp add: front_ok_def)
  qed
qed

lemma data_ok:
  assumes "front_ok s old f"
  shows "front_ok s old (on_DATA e x s i body f)"
proof -
  let ?ses = "conn_session (conns f i)"
  let ?env = "with_body body (conn_envelope (conns f i))"
  let ?w' = "snd (handle_DATA e x s (Some notify_new_message) ?ses ?env (front_world f))"
  have k: "conn_ok s (logins f) (conns f i)" using assms by (simp add: front_ok_def)
  obtain new where new: "messages (db (front_world f)) = old @ new"
    "require_auth (ingress s) \<longrightarrow> (\<forall>m \<in> set new. submitting_account m \<in> Some ` set (logins f))"
    using assms unfolding front_ok_def by blast
  have "\<exists>new. messages (db ?w') = old @ new \<and>
      (require_auth (ingress s) \<longrightarrow> (\<forall>m \<in> set new. submitting_account m \<in> Some ` set (logins f)))"
    using data_messages [of e x s ?ses ?env "front_world f"]
  proof
    assume "messages (db ?w') = messages (db (front_world f))"
    then show ?thesis using new by auto
  next
    let ?m = "accepted_row e x s ?ses ?env (front_world f)"
    assume a: "rcpt_tos ?env \<noteq> [] \<and> messages (db ?w') = messages (db (front_world f)) @ [?m]"
    have "submitting_account ?m \<in> Some ` set (logins f)" if "require_auth (ingress s)"
      using k a that by (simp add: conn_ok_def accepted_row_def new_message_def with_body_def)
    then show ?thesis using a new by (intro exI [of _ "new @ [?m]"]) auto
  qed
  then have F: "front_ok s old (f\<lparr>front_world := ?w', accepted := acc\<rparr>)" for acc
    using assms by (simp add: front_ok_def)
  have C: "conn_ok s (logins (f\<lparr>front_world := ?w', accepted := acc\<rparr>)) ((conns f i)\<lparr>conn_envelope := empty_envelope\<rparr>)" for acc
    using conn_ok_reset [OF k] by simp
  show ?thesis unfolding on_DATA_def Let_def prod.case_eq_if by (rule front_ok_set_conn [OF F C])
qed

lemma session_step_ok:
  assumes "session_step e x c utf8 s networks f f'" "front_ok s old f"
  shows "front_ok s old f'"
  using assms(1)
proof cases
  case (connect i p)
  then show ?thesis using front_ok_set_conn [OF assms(2) conn_ok_fresh] by simp
next
  case (ehlo i h responses)
  have "conn_ok s (logins f) (conns f i)" using assms(2) by (simp add: front_ok_def)
  then show ?thesis unfolding ehlo on_EHLO_def greeting_session
    by (intro front_ok_set_conn [OF assms(2)]) (simp add: conn_ok_def)
next
  case (helo server i h)
  have "conn_ok s (logins f) (conns f i)" using assms(2) by (simp add: front_ok_def)
  then show ?thesis unfolding helo on_HELO_def greeting_session
    by (intro front_ok_set_conn [OF assms(2)]) (simp add: conn_ok_def)
next
  case (auth i ad)
  show ?thesis unfolding auth by (rule auth_ok [OF assms(2)])
next
  case (mail i a opts)
  have "conn_ok s (logins f) (conns f i)" using assms(2) by (simp add: front_ok_def)
  then show ?thesis unfolding mail on_MAIL_def
    by (intro front_ok_set_conn [OF assms(2)]) (auto simp: conn_ok_def handle_MAIL_def)
next
  case (rcpt i a)
  have "conn_ok s (logins f) (conns f i)" using assms(2) by (simp add: front_ok_def)
  then show ?thesis using rcpt(2) unfolding rcpt(1) on_RCPT_def
    by (intro front_ok_set_conn [OF assms(2)]) (auto simp: conn_ok_def handle_RCPT_def split: prod.splits)
next
  case (data i body)
  show ?thesis unfolding data by (rule data_ok [OF assms(2)])
next
  case (reset i)
  have "conn_ok s (logins f) (conns f i)" using assms(2) by (simp add: front_ok_def)
  then show ?thesis unfolding reset by (intro front_ok_set_conn [OF assms(2)] conn_ok_reset)
next
  case refresh
  then show ?thesis using assms(2) by (simp add: front_ok_def)
next
  case (touch st w)
  have "messages (db w) = messages (db (front_world f))"
    using touch(2) account_frame_fields(1) [OF touch_frame] by (auto simp: run_touch_def split: list.splits)
  then show ?thesis using assms(2) by (simp add: front_ok_def touch(1))
qed

interpretation front_sys: invariant_system "front_init s old" "session_step e x c utf8 s networks" "front_ok s old"
  for s old e x c utf8 networks
proof
  show "front_ok s old f" if "front_init s old f" for f
  proof -
    have "conn_ok s (logins f) (conns f i)" for i
      using that conn_ok_fresh unfolding front_init_def by metis
    then show ?thesis using that by (simp add: front_ok_def front_init_def)
  qed
qed (rule session_step_ok)

section \<open>Properties\<close>

text \<open>With \<open>require_auth\<close> on, only holders of an account submit mail. In every state that any
  interleaving of any number of SMTP sessions can reach, each message that was not in the table at the
  start carries the name of an account whose login the authenticator has accepted, and nothing that
  was in the table is changed or lost.\<close>

theorem only_accounts_submit:
  assumes "require_auth (ingress s)" "front_init s old f0" "(session_step e x c utf8 s networks)\<^sup>*\<^sup>* f0 f"
  shows "\<exists>new. messages (db (front_world f)) = old @ new \<and>
    (\<forall>m \<in> set new. \<exists>user \<in> set (logins f). submitting_account m = Some user)"
  using front_sys.inv_reachable [OF assms(2,3)] assms(1) unfolding front_ok_def by blast

definition auth_settings :: settings where
  "auth_settings = demo_settings\<lparr>ingress := (ingress demo_settings)\<lparr>require_auth := True\<rparr>\<rparr>"

definition demo_front :: front where
  "demo_front = \<lparr>conns = (\<lambda>_. fresh_conn No_peer), acct_store = store_refresh demo_account_world empty_store,
     front_world = demo_account_world, logins = [], accepted = []\<rparr>"

text \<open>A session that greets, logs in, names sender and recipient, and sends a body.\<close>

definition demo_login :: front where
  "demo_login = on_AUTH demo_crypto id 0 (LoginPassword (PyBytes ''svc'') (PyBytes ''secret99''))
     (on_EHLO [] 0 ''client'' [] demo_front)"

definition demo_ready :: front where
  "demo_ready = on_RCPT demo_mail 0 ''b@y'' (on_MAIL auth_settings 0 ''a@x'' [] demo_login)"

lemma demo_login_value:
  "conn_session (conns demo_login 0) = \<lparr>sess_peer = No_peer, host_name = Some ''client'', authenticated = True,
     sess_auth_data = Some ''svc''\<rparr>"
  "conn_envelope (conns demo_login 0) = empty_envelope" "logins demo_login = [''svc'']"
  "front_world demo_login = demo_account_world"
proof -
  have "authenticator demo_crypto id (LoginPassword (PyBytes ''svc'') (PyBytes ''secret99'')) (store_refresh demo_account_world empty_store) =
      (Inr \<lparr>auth_success = True, auth_handled = True, auth_user = Some ''svc''\<rparr>,
       (store_refresh demo_account_world empty_store)\<lparr>touches := [(1, Some ''secret99'')]\<rparr>)"
    by (simp add: authenticator_def Let_def decode_value_def store_verify_def store_refresh_def demo_account_world_def cache_row_def
        demo_account_def demo_crypto_def verify_password_def needs_rehash_def schedule_touch_def empty_store_def)
  then show "conn_session (conns demo_login 0) = \<lparr>sess_peer = No_peer, host_name = Some ''client'', authenticated = True,
     sess_auth_data = Some ''svc''\<rparr>"
    "conn_envelope (conns demo_login 0) = empty_envelope" "logins demo_login = [''svc'']"
    "front_world demo_login = demo_account_world"
    by (simp_all add: demo_login_def on_AUTH_def on_EHLO_def greeting_session set_conn_def demo_front_def fresh_conn_def
        str_or_empty_def)
qed

lemma demo_ready_value:
  "conn_session (conns demo_ready 0) = conn_session (conns demo_login 0)" "logins demo_ready = [''svc'']"
  "conn_envelope (conns demo_ready 0) = empty_envelope\<lparr>mail_from := Some ''a@x'', rcpt_tos := [''b@y'']\<rparr>"
  "front_world demo_ready = demo_account_world"
  using demo_login_value
  by (simp_all add: demo_ready_def on_RCPT_def on_MAIL_def set_conn_def handle_MAIL_def handle_RCPT_def demo_mail_def empty_envelope_def)

lemma demo_ready_reached:
  "(session_step e demo_mail demo_crypto id auth_settings [])\<^sup>*\<^sup>* demo_front (on_DATA e demo_mail auth_settings 0 body demo_ready)"
proof -
  let ?step = "session_step e demo_mail demo_crypto id auth_settings []"
  let ?f1 = "on_EHLO [] 0 ''client'' [] demo_front" and ?f3 = "on_MAIL auth_settings 0 ''a@x'' [] demo_login"
  have 1: "?step demo_front ?f1" by (rule session_step.ehlo)
  have 2: "?step ?f1 demo_login" unfolding demo_login_def by (rule session_step.auth)
  have 3: "?step demo_login ?f3" by (rule session_step.mail) (simp add: demo_login_value)
  have "mail_from (conn_envelope (conns ?f3 0)) \<noteq> None"
    by (simp add: on_MAIL_def set_conn_def handle_MAIL_def demo_login_value)
  then have 4: "?step ?f3 demo_ready" unfolding demo_ready_def by (rule session_step.rcpt)
  have 5: "?step demo_ready (on_DATA e demo_mail auth_settings 0 body demo_ready)" by (rule session_step.data)
  show ?thesis using 1 2 3 4 5 by (meson rtranclp.rtrancl_into_rtrancl rtranclp.rtrancl_refl)
qed

theorem only_accounts_submit_witness:
  "\<exists>m. messages (db (front_world (on_DATA demo_env demo_mail auth_settings 0 ''body'' demo_ready))) = [m] \<and>
     submitting_account m = Some ''svc''"
proof -
  let ?f = "on_DATA demo_env demo_mail auth_settings 0 ''body'' demo_ready"
  let ?env = "demo_envelope\<lparr>content := PyBytes ''body''\<rparr>"
  have i: "front_init auth_settings [] demo_front"
    by (auto simp: front_init_def demo_front_def demo_account_world_def empty_database_def)
  have a: "require_auth (ingress auth_settings)" by (simp add: auth_settings_def)
  have "data_accepted demo_mail auth_settings ?env demo_account_world" by code_simp
  then have w: "front_world ?f = notify_new_message (stored_world demo_env demo_mail auth_settings (conn_session (conns demo_login 0)) ?env demo_account_world)"
    by (simp add: on_DATA_def set_conn_def demo_ready_value demo_envelope_def data_accept with_body_def Let_def)
  have l: "logins ?f = [''svc'']" by (simp add: on_DATA_def set_conn_def demo_ready_value Let_def prod.case_eq_if)
  obtain new where "messages (db (front_world ?f)) = [] @ new" "\<forall>m \<in> set new. \<exists>user \<in> set (logins ?f). submitting_account m = Some user"
    using only_accounts_submit [OF a i demo_ready_reached] by blast
  then show ?thesis using l w by (auto simp: notify_new_message_def stored_world_def demo_account_world_def empty_database_def)
qed

end
