(* ===== verification/Queries.thy ===== *)
theory Queries
  imports Dispatcher
begin

text \<open>
  \<open>src/smtp_switch/web/queries.py\<close>, the read side of the dashboard and the API, with
  \<open>CircuitBreaker.snapshot\<close>. The order in which the database returns rows that a query does not order
  is a parameter (\<open>query_env\<close>); \<open>LIKE\<close>, \<open>LIMIT\<close> and \<open>OFFSET\<close> are SQLite's.
\<close>

record query_env =
  scan_messages :: "message list \<Rightarrow> message list"
  scan_attempts :: "delivery_attempt list \<Rightarrow> delivery_attempt list"

definition query_env_ok :: "query_env \<Rightarrow> bool" where
  "query_env_ok qe \<longleftrightarrow> scans (scan_messages qe) \<and> (\<forall>rows. mset (scan_attempts qe rows) = mset rows)"

section \<open>Counts\<close>

definition status_value :: "message_status \<Rightarrow> string" where
  "status_value st = (case st of QUEUED \<Rightarrow> ''queued'' | SENDING \<Rightarrow> ''sending'' | SENT \<Rightarrow> ''sent'' | DEADLETTER \<Rightarrow> ''deadletter'')"

definition queue_counts :: "world \<Rightarrow> (string \<times> int) list" where
  "queue_counts w =
     map (\<lambda>st. (status_value st, count_where (\<lambda>m. status m = st) (messages (db w)))) [QUEUED, SENDING, SENT, DEADLETTER]"

record throughput_view =
  window_minutes :: int
  tp_received :: int
  tp_sent :: int
  tp_deadlettered :: int

definition throughput :: "'e env_scheme \<Rightarrow> int \<Rightarrow> world \<Rightarrow> throughput_view \<times> world" where
  "throughput e minutes w =
     (let (now, w) = utcnow e w; since = now - minutes_td minutes; ms = messages (db w)
      in (\<lparr>window_minutes = minutes,
           tp_received = count_where (\<lambda>m. received_at m \<ge> since) ms,
           tp_sent = count_where (\<lambda>m. status m = SENT \<and> (case sent_at m of None \<Rightarrow> False | Some t \<Rightarrow> t \<ge> since)) ms,
           tp_deadlettered = count_where (\<lambda>m. status m = DEADLETTER \<and> received_at m \<ge> since) ms\<rparr>, w))"

section \<open>Providers\<close>

record breaker_view =
  bv_status :: breaker_status
  bv_healthy :: bool
  bv_failures :: int
  bv_opened_at :: "datetime option"
  bv_last_failure_at :: "datetime option"
  bv_last_success_at :: "datetime option"

text \<open>\<open>snapshot\<close>, over the names in the dictionary \<open>_states\<close>.\<close>

fun snapshot ::
  "'e env_scheme \<Rightarrow> circuit_breaker_config \<Rightarrow> string list \<Rightarrow> world \<Rightarrow> (string \<times> breaker_view) list \<times> world" where
  "snapshot e cfg [] w = ([], w)"
| "snapshot e cfg (name # names) w =
     (let (st, w) = st_get name w;
          (state, w) = breaker_status e cfg name w;
          (rest, w) = snapshot e cfg names w
      in ((name, \<lparr>bv_status = state, bv_healthy = cb_healthy st, bv_failures = cb_failures st,
                  bv_opened_at = cb_opened_at st, bv_last_failure_at = cb_last_failure_at st,
                  bv_last_success_at = cb_last_success_at st\<rparr>) # rest, w))"

definition limit_map :: "provider_limits \<Rightarrow> (string \<times> int option) list" where
  "limit_map l = [(''per_second'', per_second l), (''per_minute'', per_minute l), (''per_hour'', per_hour l),
     (''per_day'', per_day l), (''per_month'', per_month l), (''concurrent'', max_concurrent l)]"

record window_view =
  wv_window :: string
  wv_limit :: int
  wv_used :: int
  wv_headroom :: int

definition window_views :: "provider_limits \<Rightarrow> (string \<times> int) list \<Rightarrow> window_view list" where
  "window_views l h =
     concat (map (\<lambda>(window, limit). case limit of
          None \<Rightarrow> []
        | Some n \<Rightarrow> (let room = dict_get h window n
                    in [\<lparr>wv_window = window, wv_limit = n, wv_used = max 0 (n - room), wv_headroom = room\<rparr>]))
       (limit_map l))"

record provider_view =
  pv_name :: string
  pv_priority :: int
  pv_enabled :: bool
  pv_config_enabled :: bool
  pv_breaker :: breaker_status
  pv_failures :: int
  pv_last_failure_at :: "datetime option"
  pv_last_success_at :: "datetime option"
  pv_inflight :: int
  pv_accepting :: bool
  pv_blocking_window :: "string option"
  pv_windows :: "window_view list"

fun overview_rows ::
  "'e env_scheme \<Rightarrow> settings \<Rightarrow> (string \<times> breaker_view) list \<Rightarrow> provider_config list \<Rightarrow> world \<Rightarrow>
   (exn + provider_view list) \<times> world" where
  "overview_rows e s snap [] w = (Inr [], w)"
| "overview_rows e s snap (cfg # cfgs) w =
     (let name = prov_name cfg in
      case check e s name w of
        (Inl x, w) \<Rightarrow> (Inl x, w)
      | (Inr c, w) \<Rightarrow>
          (let bs = map_of snap name; is_on = is_enabled s w name; busy = inflight w name;
               (accepting, w) = (if allowed c then is_available e (circuit_breaker s) name w else (False, w));
               row = \<lparr>pv_name = name, pv_priority = priority cfg, pv_enabled = is_on, pv_config_enabled = prov_enabled cfg,
                 pv_breaker = (case bs of None \<Rightarrow> Closed | Some b \<Rightarrow> bv_status b),
                 pv_failures = (case bs of None \<Rightarrow> 0 | Some b \<Rightarrow> bv_failures b),
                 pv_last_failure_at = (case bs of None \<Rightarrow> None | Some b \<Rightarrow> bv_last_failure_at b),
                 pv_last_success_at = (case bs of None \<Rightarrow> None | Some b \<Rightarrow> bv_last_success_at b),
                 pv_inflight = busy, pv_accepting = accepting, pv_blocking_window = blocking_window c,
                 pv_windows = window_views (limits cfg) (headroom c)\<rparr>
           in case overview_rows e s snap cfgs w of
                (Inl x, w) \<Rightarrow> (Inl x, w)
              | (Inr rows, w) \<Rightarrow> (Inr (row # rows), w)))"

definition provider_overview ::
  "'e env_scheme \<Rightarrow> settings \<Rightarrow> string list \<Rightarrow> world \<Rightarrow> (exn + provider_view list) \<times> world" where
  "provider_overview e s names w =
     (let (snap, w) = snapshot e (circuit_breaker s) names w
      in overview_rows e s snap (registry_all s) w)"

section \<open>Messages\<close>

text \<open>SQLite's \<open>LIKE\<close>: \<open>%\<close> any text, \<open>_\<close> any character, ASCII letters without case.\<close>

definition fold_case :: "char \<Rightarrow> char" where
  "fold_case c = (if CHR ''A'' \<le> c \<and> c \<le> CHR ''Z'' then char_of ((of_char c :: nat) + 32) else c)"

fun like :: "string \<Rightarrow> string \<Rightarrow> bool" where
  "like [] t = (t = [])"
| "like (c # p) t =
     (if c = CHR ''%'' then like p t \<or> (case t of [] \<Rightarrow> False | _ # u \<Rightarrow> like (c # p) u)
      else (case t of [] \<Rightarrow> False
            | x # u \<Rightarrow> (c = CHR ''_'' \<or> fold_case c = fold_case x) \<and> like p u))"

definition like_opt :: "string \<Rightarrow> string option \<Rightarrow> bool" where
  "like_opt p t = (case t of None \<Rightarrow> False | Some u \<Rightarrow> like p u)"

definition search_pattern :: "string \<Rightarrow> string" where
  "search_pattern q = ''%'' @ q @ ''%''"

definition matches_search :: "string option \<Rightarrow> message \<Rightarrow> bool" where
  "matches_search q m =
     (case q of
        None \<Rightarrow> True
      | Some t \<Rightarrow> t = [] \<or>
          (let p = search_pattern t
           in like p (from_addr m) \<or> like_opt p (subject m) \<or> like_opt p (message_id_header m)))"

definition matches_status :: "string option \<Rightarrow> message \<Rightarrow> bool" where
  "matches_status st m = (case st of None \<Rightarrow> True | Some t \<Rightarrow> t = [] \<or> status_value (status m) = t)"

text \<open>\<open>LIMIT n OFFSET k\<close>: a negative limit is no limit, a negative offset is none.\<close>

definition sql_window :: "int \<Rightarrow> int \<Rightarrow> 'a list \<Rightarrow> 'a list" where
  "sql_window n k rows = (if n < 0 then drop (nat k) rows else take (nat n) (drop (nat k) rows))"

definition matching_messages :: "query_env \<Rightarrow> string option \<Rightarrow> string option \<Rightarrow> world \<Rightarrow> message list" where
  "matching_messages qe st q w =
     sort_key (\<lambda>m. - received_at m)
       (filter (\<lambda>m. matches_status st m \<and> matches_search q m) (scan_messages qe (messages (db w))))"

definition list_messages :: "query_env \<Rightarrow> string option \<Rightarrow> string option \<Rightarrow> int \<Rightarrow> int \<Rightarrow> world \<Rightarrow> message list" where
  "list_messages qe st q limit offset w = sql_window limit offset (matching_messages qe st q w)"

definition get_message :: "query_env \<Rightarrow> int \<Rightarrow> world \<Rightarrow> (message \<times> delivery_attempt list) option" where
  "get_message qe mid w =
     (case msg_of w mid of
        None \<Rightarrow> None
      | Some m \<Rightarrow> Some (m, sort_key attempt_no
          (filter (\<lambda>a. att_message_id a = mid) (scan_attempts qe (delivery_attempts (db w))))))"

section \<open>Lemmas\<close>

lemma snapshot_view: "view_eq w (snd (snapshot e cfg names w))"
proof (induction names arbitrary: w)
  case (Cons name names)
  have 1: "view_eq w (snd (st_get name w))"
    by (rule breaker_frame_view [OF st_get_breaker_frame]) (simp add: st_get_def cb_of_def split: option.splits)
  have 2: "view_eq v (snd (breaker_status e cfg name v))" for v
    by (rule breaker_frame_view [OF breaker_status_breaker_frame]) simp
  show ?case using view_eq_trans [OF view_eq_trans [OF 1 2] Cons.IH] by (simp add: Let_def prod.case_eq_if)
qed simp

lemma overview_rows_view: "view_eq w (snd (overview_rows e s snap cfgs w))"
proof (induction cfgs arbitrary: w)
  case (Cons cfg cfgs)
  let ?n = "prov_name cfg"
  let ?w1 = "snd (check e s ?n w)"
  have c: "view_eq w ?w1" by (rule check_view)
  show ?case
  proof (cases "fst (check e s ?n w)")
    case (Inl x)
    then show ?thesis using c by (simp add: Let_def prod.case_eq_if)
  next
    case (Inr ch)
    have step: "view_eq w (snd (overview_rows e s snap cfgs v))" if "view_eq ?w1 v" for v
      by (rule view_eq_trans [OF view_eq_trans [OF c that] Cons.IH])
    show ?thesis
      using Inr step [OF is_available_view] step [OF view_eq_refl]
      by (cases "allowed ch") (auto simp: Let_def prod.case_eq_if split: sum.splits)
  qed
qed simp

lemma provider_overview_view: "view_eq w (snd (provider_overview e s names w))"
  using view_eq_trans [OF snapshot_view overview_rows_view] by (simp add: provider_overview_def Let_def prod.case_eq_if)

lemma throughput_view_eq: "view_eq w (snd (throughput e minutes w))"
  by (simp add: throughput_def utcnow_def Let_def tick_view_eq)

lemma like_any: "like (CHR ''%'' # p) t \<longleftrightarrow> (\<exists>a b. t = a @ b \<and> like p b)"
proof (induction t)
  case Nil
  then show ?case by simp
next
  case (Cons x t)
  show ?case
  proof
    assume "like (CHR ''%'' # p) (x # t)"
    then have "like p (x # t) \<or> like (CHR ''%'' # p) t" by simp
    then show "\<exists>a b. x # t = a @ b \<and> like p b"
    proof
      assume "like p (x # t)"
      then show ?thesis by (intro exI [of _ "[]"] exI [of _ "x # t"]) simp
    next
      assume "like (CHR ''%'' # p) t"
      then obtain a b where "t = a @ b" "like p b" using Cons.IH by blast
      then show ?thesis by (intro exI [of _ "x # a"] exI [of _ b]) simp
    qed
  next
    assume "\<exists>a b. x # t = a @ b \<and> like p b"
    then obtain a b where ab: "x # t = a @ b" "like p b" by blast
    then show "like (CHR ''%'' # p) (x # t)" using Cons.IH by (cases a) auto
  qed
qed

lemma like_literal:
  assumes "CHR ''%'' \<notin> set q" "CHR ''_'' \<notin> set q"
  shows "like (q @ p) t \<longleftrightarrow> (\<exists>a b. t = a @ b \<and> map fold_case a = map fold_case q \<and> like p b)"
  using assms
proof (induction q arbitrary: t)
  case (Cons c q)
  show ?case
  proof (cases t)
    case (Cons x u)
    then have "like ((c # q) @ p) t \<longleftrightarrow> fold_case c = fold_case x \<and> like (q @ p) u" using Cons.prems by auto
    also have "like (q @ p) u \<longleftrightarrow> (\<exists>a b. u = a @ b \<and> map fold_case a = map fold_case q \<and> like p b)"
      using Cons.IH Cons.prems by simp
    also have "fold_case c = fold_case x \<and> (\<exists>a b. u = a @ b \<and> map fold_case a = map fold_case q \<and> like p b) \<longleftrightarrow>
        (\<exists>a b. t = a @ b \<and> map fold_case a = map fold_case (c # q) \<and> like p b)" (is "?l \<longleftrightarrow> ?r")
    proof
      assume ?l
      then obtain a b where "fold_case c = fold_case x" "u = a @ b" "map fold_case a = map fold_case q" "like p b" by blast
      then show ?r using Cons by (intro exI [of _ "x # a"] exI [of _ b]) simp
    next
      assume ?r
      then obtain a b where ab: "t = a @ b" "map fold_case a = map fold_case (c # q)" "like p b" by blast
      then obtain a' where "a = x # a'" using Cons by (cases a) auto
      then show ?l using ab Cons by auto
    qed
    finally show ?thesis .
  next
    case Nil
    have "c \<noteq> CHR ''%''" using Cons.prems(1) by (metis list.set_intros(1))
    then show ?thesis using Nil by simp
  qed
qed simp

lemma sql_window_append:
  "0 \<le> n \<Longrightarrow> 0 \<le> m \<Longrightarrow> 0 \<le> k \<Longrightarrow> sql_window n k rows @ sql_window m (k + n) rows = sql_window (n + m) k rows"
  by (simp add: sql_window_def nat_add_distrib take_add) (simp add: add.commute)

lemma search_literal:
  assumes "CHR ''%'' \<notin> set q" "CHR ''_'' \<notin> set q"
  shows "like (search_pattern q) t \<longleftrightarrow> (\<exists>a x b. t = a @ x @ b \<and> map fold_case x = map fold_case q)"
proof -
  have any: "like ''%'' b" for b using like_any [of "[]" b] by (metis append_Nil2 like.simps(1))
  have "like (search_pattern q) t \<longleftrightarrow> (\<exists>a c. t = a @ c \<and> like (q @ ''%'') c)" unfolding search_pattern_def
    using like_any [of "q @ ''%''" t] by simp
  also have "\<dots> \<longleftrightarrow> (\<exists>a x b. t = a @ x @ b \<and> map fold_case x = map fold_case q)"
    unfolding like_literal [OF assms] using any by blast
  finally show ?thesis .
qed

section \<open>Properties\<close>

text \<open>The message list is complete and its pages fit together. For any filters, the list is
  sorted by arrival, newest first, and holds exactly the messages with that status whose sender,
  subject or message id contains the search text (letters compared without case, for a text without
  the wildcards of \<open>LIKE\<close>); consecutive pages are consecutive pieces of it, and a negative limit
  returns all of it.\<close>

theorem message_pages_partition:
  assumes "query_env_ok qe" "CHR ''%'' \<notin> set q" "CHR ''_'' \<notin> set q" "q \<noteq> []" "0 \<le> n" "0 \<le> k" "0 \<le> l"
  shows "list_messages qe st (Some q) n k w @ list_messages qe st (Some q) l (k + n) w = list_messages qe st (Some q) (n + l) k w \<and>
    list_messages qe st (Some q) (- 1) 0 w = matching_messages qe st (Some q) w \<and>
    sorted (map (\<lambda>m. - received_at m) (matching_messages qe st (Some q) w)) \<and>
    mset (matching_messages qe st (Some q) w) = mset (filter (\<lambda>m. matches_status st m \<and>
      (\<exists>t \<in> {from_addr m} \<union> set_option (subject m) \<union> set_option (message_id_header m).
         \<exists>a x b. t = a @ x @ b \<and> map fold_case x = map fold_case q)) (messages (db w)))"
proof -
  have "matches_search (Some q) m \<longleftrightarrow>
      (\<exists>t \<in> {from_addr m} \<union> set_option (subject m) \<union> set_option (message_id_header m).
         \<exists>a x b. t = a @ x @ b \<and> map fold_case x = map fold_case q)" for m
    using assms(4) by (auto simp: matches_search_def Let_def like_opt_def search_literal [OF assms(2,3)] split: option.splits)
  moreover have "mset (scan_messages qe (messages (db w))) = mset (messages (db w))"
    using assms(1) by (simp add: query_env_ok_def scans_def)
  ultimately have "mset (matching_messages qe st (Some q) w) = mset (filter (\<lambda>m. matches_status st m \<and>
      (\<exists>t \<in> {from_addr m} \<union> set_option (subject m) \<union> set_option (message_id_header m).
         \<exists>a x b. t = a @ x @ b \<and> map fold_case x = map fold_case q)) (messages (db w)))"
    unfolding matching_messages_def mset_sort mset_filter by simp
  moreover have "sorted (map (\<lambda>m. - received_at m) (matching_messages qe st (Some q) w))"
    unfolding matching_messages_def by (rule sorted_sort_key)
  moreover have "list_messages qe st (Some q) (- 1) 0 w = matching_messages qe st (Some q) w"
    by (simp add: list_messages_def sql_window_def)
  ultimately show ?thesis using sql_window_append [OF assms(5,7,6)] unfolding list_messages_def by blast
qed

definition demo_query_env :: query_env where
  "demo_query_env = \<lparr>scan_messages = rev, scan_attempts = id\<rparr>"

theorem message_pages_partition_witness:
  "list_messages demo_query_env None (Some ''X'') 1 0 (demo_world [demo_msg 1, demo_msg 2]) @
   list_messages demo_query_env None (Some ''X'') 1 1 (demo_world [demo_msg 1, demo_msg 2]) = [demo_msg 2, demo_msg 1]"
proof -
  let ?w = "demo_world [demo_msg 1, demo_msg 2]"
  have "query_env_ok demo_query_env" by (simp add: query_env_ok_def demo_query_env_def scans_def)
  then have "list_messages demo_query_env None (Some ''X'') 1 0 ?w @ list_messages demo_query_env None (Some ''X'') 1 (0 + 1) ?w =
      list_messages demo_query_env None (Some ''X'') (1 + 1) 0 ?w"
    using message_pages_partition [of demo_query_env "''X''" 1 0 1] by simp
  moreover have "list_messages demo_query_env None (Some ''X'') (1 + 1) 0 ?w = [demo_msg 2, demo_msg 1]" by code_simp
  ultimately show ?thesis by simp
qed

end
