(* ===== verification/Web_Api.thy ===== *)
theory Web_Api
  imports Queries Accounts
begin

text \<open>
  \<open>src/smtp_switch/web/security.py\<close> and \<open>src/smtp_switch/web/api.py\<close>: dashboard sessions and the JSON
  API, one definition per endpoint and \<open>api\<close> for the routing with its session check. The signed
  cookie is a parameter (\<open>web_env\<close>), as is the order of the breaker's dictionary. A request is one
  step: its transaction, the notification and the refresh of the account snapshot together.
\<close>

datatype token_outcome = BadSignature | SignatureExpired | Payload "string \<Rightarrow> string option"

record web_env =
  serializer_dumps :: "string \<Rightarrow> string \<Rightarrow> datetime \<Rightarrow> string"
  serializer_loads :: "string \<Rightarrow> int \<Rightarrow> string \<Rightarrow> datetime \<Rightarrow> token_outcome"
  breaker_names :: "(string \<Rightarrow> cb_state option) \<Rightarrow> string list"

datatype web_error = HTTPException int string | Server_error exn

section \<open>Sessions\<close>

text \<open>Stamps have a resolution of one second.\<close>

definition serializer_ok :: "web_env \<Rightarrow> bool" where
  "serializer_ok x \<longleftrightarrow> (\<forall>secret ttl u t0 t.
     serializer_dumps x secret u t0 \<noteq> [] \<and>
     (t0 \<le> t \<longrightarrow> t div usec_per_second - t0 div usec_per_second \<le> ttl \<longrightarrow>
        serializer_loads x secret ttl (serializer_dumps x secret u t0) t = Payload [''u'' \<mapsto> u]))"

definition session_issue :: "'e env_scheme \<Rightarrow> web_env \<Rightarrow> web_config \<Rightarrow> string \<Rightarrow> world \<Rightarrow> string \<times> world" where
  "session_issue e x cfg user w =
     (let (now, w) = utcnow e w in (serializer_dumps x (session_secret cfg) user now, w))"

definition session_verify ::
  "'e env_scheme \<Rightarrow> web_env \<Rightarrow> web_config \<Rightarrow> string option \<Rightarrow> world \<Rightarrow> string option \<times> world" where
  "session_verify e x cfg token w =
     (if str_or_empty token = [] then (None, w)
      else let (now, w) = utcnow e w in
           case serializer_loads x (session_secret cfg) (session_ttl_seconds cfg) (str_or_empty token) now of
             Payload data \<Rightarrow> (data ''u'', w)
           | _ \<Rightarrow> (None, w))"

definition require_user ::
  "'e env_scheme \<Rightarrow> web_env \<Rightarrow> web_config \<Rightarrow> string option \<Rightarrow> world \<Rightarrow> (web_error + string) \<times> world" where
  "require_user e x cfg token w =
     (case session_verify e x cfg token w of
        (None, w) \<Rightarrow> (Inl (HTTPException 401 ''Not authenticated''), w)
      | (Some u, w) \<Rightarrow> (Inr u, w))"

definition optional_user ::
  "'e env_scheme \<Rightarrow> web_env \<Rightarrow> web_config \<Rightarrow> string option \<Rightarrow> world \<Rightarrow> string option \<times> world" where
  "optional_user e x cfg token w = session_verify e x cfg token w"

definition authenticate :: "crypto \<Rightarrow> string \<Rightarrow> string \<Rightarrow> world \<Rightarrow> exn + string option" where
  "authenticate c user pw w =
     (case get_by user_username user (dashboard_users (db w)) of
        None \<Rightarrow> Inr None
      | Some u \<Rightarrow>
          if \<not> user_enabled u then Inr None
          else (case verify_password c (user_password_hash u) pw of
                  Inl x \<Rightarrow> Inl x
                | Inr b \<Rightarrow> Inr (if b then Some (user_username u) else None)))"

text \<open>The first start of the dashboard: an \<open>admin\<close> account whose generated password is logged.\<close>

definition ensure_bootstrap_user :: "'e env_scheme \<Rightarrow> crypto \<Rightarrow> world \<Rightarrow> string option \<times> world" where
  "ensure_bootstrap_user e c w =
     (if dashboard_users (db w) \<noteq> [] then (None, w)
      else let pw = token_urlsafe c (tick w); w = w\<lparr>tick := Suc (tick w)\<rparr>;
               (h, w) = hash_password c pw w;
               (now, w) = utcnow e w;
               row = \<lparr>user_id = next_rowid user_id (dashboard_users (db w)), user_username = ''admin'',
                      user_password_hash = h, user_enabled = True, user_created_at = now\<rparr>
           in (Some pw, upd_db (\<lambda>d. d\<lparr>dashboard_users := dashboard_users d @ [row]\<rparr>) w))"

section \<open>Messages\<close>

text \<open>\<open>dt.isoformat() + 'Z'\<close>\<close>

definition isoformat :: "datetime \<Rightarrow> string" where
  "isoformat t =
     (let us = t mod usec_per_day; secs = us div usec_per_second; frac = us mod usec_per_second;
          two = (\<lambda>n. zpad 2 (dec (nat n)))
      in zpad 4 (dec (nat (year_of t))) @ ''-'' @ two (month_of t) @ ''-'' @ two (day_of t) @ ''T'' @
         two (secs div 3600) @ '':'' @ two (secs div 60 mod 60) @ '':'' @ two (secs mod 60) @
         (if frac = 0 then [] else ''.'' @ zpad 6 (dec (nat frac))))"

definition iso :: "datetime option \<Rightarrow> string option" where
  "iso t = map_option (\<lambda>t. isoformat t @ ''Z'') t"

record msg_view =
  mv_id :: int
  mv_status :: string
  mv_from_addr :: string
  mv_rcpt_to :: "string list"
  mv_subject :: "string option"
  mv_message_id_header :: "string option"
  mv_size :: int
  mv_attempts :: int
  mv_provider_used :: "string option"
  mv_submitting_account :: "string option"
  mv_received_at :: "string option"
  mv_next_attempt_at :: "string option"
  mv_sent_at :: "string option"
  mv_last_error :: "string option"

definition msg_dict :: "message \<Rightarrow> msg_view" where
  "msg_dict m = \<lparr>mv_id = msg_id m, mv_status = status_value (status m), mv_from_addr = from_addr m,
     mv_rcpt_to = rcpt_to m, mv_subject = subject m, mv_message_id_header = message_id_header m,
     mv_size = msg_size m, mv_attempts = attempts m, mv_provider_used = provider_used m,
     mv_submitting_account = submitting_account m, mv_received_at = iso (Some (received_at m)),
     mv_next_attempt_at = iso (Some (next_attempt_at m)), mv_sent_at = iso (sent_at m), mv_last_error = last_error m\<rparr>"

definition classification_value :: "classification \<Rightarrow> string" where
  "classification_value r = (case r of Sent \<Rightarrow> ''sent'' | Transient \<Rightarrow> ''transient'' | Permanent \<Rightarrow> ''permanent''
     | Connect_error \<Rightarrow> ''connect_error'')"

record attempt_view =
  av_attempt_no :: int
  av_provider :: "string option"
  av_result :: string
  av_smtp_code :: "int option"
  av_error :: "string option"
  av_started_at :: "string option"
  av_finished_at :: "string option"

definition attempt_dict :: "delivery_attempt \<Rightarrow> attempt_view" where
  "attempt_dict a = \<lparr>av_attempt_no = attempt_no a, av_provider = att_provider a,
     av_result = classification_value (att_result a), av_smtp_code = smtp_code a, av_error = att_error a,
     av_started_at = iso (Some (started_at a)), av_finished_at = iso (finished_at a)\<rparr>"

definition not_found :: web_error where
  "not_found = HTTPException 404 ''not found''"

definition messages_endpoint ::
  "query_env \<Rightarrow> string option \<Rightarrow> string option \<Rightarrow> int \<Rightarrow> int \<Rightarrow> world \<Rightarrow> msg_view list" where
  "messages_endpoint qe st q limit offset w = map msg_dict (list_messages qe st q (min limit 200) offset w)"

definition message_detail :: "query_env \<Rightarrow> int \<Rightarrow> world \<Rightarrow> web_error + (msg_view \<times> attempt_view list)" where
  "message_detail qe mid w =
     (case get_message qe mid w of
        None \<Rightarrow> Inl not_found
      | Some (m, atts) \<Rightarrow> Inr (msg_dict m, map attempt_dict atts))"

definition message_raw :: "query_env \<Rightarrow> int \<Rightarrow> world \<Rightarrow> web_error + string" where
  "message_raw qe mid w =
     (case get_message qe mid w of
        None \<Rightarrow> Inl not_found
      | Some (m, _) \<Rightarrow>
          (case spool_read (spool_path m) w of
             Inl _ \<Rightarrow> Inl (HTTPException 410 ''spooled body no longer on disk'')
           | Inr raw \<Rightarrow> Inr raw))"

definition requeued :: "datetime \<Rightarrow> message \<Rightarrow> message" where
  "requeued now m = m\<lparr>status := QUEUED, attempts := 0, next_attempt_at := now, last_error := None, claimed_at := None\<rparr>"

definition requeue :: "'e env_scheme \<Rightarrow> int \<Rightarrow> world \<Rightarrow> (web_error + unit) \<times> world" where
  "requeue e mid w =
     (case msg_of w mid of
        None \<Rightarrow> (Inl not_found, w)
      | Some m \<Rightarrow>
          if status m \<notin> {DEADLETTER, SENT}
          then (Inl (HTTPException 409 (''cannot requeue from '' @ status_value (status m))), w)
          else let (now, w) = utcnow e w;
                   w = upd_db (\<lambda>d. d\<lparr>messages := update_where (\<lambda>m. msg_id m = mid) (requeued now) (messages d)\<rparr>) w
               in (Inr (), notify_new_message w))"

text \<open>The row with its delivery log (the relationship cascades), then the file.\<close>

definition delete_message :: "int \<Rightarrow> world \<Rightarrow> (web_error + unit) \<times> world" where
  "delete_message mid w =
     (case msg_of w mid of
        None \<Rightarrow> (Inl not_found, w)
      | Some m \<Rightarrow>
          (Inr (), spool_delete (spool_path m)
             (upd_db (\<lambda>d. d\<lparr>messages := delete_where (\<lambda>m. msg_id m = mid) (messages d),
                           delivery_attempts := delete_where (\<lambda>a. att_message_id a = mid) (delivery_attempts d)\<rparr>) w)))"

section \<open>Providers\<close>

definition set_provider_enabled ::
  "'e env_scheme \<Rightarrow> settings \<Rightarrow> string \<Rightarrow> bool \<Rightarrow> string \<Rightarrow> world \<Rightarrow> (web_error + unit) \<times> world" where
  "set_provider_enabled e s name en user w =
     (case set_enabled e s name (Some en) (Some (''set by '' @ user)) w of
        (Inl (KeyError _), w) \<Rightarrow> (Inl (HTTPException 404 ''unknown provider''), w)
      | (Inl x, w) \<Rightarrow> (Inl (Server_error x), w)
      | (Inr _, w) \<Rightarrow> (Inr (), w))"

definition reset_breaker :: "'e env_scheme \<Rightarrow> settings \<Rightarrow> string \<Rightarrow> world \<Rightarrow> (web_error + unit) \<times> world" where
  "reset_breaker e s name w =
     (if registry_get s name = None then (Inl (HTTPException 404 ''unknown provider''), w)
      else (Inr (), record_success e name w))"

section \<open>Accounts\<close>

definition valid_account_body :: "string \<Rightarrow> string \<Rightarrow> bool" where
  "valid_account_body user pw \<longleftrightarrow> 1 \<le> length user \<and> length user \<le> 255 \<and> 8 \<le> length pw"

text \<open>A row with the column defaults.\<close>

definition add_account ::
  "'e env_scheme \<Rightarrow> crypto \<Rightarrow> string \<Rightarrow> string \<Rightarrow> string option \<Rightarrow> world \<Rightarrow> world" where
  "add_account e c user pw descr w =
     (let (h, w) = hash_password c pw w;
          (now, w) = utcnow e w;
          row = \<lparr>acct_id = next_rowid acct_id (accounts (db w)), acct_username = user, acct_password_hash = h,
                 acct_description = descr, acct_enabled = True, acct_created_at = now, acct_last_used_at = None\<rparr>
      in upd_db (\<lambda>d. d\<lparr>accounts := accounts d @ [row]\<rparr>) w)"

definition create_account ::
  "'e env_scheme \<Rightarrow> crypto \<Rightarrow> string \<Rightarrow> string \<Rightarrow> string option \<Rightarrow> world \<Rightarrow> (web_error + unit) \<times> world" where
  "create_account e c user pw descr w =
     (if \<not> valid_account_body user pw then (Inl (HTTPException 422 ''validation error''), w)
      else if account_of w user \<noteq> None then (Inl (HTTPException 409 ''username already exists''), w)
      else (Inr (), add_account e c user pw descr w))"

definition reset_account_password :: "crypto \<Rightarrow> int \<Rightarrow> string \<Rightarrow> world \<Rightarrow> (web_error + unit) \<times> world" where
  "reset_account_password c i pw w =
     (if length pw < 8 then (Inl (HTTPException 422 ''password too short (min 8)''), w)
      else case get_by acct_id i (accounts (db w)) of
             None \<Rightarrow> (Inl not_found, w)
           | Some _ \<Rightarrow>
               (let (h, w) = hash_password c pw w
                in (Inr (), update_accounts (\<lambda>a. acct_id a = i) (\<lambda>a. a\<lparr>acct_password_hash := h\<rparr>) w)))"

definition toggle_account :: "int \<Rightarrow> world \<Rightarrow> (web_error + bool) \<times> world" where
  "toggle_account i w =
     (case get_by acct_id i (accounts (db w)) of
        None \<Rightarrow> (Inl not_found, w)
      | Some a \<Rightarrow> (Inr (\<not> acct_enabled a),
                   update_accounts (\<lambda>a. acct_id a = i) (\<lambda>a. a\<lparr>acct_enabled := \<not> acct_enabled a\<rparr>) w))"

definition delete_account :: "int \<Rightarrow> world \<Rightarrow> (web_error + unit) \<times> world" where
  "delete_account i w =
     (Inr (), upd_db (\<lambda>d. d\<lparr>accounts := delete_where (\<lambda>a. acct_id a = i) (accounts d)\<rparr>) w)"

record account_view =
  acv_id :: int
  acv_username :: string
  acv_description :: "string option"
  acv_enabled :: bool
  acv_created_at :: "string option"
  acv_last_used_at :: "string option"

definition list_accounts :: "world \<Rightarrow> account_view list" where
  "list_accounts w = map (\<lambda>a. \<lparr>acv_id = acct_id a, acv_username = acct_username a, acv_description = acct_description a,
       acv_enabled = acct_enabled a, acv_created_at = iso (Some (acct_created_at a)),
       acv_last_used_at = iso (acct_last_used_at a)\<rparr>)
     (sort_key acct_username (accounts (db w)))"

section \<open>Routing\<close>

datatype request =
    Login string string
  | Logout
  | Overview
  | Messages "string option" "string option" int int
  | Message_detail int
  | Message_raw int
  | Requeue int
  | Delete_message int
  | Enable_provider string
  | Disable_provider string
  | Reset_breaker string
  | List_accounts
  | Create_account string string "string option"
  | Reset_account_password int string
  | Toggle_account int
  | Delete_account int

datatype response =
    Error web_error
  | Ok
  | Session string string
  | Overview_view "(string \<times> int) list" throughput_view "provider_view list"
  | Messages_view "msg_view list"
  | Detail_view msg_view "attempt_view list"
  | Raw_body string
  | Provider_view string bool
  | Accounts_view "account_view list"
  | Enabled_view bool

record web_state =
  web_world :: world
  ingress_accounts :: "account_store option"

definition refresh_accounts :: "web_state \<Rightarrow> web_state" where
  "refresh_accounts ws = ws\<lparr>ingress_accounts := map_option (store_refresh (web_world ws)) (ingress_accounts ws)\<rparr>"

definition answer :: "(unit \<Rightarrow> response) \<Rightarrow> (web_error + unit) \<times> world \<Rightarrow> web_state \<Rightarrow> response \<times> web_state" where
  "answer f r ws = (case fst r of Inl x \<Rightarrow> Error x | Inr u \<Rightarrow> f u, ws\<lparr>web_world := snd r\<rparr>)"

text \<open>An account operation that succeeded is followed by a refresh of the ingress snapshot.\<close>

definition account_answer :: "('a \<Rightarrow> response) \<Rightarrow> (web_error + 'a) \<times> world \<Rightarrow> web_state \<Rightarrow> response \<times> web_state" where
  "account_answer f r ws =
     (case fst r of
        Inl x \<Rightarrow> (Error x, ws\<lparr>web_world := snd r\<rparr>)
      | Inr a \<Rightarrow> (f a, refresh_accounts (ws\<lparr>web_world := snd r\<rparr>)))"

definition overview ::
  "'e env_scheme \<Rightarrow> web_env \<Rightarrow> settings \<Rightarrow> web_state \<Rightarrow> response \<times> web_state" where
  "overview e x s ws =
     (let w = web_world ws; counts = queue_counts w; (tp, w) = throughput e 60 w in
      case provider_overview e s (breaker_names x (states w)) w of
        (Inl ex, w) \<Rightarrow> (Error (Server_error ex), ws\<lparr>web_world := w\<rparr>)
      | (Inr rows, w) \<Rightarrow> (Overview_view counts tp rows, ws\<lparr>web_world := w\<rparr>))"

fun endpoint ::
  "'e env_scheme \<Rightarrow> web_env \<Rightarrow> crypto \<Rightarrow> query_env \<Rightarrow> settings \<Rightarrow> string \<Rightarrow> request \<Rightarrow> web_state \<Rightarrow> response \<times> web_state" where
  "endpoint e x c qe s user Overview ws = overview e x s ws"
| "endpoint e x c qe s user (Messages st q limit offset) ws =
     (Messages_view (messages_endpoint qe st q limit offset (web_world ws)), ws)"
| "endpoint e x c qe s user (Message_detail i) ws =
     (case message_detail qe i (web_world ws) of Inl x \<Rightarrow> Error x | Inr (m, a) \<Rightarrow> Detail_view m a, ws)"
| "endpoint e x c qe s user (Message_raw i) ws =
     (case message_raw qe i (web_world ws) of Inl x \<Rightarrow> Error x | Inr b \<Rightarrow> Raw_body b, ws)"
| "endpoint e x c qe s user (Requeue i) ws = answer (\<lambda>_. Ok) (requeue e i (web_world ws)) ws"
| "endpoint e x c qe s user (Delete_message i) ws = answer (\<lambda>_. Ok) (delete_message i (web_world ws)) ws"
| "endpoint e x c qe s user (Enable_provider n) ws =
     answer (\<lambda>_. Provider_view n True) (set_provider_enabled e s n True user (web_world ws)) ws"
| "endpoint e x c qe s user (Disable_provider n) ws =
     answer (\<lambda>_. Provider_view n False) (set_provider_enabled e s n False user (web_world ws)) ws"
| "endpoint e x c qe s user (Reset_breaker n) ws = answer (\<lambda>_. Ok) (reset_breaker e s n (web_world ws)) ws"
| "endpoint e x c qe s user List_accounts ws = (Accounts_view (list_accounts (web_world ws)), ws)"
| "endpoint e x c qe s user (Create_account u p d) ws = account_answer (\<lambda>_. Ok) (create_account e c u p d (web_world ws)) ws"
| "endpoint e x c qe s user (Reset_account_password i p) ws =
     account_answer (\<lambda>_. Ok) (reset_account_password c i p (web_world ws)) ws"
| "endpoint e x c qe s user (Toggle_account i) ws = account_answer Enabled_view (toggle_account i (web_world ws)) ws"
| "endpoint e x c qe s user (Delete_account i) ws = account_answer (\<lambda>_. Ok) (delete_account i (web_world ws)) ws"
| "endpoint e x c qe s user Logout ws = (Ok, ws)"
| "endpoint e x c qe s user (Login u p) ws = (Ok, ws)"

definition login ::
  "'e env_scheme \<Rightarrow> web_env \<Rightarrow> crypto \<Rightarrow> settings \<Rightarrow> string \<Rightarrow> string \<Rightarrow> web_state \<Rightarrow> response \<times> web_state" where
  "login e x c s user pw ws =
     (case authenticate c user pw (web_world ws) of
        Inl ex \<Rightarrow> (Error (Server_error ex), ws)
      | Inr None \<Rightarrow> (Error (HTTPException 401 ''Invalid credentials''), ws)
      | Inr (Some u) \<Rightarrow>
          (let (token, w) = session_issue e x (web s) u (web_world ws)
           in (Session u token, ws\<lparr>web_world := w\<rparr>)))"

text \<open>\<open>Login\<close> and \<open>Logout\<close> are open; every other route depends on \<open>require_user\<close>.\<close>

definition api ::
  "'e env_scheme \<Rightarrow> web_env \<Rightarrow> crypto \<Rightarrow> query_env \<Rightarrow> settings \<Rightarrow> string option \<Rightarrow> request \<Rightarrow> web_state \<Rightarrow>
   response \<times> web_state" where
  "api e x c qe s cookie req ws =
     (case req of
        Login user pw \<Rightarrow> login e x c s user pw ws
      | Logout \<Rightarrow> (Ok, ws)
      | _ \<Rightarrow> (case require_user e x (web s) cookie (web_world ws) of
               (Inl err, w) \<Rightarrow> (Error err, ws\<lparr>web_world := w\<rparr>)
             | (Inr user, w) \<Rightarrow> endpoint e x c qe s user req (ws\<lparr>web_world := w\<rparr>)))"

section \<open>Lemmas\<close>

lemma session_verify_tick: "\<exists>n. snd (session_verify e x cfg token w) = w\<lparr>tick := tick w + n\<rparr>"
proof (cases "str_or_empty token = []")
  case True
  then show ?thesis by (simp add: session_verify_def exI [of _ 0])
next
  case False
  then have "snd (session_verify e x cfg token w) = w\<lparr>tick := tick w + 1\<rparr>"
    by (simp add: session_verify_def utcnow_def Let_def split: token_outcome.split)
  then show ?thesis ..
qed

lemma require_user_tick: "\<exists>n. snd (require_user e x cfg token w) = w\<lparr>tick := tick w + n\<rparr>"
  using session_verify_tick [of e x cfg token w]
  by (auto simp: require_user_def prod.case_eq_if split: option.splits)

lemma add_account_rows:
  "accounts (db (add_account e c user pw descr w)) = accounts (db w) @
     [\<lparr>acct_id = next_rowid acct_id (accounts (db w)), acct_username = user, acct_password_hash = hasher_hash c (tick w) pw,
       acct_description = descr, acct_enabled = True, acct_created_at = clock e (Suc (tick w)), acct_last_used_at = None\<rparr>]"
  by (simp add: add_account_def hash_password_def utcnow_def Let_def)

lemma add_account_frame: "account_frame w (add_account e c user pw descr w)"
  unfolding account_frame_def
  by (rule exI [of _ 2], rule exI [of _ "accounts (db (add_account e c user pw descr w))"])
    (simp add: add_account_def hash_password_def utcnow_def Let_def)

lemma add_account_ok:
  "acct_table_ok w \<Longrightarrow> account_of w user = None \<Longrightarrow> acct_table_ok (add_account e c user pw descr w)"
  by (auto simp: acct_table_ok_def add_account_rows account_of_def get_by_None_iff)

lemma update_accounts_ok:
  assumes "acct_table_ok w" "\<And>a. acct_id (f a) = acct_id a" "\<And>a. acct_username (f a) = acct_username a"
    "accounts (db w') = update_where P f (accounts (db w))"
  shows "acct_table_ok w'"
  using assms(1) map_update_where [of P acct_id f] map_update_where [of P acct_username f] assms(2,3)
  by (simp add: acct_table_ok_def assms(4))

lemma delete_accounts_ok:
  "acct_table_ok w \<Longrightarrow> accounts (db w') = delete_where P (accounts (db w)) \<Longrightarrow> acct_table_ok w'"
  by (simp add: acct_table_ok_def distinct_map_delete_where)

text \<open>What an account operation does to the table, in one relation: everything else stays.\<close>

lemma create_account_effect:
  assumes "acct_table_ok w"
  shows "account_frame w (snd (create_account e c user pw descr w)) \<and> acct_table_ok (snd (create_account e c user pw descr w))"
  using assms add_account_frame [of w e c user pw descr] add_account_ok [OF assms, of user e c pw descr]
  by (simp add: create_account_def)

lemma reset_account_password_effect:
  assumes "acct_table_ok w"
  shows "account_frame w (snd (reset_account_password c i pw w)) \<and> acct_table_ok (snd (reset_account_password c i pw w))"
proof -
  let ?w' = "update_accounts (\<lambda>a. acct_id a = i) (\<lambda>a. a\<lparr>acct_password_hash := hasher_hash c (tick w) pw\<rparr>) (w\<lparr>tick := Suc (tick w)\<rparr>)"
  have "account_frame w ?w'" by (rule account_frame_trans [OF account_frame_tick account_frame_update])
  moreover have "acct_table_ok ?w'" by (rule update_accounts_ok [OF assms]) simp_all
  ultimately show ?thesis using assms
    by (auto simp: reset_account_password_def hash_password_def Let_def split: option.splits)
qed

lemma toggle_account_effect:
  assumes "acct_table_ok w"
  shows "account_frame w (snd (toggle_account i w)) \<and> acct_table_ok (snd (toggle_account i w))"
proof -
  let ?w' = "update_accounts (\<lambda>a. acct_id a = i) (\<lambda>a. a\<lparr>acct_enabled := \<not> acct_enabled a\<rparr>) w"
  have "acct_table_ok ?w'" by (rule update_accounts_ok [OF assms]) simp_all
  then show ?thesis using assms account_frame_update by (auto simp: toggle_account_def split: option.splits)
qed

lemma delete_account_effect:
  assumes "acct_table_ok w"
  shows "account_frame w (snd (delete_account i w)) \<and> acct_table_ok (snd (delete_account i w))"
proof -
  have "account_frame w (snd (delete_account i w))"
    unfolding account_frame_def by (rule exI [of _ 0]) (auto simp: delete_account_def)
  moreover have "acct_table_ok (snd (delete_account i w))"
    by (rule delete_accounts_ok [OF assms]) (simp add: delete_account_def)
  ultimately show ?thesis ..
qed

text \<open>After a refresh the snapshot says what the table says.\<close>

lemma grants_refresh:
  "acct_table_ok w \<Longrightarrow> grants c (store_refresh w st) user p \<longleftrightarrow>
     (\<exists>a. account_of w user = Some a \<and> acct_enabled a \<and> hasher_verify c (acct_password_hash a) p = Verified)"
  using refresh_lookup [of w st user] by (auto simp: grants_def cache_row_def)

lemma account_by_id:
  assumes "acct_table_ok w" "account_of w user = Some a"
  shows "get_by acct_id (acct_id a) (accounts (db w)) = Some a" "a \<in> set (accounts (db w))" "acct_username a = user"
proof -
  show 1: "a \<in> set (accounts (db w))" and "acct_username a = user"
    using assms(2) get_by_Some_in [of acct_username] by (auto simp: account_of_def)
  show "get_by acct_id (acct_id a) (accounts (db w)) = Some a"
    using assms(1) 1 by (simp add: acct_table_ok_def get_by_distinct)
qed

lemma account_of_update:
  assumes "acct_table_ok w" "account_of w user = Some a" "\<And>b. acct_username (f b) = acct_username b"
    "accounts (db w') = update_where (\<lambda>b. acct_id b = acct_id a) f (accounts (db w))"
  shows "account_of w' user = Some (f a)"
proof -
  have "get_by acct_username user (update_where (\<lambda>b. acct_id b = acct_id a) f rows) =
      map_option (\<lambda>b. if acct_id b = acct_id a then f b else b) (get_by acct_username user rows)" for rows
    using assms(3) by (induction rows) (auto simp: get_by_def update_where_def)
  then show ?thesis using assms(2) by (simp add: account_of_def assms(4))
qed

lemma account_of_delete:
  assumes "acct_table_ok w" "account_of w user = Some a"
    "accounts (db w') = delete_where (\<lambda>b. acct_id b = acct_id a) (accounts (db w))"
  shows "account_of w' user = None"
proof -
  note A = account_by_id [OF assms(1,2)]
  have "acct_id b = acct_id a" if "b \<in> set (accounts (db w))" "acct_username b = user" for b
    using assms(1) A(2,3) that by (auto simp: acct_table_ok_def distinct_map inj_on_def)
  then show ?thesis by (auto simp: account_of_def get_by_None_iff assms(3))
qed

lemma authenticate_Some:
  "authenticate c user pw w = Inr (Some u) \<longleftrightarrow> u = user \<and>
     (\<exists>d. get_by user_username user (dashboard_users (db w)) = Some d \<and> user_enabled d \<and>
        hasher_verify c (user_password_hash d) pw = Verified)"
proof (cases "get_by user_username user (dashboard_users (db w))")
  case None
  then show ?thesis by (simp add: authenticate_def)
next
  case (Some d)
  then have "user_username d = user" using get_by_Some_in [OF Some] by simp
  then show ?thesis using Some
    by (cases "hasher_verify c (user_password_hash d) pw") (auto simp: authenticate_def verify_password_def)
qed

lemma login_session:
  "(\<exists>ws'. login e x c s user pw ws = (Session u token, ws')) \<longleftrightarrow>
     authenticate c user pw (web_world ws) = Inr (Some u) \<and>
     token = serializer_dumps x (session_secret (web s)) u (clock e (tick (web_world ws)))"
  by (cases "authenticate c user pw (web_world ws)")
     (auto simp: login_def session_issue_def utcnow_def Let_def split: option.splits)

section \<open>Properties\<close>

text \<open>The API is closed without a session. Without a cookie that the serializer accepts, every
  request but login and logout is answered 401 and changes nothing: not the database, not the spool,
  not the queue, not the breakers, not the account snapshot.\<close>

theorem api_needs_session:
  assumes "fst (session_verify e x (web s) cookie (web_world ws)) = None"
    "req \<noteq> Logout" "\<And>user pw. req \<noteq> Login user pw"
  shows "\<exists>n. api e x c qe s cookie req ws =
    (Error (HTTPException 401 ''Not authenticated''), ws\<lparr>web_world := (web_world ws)\<lparr>tick := tick (web_world ws) + n\<rparr>\<rparr>)"
proof -
  obtain n where n: "snd (session_verify e x (web s) cookie (web_world ws)) = (web_world ws)\<lparr>tick := tick (web_world ws) + n\<rparr>"
    using session_verify_tick by blast
  then have "require_user e x (web s) cookie (web_world ws) =
      (Inl (HTTPException 401 ''Not authenticated''), (web_world ws)\<lparr>tick := tick (web_world ws) + n\<rparr>)"
    using assms(1) by (simp add: require_user_def prod.case_eq_if)
  then show ?thesis using assms(2,3) by (cases req) (auto simp: api_def)
qed

text \<open>A serializer that writes the stamp and the user as characters of the token.\<close>

definition demo_web :: web_env where
  "demo_web = \<lparr>serializer_dumps = (\<lambda>_ u _. CHR ''t'' # u),
     serializer_loads = (\<lambda>_ _ token _. if token \<noteq> [] \<and> hd token = CHR ''t'' then Payload [''u'' \<mapsto> tl token] else BadSignature),
     breaker_names = (\<lambda>_. [])\<rparr>"

lemma demo_serializer_ok: "serializer_ok demo_web"
  by (simp add: serializer_ok_def demo_web_def)

definition demo_web_state :: web_state where
  "demo_web_state = \<lparr>web_world = demo_account_world, ingress_accounts = Some (store_refresh demo_account_world empty_store)\<rparr>"

theorem api_needs_session_witness:
  "fst (api demo_env demo_web demo_crypto demo_query_env demo_settings (Some ''forged'') (Delete_account 1) demo_web_state) =
     Error (HTTPException 401 ''Not authenticated'')"
proof -
  have "fst (session_verify demo_env demo_web (web demo_settings) (Some ''forged'') (web_world demo_web_state)) = None"
    by (simp add: session_verify_def demo_web_def str_or_empty_def utcnow_def Let_def)
  then show ?thesis
    using api_needs_session [of demo_env demo_web demo_settings "Some ''forged''" demo_web_state "Delete_account 1"
        demo_crypto demo_query_env] by auto
qed

text \<open>Claim C34: a login opens a session for its user, and for no other. A login succeeds exactly when the
  dashboard has an enabled user of that name whose hash argon2 verifies; the cookie it returns is then
  accepted, as that user, by every later request until \<open>session_ttl_seconds\<close> have passed.\<close>

theorem login_opens_session:
  assumes "serializer_ok x" "api e x c qe s cookie (Login user pw) ws = (r, ws')"
  shows "((\<exists>u token. r = Session u token) \<longleftrightarrow>
      (\<exists>d. get_by user_username user (dashboard_users (db (web_world ws))) = Some d \<and> user_enabled d \<and>
         hasher_verify c (user_password_hash d) pw = Verified)) \<and>
    (\<forall>u token (w :: world). r = Session u token \<longrightarrow> clock e (tick (web_world ws)) \<le> clock e (tick w) \<longrightarrow>
       clock e (tick w) div usec_per_second - clock e (tick (web_world ws)) div usec_per_second \<le> session_ttl_seconds (web s) \<longrightarrow>
       u = user \<and> fst (require_user e x (web s) (Some token) w) = Inr user)"
proof -
  let ?w = "web_world ws"
  have run: "login e x c s user pw ws = (r, ws')" using assms(2) by (simp add: api_def)
  have L: "r = Session u token \<longleftrightarrow> authenticate c user pw ?w = Inr (Some u) \<and>
      token = serializer_dumps x (session_secret (web s)) u (clock e (tick ?w))" for u token
    using login_session [of e x c s user pw ws u token] run by auto
  have 1: "(\<exists>u token. r = Session u token) \<longleftrightarrow>
      (\<exists>d. get_by user_username user (dashboard_users (db ?w)) = Some d \<and> user_enabled d \<and>
         hasher_verify c (user_password_hash d) pw = Verified)"
    unfolding L authenticate_Some by blast
  have 2: "u = user \<and> fst (require_user e x (web s) (Some token) w) = Inr user"
    if r: "r = Session u token" and le: "clock e (tick ?w) \<le> clock e (tick w)"
      "clock e (tick w) div usec_per_second - clock e (tick ?w) div usec_per_second \<le> session_ttl_seconds (web s)"
    for u token and w :: world
  proof -
    have tok: "u = user" "token = serializer_dumps x (session_secret (web s)) user (clock e (tick ?w))"
      using r unfolding L authenticate_Some by blast+
    have ok: "serializer_dumps x secret v t0 \<noteq> []"
      "t0 \<le> t \<Longrightarrow> t div usec_per_second - t0 div usec_per_second \<le> ttl \<Longrightarrow>
         serializer_loads x secret ttl (serializer_dumps x secret v t0) t = Payload [''u'' \<mapsto> v]" for secret v t0 t ttl
      using assms(1) unfolding serializer_ok_def by blast+
    show ?thesis
      by (simp add: tok require_user_def session_verify_def str_or_empty_def utcnow_def Let_def ok(1) ok(2) [OF le])
  qed
  show ?thesis using 1 2 by blast
qed

theorem login_opens_session_witness:
  "fst (require_user demo_env demo_web (web demo_settings) (Some ''tadmin'') (init_world\<lparr>tick := 9\<rparr>)) = Inr ''admin''"
proof -
  let ?u = "\<lparr>user_id = 1, user_username = ''admin'', user_password_hash = ''htoken'', user_enabled = True, user_created_at = demo_epoch\<rparr>"
  let ?ws = "\<lparr>web_world = init_world\<lparr>db := empty_database\<lparr>dashboard_users := [?u]\<rparr>\<rparr>, ingress_accounts = None\<rparr>"
  let ?r = "api demo_env demo_web demo_crypto demo_query_env demo_settings None (Login ''admin'' ''token'') ?ws"
  have run: "?r = (Session ''admin'' ''tadmin'', snd ?r)"
    by (simp add: api_def login_def authenticate_def verify_password_def demo_crypto_def get_by_def session_issue_def demo_web_def
        utcnow_def Let_def)
  have le: "clock demo_env (tick (web_world ?ws)) \<le> clock demo_env (tick (init_world\<lparr>tick := 9\<rparr>))"
    "clock demo_env (tick (init_world\<lparr>tick := 9\<rparr>)) div usec_per_second - clock demo_env (tick (web_world ?ws)) div usec_per_second
       \<le> session_ttl_seconds (web demo_settings)"
    by (simp_all add: demo_env_def init_world_def usec_per_second_def demo_settings_def)
  note T = login_opens_session [OF demo_serializer_ok run, THEN conjunct2, rule_format, OF refl le]
  show ?thesis using T by blast
qed

text \<open>What the operations on one account leave the authenticator with.\<close>

lemma deleted_account_is_out:
  assumes tab: "acct_table_ok (web_world ws)" and st: "ingress_accounts ws = Some st"
    and acct: "account_of (web_world ws) user = Some a"
    and run: "endpoint e x c qe s op (Delete_account (acct_id a)) ws = (r, ws')"
  shows "\<exists>st'. ingress_accounts ws' = Some st' \<and> (\<forall>p. \<not> grants c st' user p)"
proof -
  let ?w' = "snd (delete_account (acct_id a) (web_world ws))"
  have "ingress_accounts ws' = Some (store_refresh ?w' st)"
    using run st by (auto simp: account_answer_def delete_account_def refresh_accounts_def)
  moreover have "account_of ?w' user = None"
    by (rule account_of_delete [OF tab acct]) (simp add: delete_account_def)
  ultimately show ?thesis using grants_refresh delete_account_effect [OF tab, of "acct_id a"] by auto
qed

lemma disabled_account_is_out:
  assumes tab: "acct_table_ok (web_world ws)" and st: "ingress_accounts ws = Some st"
    and acct: "account_of (web_world ws) user = Some a"
    and run: "endpoint e x c qe s op (Toggle_account (acct_id a)) ws = (Enabled_view False, ws')"
  shows "\<exists>st'. ingress_accounts ws' = Some st' \<and> (\<forall>p. \<not> grants c st' user p)"
proof -
  let ?w' = "snd (toggle_account (acct_id a) (web_world ws))"
  have en: "acct_enabled a" and ws': "ingress_accounts ws' = Some (store_refresh ?w' st)"
    using run st account_by_id(1) [OF tab acct] by (auto simp: account_answer_def toggle_account_def refresh_accounts_def)
  have "account_of ?w' user = Some (a\<lparr>acct_enabled := \<not> acct_enabled a\<rparr>)"
    by (rule account_of_update [OF tab acct]) (simp_all add: toggle_account_def account_by_id(1) [OF tab acct])
  then show ?thesis using ws' en grants_refresh toggle_account_effect [OF tab, of "acct_id a"] by auto
qed

lemma reset_account_has_new_password:
  assumes hash: "argon2_ok c" and tab: "acct_table_ok (web_world ws)" and st: "ingress_accounts ws = Some st"
    and acct: "account_of (web_world ws) user = Some a"
    and run: "endpoint e x c qe s op (Reset_account_password (acct_id a) pw) ws = (Ok, ws')" "acct_enabled a"
  shows "\<exists>st'. ingress_accounts ws' = Some st' \<and> (\<forall>p. grants c st' user p \<longleftrightarrow> p = pw)"
proof -
  let ?w' = "snd (reset_account_password c (acct_id a) pw (web_world ws))"
  have len: "\<not> length pw < 8" using run(1) by (auto simp: account_answer_def reset_account_password_def)
  have ws': "ingress_accounts ws' = Some (store_refresh ?w' st)"
    using run(1) st len account_by_id(1) [OF tab acct]
    by (auto simp: account_answer_def reset_account_password_def hash_password_def refresh_accounts_def)
  have "account_of ?w' user = Some (a\<lparr>acct_password_hash := hasher_hash c (tick (web_world ws)) pw\<rparr>)"
    by (rule account_of_update [OF tab acct]) (simp_all add: reset_account_password_def hash_password_def len account_by_id(1) [OF tab acct])
  then show ?thesis
    using ws' run(2) grants_refresh [OF conjunct2 [OF reset_account_password_effect [OF tab, of c "acct_id a" pw]]] hash
    by (auto simp: argon2_ok_def)
qed

lemma created_account_is_in:
  assumes hash: "argon2_ok c" and tab: "acct_table_ok (web_world ws)" and st: "ingress_accounts ws = Some st"
    and run: "endpoint e x c qe s op (Create_account new pw descr) ws = (Ok, ws')"
  shows "\<exists>st'. ingress_accounts ws' = Some st' \<and> (\<forall>p. grants c st' new p \<longleftrightarrow> p = pw)"
proof -
  let ?w' = "add_account e c new pw descr (web_world ws)"
  have ok: "valid_account_body new pw" "account_of (web_world ws) new = None"
    using run by (auto simp: account_answer_def create_account_def split: if_splits)
  then have ws': "ingress_accounts ws' = Some (store_refresh ?w' st)"
    using run st by (auto simp: account_answer_def create_account_def refresh_accounts_def)
  have "get_by acct_username new (rows @ [r]) = Some r" if "get_by acct_username new rows = None" "acct_username r = new" for rows and r :: account
    using that by (induction rows) (auto simp: get_by_def split: if_splits)
  from this [of "accounts (db (web_world ws))"] obtain b where "account_of ?w' new = Some b" "acct_enabled b" "acct_password_hash b = hasher_hash c (tick (web_world ws)) pw"
    using ok(2) by (simp add: account_of_def add_account_rows)
  moreover have "acct_table_ok ?w'" by (rule add_account_ok [OF tab ok(2)])
  ultimately show ?thesis using ws' grants_refresh [of ?w'] hash by (auto simp: argon2_ok_def)
qed

text \<open>Claim C35: a change of an account takes effect with the answer to the request. Once the API has answered,
  the SMTP authenticator decides by the table as the request left it: a deleted or disabled account
  lets nobody in, a reset password is the only one that does, and a created account opens for exactly
  its password.\<close>

theorem account_change_is_immediate:
  assumes "argon2_ok c" "acct_table_ok (web_world ws)" "ingress_accounts ws = Some st"
    and "account_of (web_world ws) user = Some a"
  shows "(\<forall>r ws'. endpoint e x c qe s op (Delete_account (acct_id a)) ws = (r, ws') \<longrightarrow>
      (\<exists>st'. ingress_accounts ws' = Some st' \<and> (\<forall>p. \<not> grants c st' user p))) \<and>
    (\<forall>ws'. endpoint e x c qe s op (Toggle_account (acct_id a)) ws = (Enabled_view False, ws') \<longrightarrow>
      (\<exists>st'. ingress_accounts ws' = Some st' \<and> (\<forall>p. \<not> grants c st' user p))) \<and>
    (\<forall>pw ws'. endpoint e x c qe s op (Reset_account_password (acct_id a) pw) ws = (Ok, ws') \<longrightarrow> acct_enabled a \<longrightarrow>
      (\<exists>st'. ingress_accounts ws' = Some st' \<and> (\<forall>p. grants c st' user p \<longleftrightarrow> p = pw))) \<and>
    (\<forall>new pw descr ws'. endpoint e x c qe s op (Create_account new pw descr) ws = (Ok, ws') \<longrightarrow>
      (\<exists>st'. ingress_accounts ws' = Some st' \<and> (\<forall>p. grants c st' new p \<longleftrightarrow> p = pw)))"
  by (intro conjI allI impI)
    (rule deleted_account_is_out [OF assms(2-4)] disabled_account_is_out [OF assms(2-4)]
      reset_account_has_new_password [OF assms(1-4)] created_account_is_in [OF assms(1-3)], assumption+)+

theorem account_change_is_immediate_witness:
  "\<exists>st'. ingress_accounts (snd (endpoint demo_env demo_web demo_crypto demo_query_env demo_settings ''admin'' (Toggle_account 1) demo_web_state)) = Some st' \<and>
     (\<forall>p. \<not> grants demo_crypto st' ''svc'' p)"
proof -
  let ?r = "endpoint demo_env demo_web demo_crypto demo_query_env demo_settings ''admin'' (Toggle_account 1) demo_web_state"
  have a: "account_of (web_world demo_web_state) ''svc'' = Some demo_account"
    by (simp add: account_of_def demo_web_state_def demo_account_world_def demo_account_def get_by_def)
  have t: "acct_table_ok (web_world demo_web_state)" using demo_table_ok by (simp add: demo_web_state_def)
  have st: "ingress_accounts demo_web_state = Some (store_refresh demo_account_world empty_store)" by (simp add: demo_web_state_def)
  have i: "acct_id demo_account = 1" by (simp add: demo_account_def)
  have "fst ?r = Enabled_view False"
    by (simp add: account_answer_def toggle_account_def demo_web_state_def demo_account_world_def demo_account_def get_by_def)
  then have run: "?r = (Enabled_view False, snd ?r)" by (simp add: prod_eq_iff)
  show ?thesis
    using account_change_is_immediate [OF demo_argon2_ok t st a, unfolded i, THEN conjunct2, THEN conjunct1, rule_format, OF run] .
qed

text \<open>The bookkeeping after a login can undo a password reset. When a service logs in while its
  stored hash is outdated, and an operator resets the password of that account before the scheduled
  touch has run, the touch then hashes the old password again: afterwards the old password opens the
  account and the new one does not.\<close>

theorem late_touch_restores_old_password:
  assumes "argon2_ok c" "acct_table_ok w" "account_of w user = Some a" "acct_enabled a" "touches st = []"
    and "hasher_verify c (acct_password_hash a) old = Verified" "needs_rehash c (acct_password_hash a)" "old \<noteq> []"
    and "store_verify c user old (store_refresh w st) = (Inr (Some user), st1)"
    and "reset_account_password c (acct_id a) new w = (Inr (), w1)" "new \<noteq> old"
    and "run_touch e c (store_refresh w1 st1, w1) = (st2, w2)"
  shows "\<exists>b. account_of w2 user = Some b \<and> acct_enabled b \<and> hasher_verify c (acct_password_hash b) old = Verified \<and>
    hasher_verify c (acct_password_hash b) new = VerifyMismatchError"
proof -
  note A = account_by_id [OF assms(2,3)]
  have "acct_by_name (store_refresh w st) user = Some (snd (cache_row a))"
    using refresh_lookup [OF assms(2), of st user] assms(3) by simp
  then have st1: "touches st1 = [(acct_id a, Some old)]"
    using assms(4-7,9) by (auto simp: store_verify_def cache_row_def verify_password_def schedule_touch_def store_refresh_def)
  have len: "\<not> length new < 8" using assms(10) by (auto simp: reset_account_password_def)
  have w1: "account_of w1 user = Some (a\<lparr>acct_password_hash := hasher_hash c (tick w) new\<rparr>)"
    by (rule account_of_update [OF assms(2,3)])
       (use assms(10) in \<open>auto simp: reset_account_password_def hash_password_def len A(1)\<close>)
  have t1: "acct_table_ok w1"
    using reset_account_password_effect [OF assms(2), of c "acct_id a" new] assms(10) by simp
  have w2: "w2 = touch_account e c (acct_id a) (Some old) w1"
    using assms(12) st1 by (simp add: run_touch_def store_refresh_def)
  have n2: "acct_username (touched e c (Some old) (tick w1) b) = acct_username b" for b by (simp add: touched_def)
  have "accounts (db w2) = update_where (\<lambda>b. acct_id b = acct_id a) (touched e c (Some old) (tick w1)) (accounts (db w1))"
    by (simp only: w2 touch_rows)
  then have "account_of w2 user = Some (touched e c (Some old) (tick w1) (a\<lparr>acct_password_hash := hasher_hash c (tick w) new\<rparr>))"
    using account_of_update [OF t1 w1 n2] by simp
  then show ?thesis using assms(1,4,8,11) by (simp add: touched_def argon2_ok_def)
qed

theorem late_touch_restores_old_password_witness:
  "\<exists>w1 st1 st2 w2 b. store_verify demo_crypto ''svc'' ''secret99'' (store_refresh demo_account_world empty_store) = (Inr (Some ''svc''), st1) \<and>
     reset_account_password demo_crypto 1 ''new-secret'' demo_account_world = (Inr (), w1) \<and>
     run_touch demo_env demo_crypto (store_refresh w1 st1, w1) = (st2, w2) \<and> account_of w2 ''svc'' = Some b \<and>
     hasher_verify demo_crypto (acct_password_hash b) ''secret99'' = Verified"
proof -
  let ?sv = "store_verify demo_crypto ''svc'' ''secret99'' (store_refresh demo_account_world empty_store)"
  let ?rs = "reset_account_password demo_crypto 1 ''new-secret'' demo_account_world"
  let ?rt = "run_touch demo_env demo_crypto (store_refresh (snd ?rs) (snd ?sv), snd ?rs)"
  have a: "account_of demo_account_world ''svc'' = Some demo_account" "acct_enabled demo_account" "acct_id demo_account = 1"
    "hasher_verify demo_crypto (acct_password_hash demo_account) ''secret99'' = Verified"
    "needs_rehash demo_crypto (acct_password_hash demo_account)" "touches empty_store = []"
    by (simp_all add: account_of_def demo_account_world_def demo_account_def get_by_def demo_crypto_def needs_rehash_def empty_store_def)
  have sv: "?sv = (Inr (Some ''svc''), snd ?sv)"
    by (simp add: store_verify_def store_refresh_def demo_account_world_def demo_account_def cache_row_def demo_crypto_def verify_password_def)
  have rs: "?rs = (Inr (), snd ?rs)"
    by (simp add: reset_account_password_def demo_account_world_def demo_account_def get_by_def hash_password_def)
  have ne: "''secret99'' \<noteq> []" "''new-secret'' \<noteq> ''secret99''" by simp_all
  obtain b where "account_of (snd ?rt) ''svc'' = Some b" "hasher_verify demo_crypto (acct_password_hash b) ''secret99'' = Verified"
    using late_touch_restores_old_password [OF demo_argon2_ok demo_table_ok a(1,2,6,4,5) ne(1) sv rs [folded a(3)] ne(2)
        prod.collapse [symmetric], unfolded a(3)] by blast
  then show ?thesis using sv rs by (intro exI conjI) (assumption | rule prod.collapse [symmetric] | simp)+
qed

text \<open>Requeueing a message that is older than \<open>max_age_hours\<close> is accepted and in vain. The API
  answers that it is queued again, but the row keeps its arrival time, so that the next consumer
  dead-letters it without contacting a provider.\<close>

theorem requeued_expired_message_dies:
  assumes "mono_clock e" "msg_of w mid = Some m" "status m = DEADLETTER"
    and "received_at m + hours_td (max_age_hours (retry (dispatch s))) < clock e (tick w)"
  shows "\<exists>w1 w2 m1 m2. requeue e mid w = (Inr (), w1) \<and> msg_of w1 mid = Some m1 \<and> status m1 = QUEUED \<and>
    process e s mid w1 = (Inr (), w2) \<and> msg_of w2 mid = Some m2 \<and> status m2 = DEADLETTER \<and>
    delivery_attempts (db w2) = delivery_attempts (db w)"
proof -
  let ?w1 = "snd (requeue e mid w)" and ?m1 = "requeued (clock e (tick w)) m"
  have run: "requeue e mid w = (Inr (), ?w1)" using assms(2,3) by (simp add: requeue_def utcnow_def Let_def)
  have "msg_of ?w1 mid = Some ?m1"
    using assms(2,3) get_by_update_where [of msg_id "requeued (clock e (tick w))" mid mid "messages (db w)"]
    by (simp add: requeue_def utcnow_def Let_def notify_new_message_def msg_of_def requeued_def)
  moreover have "status ?m1 = QUEUED" by (simp add: requeued_def)
  moreover have t: "tick ?w1 = Suc (tick w)" "delivery_attempts (db ?w1) = delivery_attempts (db w)"
    using assms(2,3) by (simp_all add: requeue_def utcnow_def Let_def notify_new_message_def)
  moreover have "clock e (tick w) \<le> clock e (tick ?w1)" using assms(1) t(1) by (simp add: mono_clockD)
  then have "received_at ?m1 + hours_td (max_age_hours (retry (dispatch s))) < clock e (tick ?w1)"
    using assms(4) by (simp add: requeued_def)
  ultimately obtain w2 m2 where "process e s mid ?w1 = (Inr (), w2)" "msg_of w2 mid = Some m2" "status m2 = DEADLETTER"
    "store_frame ?w1 w2"
    using expired_message_is_deadlettered [of ?w1 mid ?m1 s e] by (auto simp: is_terminal_def)
  then show ?thesis
    using run \<open>msg_of ?w1 mid = Some ?m1\<close> \<open>status ?m1 = QUEUED\<close> t(2) store_frame_db(1) by (metis (no_types, lifting))
qed

theorem requeued_expired_message_dies_witness:
  "\<exists>w1 w2 m2. requeue (demo_relay_env accepting) 1 (demo_world [(demo_msg 1)\<lparr>status := DEADLETTER, received_at := 0\<rparr>]) = (Inr (), w1) \<and>
     process (demo_relay_env accepting) demo_settings 1 w1 = (Inr (), w2) \<and> msg_of w2 1 = Some m2 \<and> status m2 = DEADLETTER"
proof -
  let ?m = "(demo_msg 1)\<lparr>status := DEADLETTER, received_at := 0\<rparr>"
  have "mono_clock (demo_relay_env accepting)" by (simp add: mono_clock_def demo_relay_env_def)
  moreover have "msg_of (demo_world [?m]) 1 = Some ?m" by (simp add: msg_of_def demo_world_def get_by_def demo_msg_def)
  moreover have "status ?m = DEADLETTER" by simp
  moreover have "received_at ?m + hours_td (max_age_hours (retry (dispatch demo_settings))) <
      clock (demo_relay_env accepting) (tick (demo_world [?m]))"
    by (simp add: demo_relay_env_def demo_world_def init_world_def demo_epoch_value hours_td_def usec_per_second_def demo_settings_def)
  ultimately show ?thesis using requeued_expired_message_dies [of "demo_relay_env accepting" "demo_world [?m]" 1 ?m demo_settings] by blast
qed

end
