(* ===== verification/Admin.thy ===== *)
theory Admin
  imports Web_Api
begin

text \<open>
  \<open>src/smtp_switch/admin.py\<close>: the command line tool for sending accounts and dashboard users. It runs
  in a process of its own on the same database, so that a running server sees its changes when it
  next reads the accounts. The answers to the password prompt are a parameter; \<open>sys.exit\<close> is an error
  value, and the printed lines are the result.
\<close>

section \<open>Operations\<close>

record cli_env =
  prompt :: "nat \<Rightarrow> string"

datatype cli_exit =
    Password_too_short
  | Account_exists string
  | No_such_account string
  | User_exists string
  | No_such_user string

datatype cli_line =
    Created_account string
  | Generated_password string
  | No_accounts
  | Account_line string
  | Account_state string bool
  | Password_updated string
  | Created_user string
  | User_password_updated string

definition resolve_password ::
  "cli_env \<Rightarrow> crypto \<Rightarrow> string option \<Rightarrow> bool \<Rightarrow> world \<Rightarrow> (cli_exit + (string \<times> bool)) \<times> world" where
  "resolve_password x c value generate w =
     (if str_or_empty value \<noteq> [] then (Inr (str_or_empty value, False), w)
      else if generate then (Inr (token_urlsafe c (tick w), True), w\<lparr>tick := Suc (tick w)\<rparr>)
      else let pw = prompt x (tick w); w = w\<lparr>tick := Suc (tick w)\<rparr>
           in if length pw < 8 then (Inl Password_too_short, w) else (Inr (pw, False), w))"

definition generated_line :: "bool \<Rightarrow> string \<Rightarrow> cli_line list" where
  "generated_line generated pw = (if generated then [Generated_password pw] else [])"

definition cli_account_add ::
  "'e env_scheme \<Rightarrow> cli_env \<Rightarrow> crypto \<Rightarrow> string \<Rightarrow> string option \<Rightarrow> string option \<Rightarrow> bool \<Rightarrow> world \<Rightarrow>
   (cli_exit + cli_line list) \<times> world" where
  "cli_account_add e x c user descr value generate w =
     (case resolve_password x c value generate w of
        (Inl ex, w) \<Rightarrow> (Inl ex, w)
      | (Inr (pw, generated), w) \<Rightarrow>
          if account_of w user \<noteq> None then (Inl (Account_exists user), w)
          else (Inr (Created_account user # generated_line generated pw), add_account e c user pw descr w))"

definition ljust :: "nat \<Rightarrow> string \<Rightarrow> string" where
  "ljust n t = t @ replicate (n - length t) CHR '' ''"

definition account_line :: "account \<Rightarrow> string" where
  "account_line a =
     ljust 24 (acct_username a) @ '' '' @ ljust 9 (if acct_enabled a then ''enabled'' else ''disabled'') @
     '' last-used='' @ (case acct_last_used_at a of Some t \<Rightarrow> isoformat t | None \<Rightarrow> ''never'') @
     ''  '' @ str_or_empty (acct_description a)"

definition cli_account_list :: "world \<Rightarrow> cli_line list" where
  "cli_account_list w =
     (let rows = sort_key acct_username (accounts (db w))
      in if rows = [] then [No_accounts] else map (\<lambda>a. Account_line (account_line a)) rows)"

definition cli_account_set_enabled :: "string \<Rightarrow> bool \<Rightarrow> world \<Rightarrow> (cli_exit + cli_line list) \<times> world" where
  "cli_account_set_enabled user en w =
     (case account_of w user of
        None \<Rightarrow> (Inl (No_such_account user), w)
      | Some a \<Rightarrow>
          (Inr [Account_state user en],
           update_accounts (\<lambda>b. acct_id b = acct_id a) (\<lambda>b. b\<lparr>acct_enabled := en\<rparr>) w))"

definition cli_account_passwd ::
  "cli_env \<Rightarrow> crypto \<Rightarrow> string \<Rightarrow> string option \<Rightarrow> bool \<Rightarrow> world \<Rightarrow> (cli_exit + cli_line list) \<times> world" where
  "cli_account_passwd x c user value generate w =
     (case resolve_password x c value generate w of
        (Inl ex, w) \<Rightarrow> (Inl ex, w)
      | (Inr (pw, generated), w) \<Rightarrow>
          (case account_of w user of
             None \<Rightarrow> (Inl (No_such_account user), w)
           | Some a \<Rightarrow>
               (let (h, w) = hash_password c pw w
                in (Inr (Password_updated user # generated_line generated pw),
                    update_accounts (\<lambda>b. acct_id b = acct_id a)
                      (\<lambda>b. b\<lparr>acct_password_hash := h, acct_last_used_at := None\<rparr>) w))))"

definition user_of :: "world \<Rightarrow> string \<Rightarrow> dashboard_user option" where
  "user_of w user = get_by user_username user (dashboard_users (db w))"

definition cli_user_add ::
  "'e env_scheme \<Rightarrow> cli_env \<Rightarrow> crypto \<Rightarrow> string \<Rightarrow> string option \<Rightarrow> bool \<Rightarrow> world \<Rightarrow> (cli_exit + cli_line list) \<times> world" where
  "cli_user_add e x c user value generate w =
     (case resolve_password x c value generate w of
        (Inl ex, w) \<Rightarrow> (Inl ex, w)
      | (Inr (pw, generated), w) \<Rightarrow>
          if user_of w user \<noteq> None then (Inl (User_exists user), w)
          else let (h, w) = hash_password c pw w;
                   (now, w) = utcnow e w;
                   row = \<lparr>user_id = next_rowid user_id (dashboard_users (db w)), user_username = user,
                          user_password_hash = h, user_enabled = True, user_created_at = now\<rparr>
               in (Inr (Created_user user # generated_line generated pw),
                   upd_db (\<lambda>d. d\<lparr>dashboard_users := dashboard_users d @ [row]\<rparr>) w))"

definition cli_user_passwd ::
  "cli_env \<Rightarrow> crypto \<Rightarrow> string \<Rightarrow> string option \<Rightarrow> bool \<Rightarrow> world \<Rightarrow> (cli_exit + cli_line list) \<times> world" where
  "cli_user_passwd x c user value generate w =
     (case resolve_password x c value generate w of
        (Inl ex, w) \<Rightarrow> (Inl ex, w)
      | (Inr (pw, generated), w) \<Rightarrow>
          (case user_of w user of
             None \<Rightarrow> (Inl (No_such_user user), w)
           | Some u \<Rightarrow>
               (let (h, w) = hash_password c pw w
                in (Inr (User_password_updated user # generated_line generated pw),
                    upd_db (\<lambda>d. d\<lparr>dashboard_users :=
                      update_where (\<lambda>b. user_id b = user_id u) (\<lambda>b. b\<lparr>user_password_hash := h\<rparr>) (dashboard_users d)\<rparr>) w))))"

text \<open>The sub-commands of the parser; both password options may be given.\<close>

datatype command =
    Account_add string "string option" "string option" bool
  | Account_list
  | Account_enable string
  | Account_disable string
  | Account_passwd string "string option" bool
  | User_add string "string option" bool
  | User_passwd string "string option" bool

fun run_command ::
  "'e env_scheme \<Rightarrow> cli_env \<Rightarrow> crypto \<Rightarrow> command \<Rightarrow> world \<Rightarrow> (cli_exit + cli_line list) \<times> world" where
  "run_command e x c (Account_add u d v g) w = cli_account_add e x c u d v g w"
| "run_command e x c Account_list w = (Inr (cli_account_list w), w)"
| "run_command e x c (Account_enable u) w = cli_account_set_enabled u True w"
| "run_command e x c (Account_disable u) w = cli_account_set_enabled u False w"
| "run_command e x c (Account_passwd u v g) w = cli_account_passwd x c u v g w"
| "run_command e x c (User_add u v g) w = cli_user_add e x c u v g w"
| "run_command e x c (User_passwd u v g) w = cli_user_passwd x c u v g w"

section \<open>Lemmas\<close>

lemma resolve_tick: "\<exists>n. snd (resolve_password x c v g w) = w\<lparr>tick := tick w + n\<rparr>"
proof (cases "str_or_empty v = []")
  case True
  then show ?thesis by (intro exI [of _ 1]) (simp add: resolve_password_def Let_def)
next
  case False
  then show ?thesis by (intro exI [of _ 0]) (simp add: resolve_password_def)
qed

lemma account_of_tick [simp]: "account_of (w\<lparr>tick := n\<rparr>) u = account_of w u"
  by (simp add: account_of_def)

lemma user_of_tick [simp]: "user_of (w\<lparr>tick := n\<rparr>) u = user_of w u"
  by (simp add: user_of_def)

lemma acct_table_tick [simp]: "acct_table_ok (w\<lparr>tick := n\<rparr>) = acct_table_ok w"
  by (simp add: acct_table_ok_def)

text \<open>The three account commands on a resolved password.\<close>

lemma cli_account_add_cases:
  obtains ex n where "cli_account_add e x c u d v g w = (Inl ex, w\<lparr>tick := tick w + n\<rparr>)"
  | pw gen n where "resolve_password x c v g w = (Inr (pw, gen), w\<lparr>tick := tick w + n\<rparr>)" "account_of w u = None"
      "cli_account_add e x c u d v g w =
         (Inr (Created_account u # generated_line gen pw), add_account e c u pw d (w\<lparr>tick := tick w + n\<rparr>))"
proof -
  obtain n where "snd (resolve_password x c v g w) = w\<lparr>tick := tick w + n\<rparr>" using resolve_tick by blast
  then obtain r where r: "resolve_password x c v g w = (r, w\<lparr>tick := tick w + n\<rparr>)"
    by (metis prod.collapse)
  show thesis
  proof (cases r)
    case (Inl ex)
    then show thesis using that(1) r by (simp add: cli_account_add_def)
  next
    case (Inr p)
    then show thesis using that r by (cases p; cases "account_of w u") (simp_all add: cli_account_add_def)
  qed
qed

lemma cli_account_passwd_cases:
  obtains ex n where "cli_account_passwd x c u v g w = (Inl ex, w\<lparr>tick := tick w + n\<rparr>)"
  | pw gen n a where "resolve_password x c v g w = (Inr (pw, gen), w\<lparr>tick := tick w + n\<rparr>)" "account_of w u = Some a"
      "cli_account_passwd x c u v g w =
         (Inr (Password_updated u # generated_line gen pw),
          update_accounts (\<lambda>b. acct_id b = acct_id a)
            (\<lambda>b. b\<lparr>acct_password_hash := hasher_hash c (tick w + n) pw, acct_last_used_at := None\<rparr>)
            (w\<lparr>tick := Suc (tick w + n)\<rparr>))"
proof -
  obtain n where "snd (resolve_password x c v g w) = w\<lparr>tick := tick w + n\<rparr>" using resolve_tick by blast
  then obtain r where r: "resolve_password x c v g w = (r, w\<lparr>tick := tick w + n\<rparr>)"
    by (metis prod.collapse)
  show thesis
  proof (cases r)
    case (Inl ex)
    then show thesis using that(1) r by (simp add: cli_account_passwd_def)
  next
    case (Inr p)
    then show thesis using that r
      by (cases p; cases "account_of w u") (simp_all add: cli_account_passwd_def hash_password_def)
  qed
qed

text \<open>What a command leaves behind: the account table and the dashboard users aside, only the clock has
  moved; a command that exits changes nothing.\<close>

definition admin_frame :: "world \<Rightarrow> world \<Rightarrow> bool" where
  "admin_frame w w' \<longleftrightarrow>
     (\<exists>n rows users. w' = w\<lparr>tick := tick w + n, db := (db w)\<lparr>accounts := rows, dashboard_users := users\<rparr>\<rparr>)"

lemma account_admin_frame:
  assumes "account_frame w w'"
  shows "admin_frame w w'"
proof -
  obtain n rows where "w' = w\<lparr>tick := tick w + n, db := (db w)\<lparr>accounts := rows\<rparr>\<rparr>" using assms by (auto simp: account_frame_def)
  then have "w' = w\<lparr>tick := tick w + n, db := (db w)\<lparr>accounts := rows, dashboard_users := dashboard_users (db w)\<rparr>\<rparr>" by simp
  then show ?thesis unfolding admin_frame_def by blast
qed

lemma account_frame_ticks: "account_frame (w\<lparr>tick := tick w + n\<rparr>) w' \<Longrightarrow> account_frame w w'"
  by (auto simp: account_frame_def add.assoc)

lemma account_of_other:
  assumes "acct_table_ok w" "account_of w u = Some a" "other \<noteq> u" "\<And>b. acct_username (f b) = acct_username b"
    "accounts (db w') = update_where (\<lambda>b. acct_id b = acct_id a) f (accounts (db w))"
  shows "account_of w' other = account_of w other"
proof (cases "account_of w other")
  case None
  then have "acct_username b \<noteq> other" if "b \<in> set (accounts (db w'))" for b
    using that assms(4) by (auto simp: account_of_def get_by_None_iff assms(5) update_where_def)
  then have "account_of w' other = None" by (auto simp: account_of_def get_by_None_iff)
  with None show ?thesis by simp
next
  case (Some b)
  note A = account_by_id [OF assms(1,2)] and B = account_by_id [OF assms(1) Some]
  have "acct_id b \<noteq> acct_id a" using assms(1,3) A B by (auto simp: acct_table_ok_def distinct_map inj_on_def)
  moreover have "get_by acct_username other (update_where (\<lambda>b. acct_id b = acct_id a) f rows) =
      map_option (\<lambda>b. if acct_id b = acct_id a then f b else b) (get_by acct_username other rows)" for rows
    using assms(4) by (induction rows) (auto simp: get_by_def update_where_def)
  ultimately show ?thesis using Some by (simp add: account_of_def assms(5))
qed

lemma account_of_add:
  "account_of w u = None \<Longrightarrow> account_of (add_account e c u pw d w) other =
     (if other = u then Some \<lparr>acct_id = next_rowid acct_id (accounts (db w)), acct_username = u,
        acct_password_hash = hasher_hash c (tick w) pw, acct_description = d, acct_enabled = True,
        acct_created_at = clock e (Suc (tick w)), acct_last_used_at = None\<rparr> else account_of w other)"
proof -
  assume n: "account_of w u = None"
  have "get_by acct_username other (rows @ [r]) =
      (case get_by acct_username other rows of Some x \<Rightarrow> Some x | None \<Rightarrow> if acct_username r = other then Some r else None)"
    for rows and r :: account
    by (induction rows) (auto simp: get_by_def)
  then show ?thesis using n by (auto simp: account_of_def add_account_rows split: option.splits)
qed

lemma ticks_admin_frame: "admin_frame w (w\<lparr>tick := tick w + n\<rparr>)"
  unfolding admin_frame_def
  by (rule exI [of _ n], rule exI [of _ "accounts (db w)"], rule exI [of _ "dashboard_users (db w)"]) simp

lemma users_admin_frame: "admin_frame w (w\<lparr>tick := tick w + n, db := (db w)\<lparr>dashboard_users := us\<rparr>\<rparr>)"
  unfolding admin_frame_def
  by (rule exI [of _ n], rule exI [of _ "accounts (db w)"], rule exI [of _ us]) simp

lemma set_enabled_frame:
  assumes "acct_table_ok w"
  shows "admin_frame w (snd (cli_account_set_enabled u en w)) \<and> acct_table_ok (snd (cli_account_set_enabled u en w))"
proof (cases "account_of w u")
  case None
  then show ?thesis using assms account_admin_frame [OF account_frame_refl] by (simp add: cli_account_set_enabled_def)
next
  case (Some a)
  have "acct_table_ok (update_accounts (\<lambda>b. acct_id b = acct_id a) (\<lambda>b. b\<lparr>acct_enabled := en\<rparr>) w)"
    by (rule update_accounts_ok [OF assms]) simp_all
  then show ?thesis using Some account_admin_frame [OF account_frame_update] by (simp add: cli_account_set_enabled_def)
qed

lemma account_add_frame:
  assumes "acct_table_ok w"
  shows "admin_frame w (snd (cli_account_add e x c u d v g w)) \<and> acct_table_ok (snd (cli_account_add e x c u d v g w))"
proof (rule cli_account_add_cases [of e x c u d v g w])
  show ?thesis if "cli_account_add e x c u d v g w = (Inl ex, w\<lparr>tick := tick w + n\<rparr>)" for ex n
    using that ticks_admin_frame assms by simp
  show ?thesis if "account_of w u = None" "cli_account_add e x c u d v g w =
      (Inr (Created_account u # generated_line gen pw), add_account e c u pw d (w\<lparr>tick := tick w + n\<rparr>))" for pw gen n
  proof -
    have "admin_frame w (add_account e c u pw d (w\<lparr>tick := tick w + n\<rparr>))"
      by (rule account_admin_frame, rule account_frame_ticks, rule add_account_frame)
    moreover have "acct_table_ok (add_account e c u pw d (w\<lparr>tick := tick w + n\<rparr>))"
      by (rule add_account_ok) (use that(1) assms in simp_all)
    ultimately show ?thesis using that by simp
  qed
qed

lemma account_passwd_frame:
  assumes "acct_table_ok w"
  shows "admin_frame w (snd (cli_account_passwd x c u v g w)) \<and> acct_table_ok (snd (cli_account_passwd x c u v g w))"
proof (rule cli_account_passwd_cases [of x c u v g w])
  show ?thesis if "cli_account_passwd x c u v g w = (Inl ex, w\<lparr>tick := tick w + n\<rparr>)" for ex n
    using that ticks_admin_frame assms by simp
  show ?thesis if r: "cli_account_passwd x c u v g w =
     (Inr (Password_updated u # generated_line gen pw),
      update_accounts (\<lambda>b. acct_id b = acct_id a)
        (\<lambda>b. b\<lparr>acct_password_hash := hasher_hash c (tick w + n) pw, acct_last_used_at := None\<rparr>)
        (w\<lparr>tick := Suc (tick w + n)\<rparr>))" for pw gen n a
  proof -
    let ?w' = "snd (cli_account_passwd x c u v g w)"
    have "account_frame (w\<lparr>tick := tick w + Suc n\<rparr>) ?w'"
      unfolding r snd_conv add_Suc_right by (rule account_frame_update)
    then have "admin_frame w ?w'" using account_admin_frame account_frame_ticks by blast
    moreover have "acct_table_ok ?w'"
      by (rule update_accounts_ok [OF assms, where P = "\<lambda>b. acct_id b = acct_id a"
            and f = "\<lambda>b. b\<lparr>acct_password_hash := hasher_hash c (tick w + n) pw, acct_last_used_at := None\<rparr>"])
         (simp_all add: r)
    ultimately show ?thesis by simp
  qed
qed

lemma user_commands_frame:
  assumes "acct_table_ok w"
  shows "admin_frame w (snd (cli_user_add e x c u v g w)) \<and> acct_table_ok (snd (cli_user_add e x c u v g w))"
    "admin_frame w (snd (cli_user_passwd x c u v g w)) \<and> acct_table_ok (snd (cli_user_passwd x c u v g w))"
proof -
  obtain n where "snd (resolve_password x c v g w) = w\<lparr>tick := tick w + n\<rparr>" using resolve_tick by blast
  then obtain r where r: "resolve_password x c v g w = (r, w\<lparr>tick := tick w + n\<rparr>)" by (metis prod.collapse)
  show "admin_frame w (snd (cli_user_add e x c u v g w)) \<and> acct_table_ok (snd (cli_user_add e x c u v g w))"
    using assms r ticks_admin_frame users_admin_frame [where n = "n + 2"]
    by (auto simp: cli_user_add_def hash_password_def utcnow_def Let_def acct_table_ok_def split: sum.splits option.splits)
  show "admin_frame w (snd (cli_user_passwd x c u v g w)) \<and> acct_table_ok (snd (cli_user_passwd x c u v g w))"
    using assms r ticks_admin_frame users_admin_frame [where n = "n + 1"]
    by (auto simp: cli_user_passwd_def hash_password_def acct_table_ok_def split: sum.splits option.splits)
qed

lemma run_command_frame:
  assumes "acct_table_ok w"
  shows "admin_frame w (snd (run_command e x c cmd w)) \<and> acct_table_ok (snd (run_command e x c cmd w))"
  using assms account_admin_frame [OF account_frame_refl, of w]
  by (cases cmd) (simp_all add: set_enabled_frame account_add_frame account_passwd_frame user_commands_frame)

lemma run_command_exit: "run_command e x c cmd w = (Inl ex, w') \<Longrightarrow> \<exists>n. w' = w\<lparr>tick := tick w + n\<rparr>"
proof -
  assume run: "run_command e x c cmd w = (Inl ex, w')"
  have R: "\<exists>n. snd (resolve_password x c v g w) = w\<lparr>tick := tick w + n\<rparr>" for v g by (rule resolve_tick)
  have Z: "\<exists>n. w = w\<lparr>tick := tick w + n\<rparr>" by (rule exI [of _ 0]) simp
  show ?thesis
  proof (cases cmd)
    case (Account_add u d v g)
    then show ?thesis using run R [of v g]
      by (auto simp: cli_account_add_def split: prod.splits sum.splits if_splits)
  next
    case (Account_passwd u v g)
    then show ?thesis using run R [of v g]
      by (auto simp: cli_account_passwd_def Let_def split: prod.splits sum.splits option.splits)
  next
    case (User_add u v g)
    then show ?thesis using run R [of v g]
      by (auto simp: cli_user_add_def Let_def split: prod.splits sum.splits if_splits)
  next
    case (User_passwd u v g)
    then show ?thesis using run R [of v g]
      by (auto simp: cli_user_passwd_def Let_def split: prod.splits sum.splits option.splits)
  qed (use run Z in \<open>auto simp: cli_account_set_enabled_def split: option.splits\<close>)
qed

section \<open>Properties\<close>

definition account_target :: "command \<Rightarrow> string option" where
  "account_target cmd = (case cmd of
     Account_add u _ _ _ \<Rightarrow> Some u | Account_enable u \<Rightarrow> Some u | Account_disable u \<Rightarrow> Some u
   | Account_passwd u _ _ \<Rightarrow> Some u | _ \<Rightarrow> None)"

text \<open>The commands on accounts one by one: what a successful one leaves in the table.\<close>

lemma set_enabled_takes_effect:
  assumes "acct_table_ok w" "cli_account_set_enabled u en w = (Inr out, w')"
  shows "\<exists>a. account_of w u = Some a \<and> account_of w' u = Some (a\<lparr>acct_enabled := en\<rparr>) \<and>
    (\<forall>v. v \<noteq> u \<longrightarrow> account_of w' v = account_of w v)"
proof -
  obtain a where a: "account_of w u = Some a" using assms(2) by (auto simp: cli_account_set_enabled_def split: option.splits)
  have rows: "accounts (db w') = update_where (\<lambda>b. acct_id b = acct_id a) (\<lambda>b. b\<lparr>acct_enabled := en\<rparr>) (accounts (db w))"
    using assms(2) a by (auto simp: cli_account_set_enabled_def)
  show ?thesis using a account_of_update [OF assms(1) a _ rows] account_of_other [OF assms(1) a _ _ rows] by simp
qed

lemma account_add_takes_effect:
  assumes "cli_account_add e x c u d v g w = (Inr out, w')"
  shows "\<exists>pw gen n b. fst (resolve_password x c v g w) = Inr (pw, gen) \<and> (gen \<longrightarrow> Generated_password pw \<in> set out) \<and>
    account_of w' u = Some b \<and> acct_enabled b \<and> acct_password_hash b = hasher_hash c n pw \<and>
    (\<forall>v. v \<noteq> u \<longrightarrow> account_of w' v = account_of w v)"
proof (rule cli_account_add_cases [of e x c u d v g w])
  show ?thesis if "cli_account_add e x c u d v g w = (Inl ex, w\<lparr>tick := tick w + n\<rparr>)" for ex n
    using that assms by simp
  show ?thesis if r: "resolve_password x c v g w = (Inr (pw, gen), w\<lparr>tick := tick w + n\<rparr>)" "account_of w u = None"
    "cli_account_add e x c u d v g w =
     (Inr (Created_account u # generated_line gen pw), add_account e c u pw d (w\<lparr>tick := tick w + n\<rparr>))" for pw gen n
  proof -
    have w': "w' = add_account e c u pw d (w\<lparr>tick := tick w + n\<rparr>)" "out = Created_account u # generated_line gen pw"
      using assms r(3) by simp_all
    show ?thesis using r(1,2)
      by (intro exI [of _ pw] exI [of _ gen] exI [of _ "tick w + n"]) (auto simp: w' account_of_add generated_line_def)
  qed
qed

lemma account_passwd_takes_effect:
  assumes "acct_table_ok w" "cli_account_passwd x c u v g w = (Inr out, w')"
  shows "\<exists>pw gen n a. fst (resolve_password x c v g w) = Inr (pw, gen) \<and> (gen \<longrightarrow> Generated_password pw \<in> set out) \<and>
    account_of w u = Some a \<and> account_of w' u = Some (a\<lparr>acct_password_hash := hasher_hash c n pw, acct_last_used_at := None\<rparr>) \<and>
    (\<forall>v. v \<noteq> u \<longrightarrow> account_of w' v = account_of w v)"
proof (rule cli_account_passwd_cases [of x c u v g w])
  show ?thesis if "cli_account_passwd x c u v g w = (Inl ex, w\<lparr>tick := tick w + n\<rparr>)" for ex n
    using that assms by simp
  show ?thesis if r: "resolve_password x c v g w = (Inr (pw, gen), w\<lparr>tick := tick w + n\<rparr>)" "account_of w u = Some a"
    "cli_account_passwd x c u v g w = (Inr (Password_updated u # generated_line gen pw),
      update_accounts (\<lambda>b. acct_id b = acct_id a)
        (\<lambda>b. b\<lparr>acct_password_hash := hasher_hash c (tick w + n) pw, acct_last_used_at := None\<rparr>)
        (w\<lparr>tick := Suc (tick w + n)\<rparr>))" for pw gen n a
  proof -
    let ?f = "\<lambda>b. b\<lparr>acct_password_hash := hasher_hash c (tick w + n) pw, acct_last_used_at := None\<rparr>"
    have rows: "accounts (db w') = update_where (\<lambda>b. acct_id b = acct_id a) ?f (accounts (db w))"
      and out: "out = Password_updated u # generated_line gen pw" using assms(2) r(3) by auto
    have "account_of w' u = Some (?f a)" by (rule account_of_update [OF assms(1) r(2) _ rows]) simp
    moreover have "\<forall>v. v \<noteq> u \<longrightarrow> account_of w' v = account_of w v"
      using account_of_other [OF assms(1) r(2) _ _ rows] by simp
    ultimately show ?thesis using r(1,2)
      by (intro exI [of _ pw] exI [of _ gen] exI [of _ "tick w + n"] exI [of _ a]) (auto simp: out generated_line_def)
  qed
qed

lemma user_commands_leave_accounts:
  "cli_user_add e x c u v g w = (r, w') \<Longrightarrow> account_of w' o' = account_of w o'"
  "cli_user_passwd x c u v g w = (r, w') \<Longrightarrow> account_of w' o' = account_of w o'"
  using resolve_tick [of x c v g w]
  by (auto simp: cli_user_add_def cli_user_passwd_def hash_password_def utcnow_def Let_def account_of_def
      split: prod.splits sum.splits option.splits if_splits)



end
