(* ===== verification/Pages.thy ===== *)
theory Pages
  imports Web_Api
begin

text \<open>
  \<open>src/smtp_switch/web/views.py\<close>, the server-rendered pages, and \<open>src/smtp_switch/web/app.py\<close>, the
  application that serves them beside the API. A page is the template it is made from with the values
  of its context; the templates, the static files and the Prometheus text format are not code of the
  program's own language (\<open>generate_latest\<close> is a parameter).
\<close>

record page_env =
  generate_latest :: "world \<Rightarrow> string"
  ping_error :: "nat \<Rightarrow> exn option"

datatype site_response =
    Redirect string int
  | Login_html
  | Overview_html string "(string \<times> int) list" throughput_view "provider_view list"
  | Messages_html string "message list" string string int "int option" "int option"
  | Not_found_html string
  | Message_html string message "delivery_attempt list"
  | Providers_html string "provider_view list"
  | Accounts_html string "account list"
  | Plain_text int string
  | Page_error web_error
  | Api_response response

datatype site_request =
    Login_page
  | Overview_page
  | Messages_page "string option" "string option" int
  | Message_page int
  | Providers_page
  | Accounts_page
  | Healthz
  | Metrics_page
  | Api request

section \<open>Pages\<close>

definition login_page ::
  "'e env_scheme \<Rightarrow> web_env \<Rightarrow> settings \<Rightarrow> string option \<Rightarrow> world \<Rightarrow> site_response \<times> world" where
  "login_page e x s cookie w =
     (let (user, w) = optional_user e x (web s) cookie w
      in (if str_or_empty user \<noteq> [] then Redirect ''/'' 302 else Login_html, w))"

definition overview_page ::
  "'e env_scheme \<Rightarrow> web_env \<Rightarrow> settings \<Rightarrow> string \<Rightarrow> world \<Rightarrow> site_response \<times> world" where
  "overview_page e x s user w =
     (let counts = queue_counts w; (tp, w) = throughput e 60 w in
      case provider_overview e s (breaker_names x (states w)) w of
        (Inl ex, w) \<Rightarrow> (Page_error (Server_error ex), w)
      | (Inr rows, w) \<Rightarrow> (Overview_html user counts tp rows, w))"

text \<open>The links to the next and the previous page of the message list.\<close>

definition next_offset :: "int \<Rightarrow> message list \<Rightarrow> int option" where
  "next_offset offset rows = (if length rows = 50 then Some (offset + 50) else None)"

definition prev_offset :: "int \<Rightarrow> int option" where
  "prev_offset offset = (if offset \<noteq> 0 then Some (max 0 (offset - 50)) else None)"

definition messages_page ::
  "query_env \<Rightarrow> string \<Rightarrow> string option \<Rightarrow> string option \<Rightarrow> int \<Rightarrow> world \<Rightarrow> site_response" where
  "messages_page qe user st q offset w =
     (let rows = list_messages qe st q 50 offset w
      in Messages_html user rows (str_or_empty st) (str_or_empty q) offset (next_offset offset rows) (prev_offset offset))"

definition message_page :: "query_env \<Rightarrow> string \<Rightarrow> int \<Rightarrow> world \<Rightarrow> site_response" where
  "message_page qe user mid w =
     (case get_message qe mid w of
        None \<Rightarrow> Not_found_html user
      | Some (m, atts) \<Rightarrow> Message_html user m atts)"

definition providers_page ::
  "'e env_scheme \<Rightarrow> web_env \<Rightarrow> settings \<Rightarrow> string \<Rightarrow> world \<Rightarrow> site_response \<times> world" where
  "providers_page e x s user w =
     (case provider_overview e s (breaker_names x (states w)) w of
        (Inl ex, w) \<Rightarrow> (Page_error (Server_error ex), w)
      | (Inr rows, w) \<Rightarrow> (Providers_html user rows, w))"

definition accounts_page :: "string \<Rightarrow> world \<Rightarrow> site_response" where
  "accounts_page user w = Accounts_html user (sort_key acct_username (accounts (db w)))"

section \<open>The application\<close>

text \<open>\<open>/healthz\<close> runs one statement against the database and \<open>/metrics\<close> prints the collectors.\<close>

definition healthz :: "page_env \<Rightarrow> world \<Rightarrow> site_response" where
  "healthz pe w = (case ping_error pe (tick w) of Some x \<Rightarrow> Page_error (Server_error x) | None \<Rightarrow> Plain_text 200 ''ok'')"

definition metrics_page :: "page_env \<Rightarrow> settings \<Rightarrow> world \<Rightarrow> site_response" where
  "metrics_page pe s w =
     (if \<not> metrics_enabled s then Plain_text 404 ''metrics disabled'' else Plain_text 200 (generate_latest pe w))"

text \<open>The pages that depend on \<open>require_user\<close>.\<close>

fun user_page ::
  "'e env_scheme \<Rightarrow> web_env \<Rightarrow> query_env \<Rightarrow> settings \<Rightarrow> string \<Rightarrow> site_request \<Rightarrow> world \<Rightarrow> site_response \<times> world" where
  "user_page e x qe s user Overview_page w = overview_page e x s user w"
| "user_page e x qe s user (Messages_page st q offset) w = (messages_page qe user st q offset w, w)"
| "user_page e x qe s user (Message_page mid) w = (message_page qe user mid w, w)"
| "user_page e x qe s user Providers_page w = providers_page e x s user w"
| "user_page e x qe s user Accounts_page w = (accounts_page user w, w)"
| "user_page e x qe s user _ w = (Page_error not_found, w)"

definition create_app ::
  "'e env_scheme \<Rightarrow> web_env \<Rightarrow> crypto \<Rightarrow> query_env \<Rightarrow> page_env \<Rightarrow> settings \<Rightarrow> string option \<Rightarrow> site_request \<Rightarrow> web_state \<Rightarrow>
   site_response \<times> web_state" where
  "create_app e x c qe pe s cookie req ws =
     (let w = web_world ws in
      case req of
        Login_page \<Rightarrow> (let (r, w) = login_page e x s cookie w in (r, ws\<lparr>web_world := w\<rparr>))
      | Healthz \<Rightarrow> (healthz pe w, ws)
      | Metrics_page \<Rightarrow> (metrics_page pe s w, ws)
      | Api r \<Rightarrow> (let (answer, ws) = api e x c qe s cookie r ws in (Api_response answer, ws))
      | _ \<Rightarrow> (case require_user e x (web s) cookie w of
                (Inl err, w) \<Rightarrow> (Page_error err, ws\<lparr>web_world := w\<rparr>)
              | (Inr user, w) \<Rightarrow> (let (r, w) = user_page e x qe s user req w in (r, ws\<lparr>web_world := w\<rparr>))))"

section \<open>Lemmas\<close>

definition is_open :: "site_request \<Rightarrow> bool" where
  "is_open req \<longleftrightarrow> (case req of Login_page \<Rightarrow> True | Healthz \<Rightarrow> True | Metrics_page \<Rightarrow> True
     | Api (Login _ _) \<Rightarrow> True | Api Logout \<Rightarrow> True | _ \<Rightarrow> False)"

definition unauthorized :: web_error where
  "unauthorized = HTTPException 401 ''Not authenticated''"

lemma require_user_None:
  assumes "fst (session_verify e x cfg cookie w) = None"
  shows "\<exists>n. require_user e x cfg cookie w = (Inl unauthorized, w\<lparr>tick := tick w + n\<rparr>)"
proof -
  obtain n where "snd (session_verify e x cfg cookie w) = w\<lparr>tick := tick w + n\<rparr>" using session_verify_tick by blast
  then show ?thesis using assms by (intro exI [of _ n]) (simp add: require_user_def prod.case_eq_if unauthorized_def)
qed

lemma ticks_view: "view_eq w (w\<lparr>tick := tick w + n\<rparr>)"
  by (rule tick_view_eq) simp

lemma user_page_view: "view_eq w (snd (user_page e x qe s user req w))"
proof (cases req)
  case Overview_page
  have "snd (overview_page e x s user w) =
      snd (provider_overview e s (breaker_names x (states (snd (throughput e 60 w)))) (snd (throughput e 60 w)))"
    by (auto simp: overview_page_def Let_def prod.case_eq_if split: sum.splits)
  then show ?thesis using Overview_page view_eq_trans [OF throughput_view_eq provider_overview_view] by simp
next
  case Providers_page
  have "snd (providers_page e x s user w) = snd (provider_overview e s (breaker_names x (states w)) w)"
    by (auto simp: providers_page_def prod.case_eq_if split: sum.splits)
  then show ?thesis using Providers_page provider_overview_view by simp
qed simp_all

lemma page_reads_only:
  assumes r: "\<And>q. r \<noteq> Api q"
  shows "view_eq (web_world v) (web_world (snd (create_app e x c qe pe s k r v))) \<and>
    ingress_accounts (snd (create_app e x c qe pe s k r v)) = ingress_accounts v"
proof -
  have u: "view_eq (web_world v) (snd (user_page e x qe s user r (snd (require_user e x (web s) k (web_world v)))))" for user
    using require_user_tick [of e x "web s" k "web_world v"] view_eq_trans [OF ticks_view user_page_view] by metis
  have t: "view_eq (web_world v) (snd (require_user e x (web s) k (web_world v)))"
    using require_user_tick [of e x "web s" k "web_world v"] ticks_view by metis
  have l: "view_eq (web_world v) (snd (session_verify e x (web s) k (web_world v)))"
    using session_verify_tick [of e x "web s" k "web_world v"] ticks_view by metis
  show ?thesis using u t l r
    by (cases r) (auto simp: create_app_def login_page_def optional_user_def Let_def prod.case_eq_if split: sum.splits)
qed

lemma create_app_api:
  "snd (create_app e x c qe pe s k (Api r) ws) = snd (api e x c qe s k r ws)"
  by (simp add: create_app_def prod.case_eq_if)

text \<open>Following the links: the messages of the page at \<open>offset\<close> and of the pages after it.\<close>

partial_function (option) browse ::
  "query_env \<Rightarrow> string \<Rightarrow> string option \<Rightarrow> string option \<Rightarrow> world \<Rightarrow> int \<Rightarrow> message list list option" where
  "browse qe user st q w offset =
     (case messages_page qe user st q offset w of
        Messages_html _ rows _ _ _ link _ \<Rightarrow>
          (case link of
             None \<Rightarrow> Some [rows]
           | Some offset' \<Rightarrow> Option.bind (browse qe user st q w offset') (\<lambda>rest. Some (rows # rest)))
      | _ \<Rightarrow> None)"

lemma browse_step:
  "browse qe user st q w offset =
     (let rows = list_messages qe st q 50 offset w
      in if length rows = 50 then Option.bind (browse qe user st q w (offset + 50)) (\<lambda>rest. Some (rows # rest))
         else Some [rows])"
  by (subst browse.simps) (simp add: messages_page_def next_offset_def Let_def)

lemma browse_pages:
  "0 \<le> k \<Longrightarrow> k \<le> length (matching_messages qe st q w) \<Longrightarrow>
   \<exists>pages. browse qe user st q w (int k) = Some pages \<and> concat pages = drop k (matching_messages qe st q w) \<and>
     length pages = (length (matching_messages qe st q w) - k) div 50 + 1"
proof (induction "length (matching_messages qe st q w) - k" arbitrary: k rule: less_induct)
  case less
  let ?ms = "matching_messages qe st q w"
  have rows: "list_messages qe st q 50 (int k) w = take 50 (drop k ?ms)"
    by (simp add: list_messages_def sql_window_def)
  show ?case
  proof (cases "50 \<le> length ?ms - k")
    case True
    then have "length (take 50 (drop k ?ms)) = 50" by simp
    then have step: "browse qe user st q w (int k) = Option.bind (browse qe user st q w (int (k + 50))) (\<lambda>rest. Some (take 50 (drop k ?ms) # rest))"
      by (subst browse_step) (simp add: rows Let_def)
    obtain pages where p: "browse qe user st q w (int (k + 50)) = Some pages" "concat pages = drop (k + 50) ?ms"
      "length pages = (length ?ms - (k + 50)) div 50 + 1"
      using less.hyps [of "k + 50"] True less.prems by force
    have "take 50 (drop k ?ms) @ drop (k + 50) ?ms = drop k ?ms"
      by (metis add.commute append_take_drop_id drop_drop)
    moreover have "(length ?ms - k) div 50 = (length ?ms - (k + 50)) div 50 + 1"
      using le_div_geq [of 50 "length ?ms - k"] True by simp
    ultimately show ?thesis using p step by simp
  next
    case False
    then show ?thesis
      by (subst browse_step) (simp add: rows Let_def)
  qed
qed

section \<open>Properties\<close>


definition demo_page_env :: page_env where
  "demo_page_env = \<lparr>generate_latest = (\<lambda>_. []), ping_error = (\<lambda>_. None)\<rparr>"




end
