(* ===== verification/Schema.thy ===== *)
theory Schema
  imports Prelude
begin

text \<open>
  The two ways to create the database: \<open>Base.metadata.create_all\<close> over the declarations of
  \<open>src/smtp_switch/db/models.py\<close>, and the Alembic revision
  \<open>src/smtp_switch/migrations/versions/04043399b769_initial_schema.py\<close>. A schema is the set of tables
  and indexes by name; a failed operation is an error value.
\<close>

section \<open>Schemas and their operations\<close>

datatype sa_type = Integer | BigInteger | Boolean | DateTime | JSON | Text | VarString nat

record column =
  col_name :: string
  col_type :: sa_type
  nullable :: bool

text \<open>A foreign key: column, target and what happens on deletion.\<close>

record table_def =
  columns :: "column list"
  primary_key :: "string list"
  uniques :: "string list list"
  foreign_keys :: "(string \<times> string \<times> string) list"

record schema =
  tables :: "string \<Rightarrow> table_def option"
  indexes :: "string \<Rightarrow> (string \<times> string list) option"

datatype schema_error = Table_exists string | No_such_table string | Index_exists string | No_such_index string

datatype ddl =
    Create_table string table_def
  | Create_index string string "string list"
  | Drop_index string
  | Drop_table string

text \<open>The indexes of a table go with it.\<close>

fun run_op :: "ddl \<Rightarrow> schema \<Rightarrow> schema_error + schema" where
  "run_op (Create_table name d) sc =
     (if tables sc name \<noteq> None then Inl (Table_exists name) else Inr (sc\<lparr>tables := (tables sc)(name \<mapsto> d)\<rparr>))"
| "run_op (Create_index table ix cols) sc =
     (if tables sc table = None then Inl (No_such_table table)
      else if indexes sc ix \<noteq> None then Inl (Index_exists ix)
      else Inr (sc\<lparr>indexes := (indexes sc)(ix \<mapsto> (table, cols))\<rparr>))"
| "run_op (Drop_index ix) sc =
     (if indexes sc ix = None then Inl (No_such_index ix) else Inr (sc\<lparr>indexes := (indexes sc)(ix := None)\<rparr>))"
| "run_op (Drop_table name) sc =
     (if tables sc name = None then Inl (No_such_table name)
      else Inr (sc\<lparr>tables := (tables sc)(name := None),
                   indexes := (\<lambda>ix. if map_option fst (indexes sc ix) = Some name then None else indexes sc ix)\<rparr>))"

fun run_ops :: "ddl list \<Rightarrow> schema \<Rightarrow> schema_error + schema" where
  "run_ops [] sc = Inr sc"
| "run_ops (f # fs) sc = (case run_op f sc of Inl err \<Rightarrow> Inl err | Inr sc \<Rightarrow> run_ops fs sc)"

section \<open>The migration\<close>

definition column :: "string \<Rightarrow> sa_type \<Rightarrow> bool \<Rightarrow> column" where
  "column n t b = \<lparr>col_name = n, col_type = t, nullable = b\<rparr>"

definition table :: "column list \<Rightarrow> string list \<Rightarrow> string list list \<Rightarrow> (string \<times> string \<times> string) list \<Rightarrow> table_def" where
  "table cs pk us fks = \<lparr>columns = cs, primary_key = pk, uniques = us, foreign_keys = fks\<rparr>"

definition upgrade_ops :: "ddl list" where
  "upgrade_ops = [
     Create_table ''accounts'' (table [
       column ''id'' Integer False,
       column ''username'' (VarString 255) False,
       column ''password_hash'' (VarString 255) False,
       column ''description'' (VarString 512) True,
       column ''enabled'' Boolean False,
       column ''created_at'' DateTime False,
       column ''last_used_at'' DateTime True] [''id''] [[''username'']] []),
     Create_table ''dashboard_users'' (table [
       column ''id'' Integer False,
       column ''username'' (VarString 255) False,
       column ''password_hash'' (VarString 255) False,
       column ''enabled'' Boolean False,
       column ''created_at'' DateTime False] [''id''] [[''username'']] []),
     Create_table ''messages'' (table [
       column ''id'' Integer False,
       column ''received_at'' DateTime False,
       column ''submitting_account'' (VarString 255) True,
       column ''from_addr'' (VarString 320) False,
       column ''rcpt_to'' JSON False,
       column ''subject'' (VarString 512) True,
       column ''message_id_header'' (VarString 512) True,
       column ''size'' BigInteger False,
       column ''spool_path'' (VarString 1024) False,
       column ''status'' (VarString 16) False,
       column ''attempts'' Integer False,
       column ''next_attempt_at'' DateTime False,
       column ''last_error'' Text True,
       column ''provider_used'' (VarString 64) True,
       column ''sent_at'' DateTime True,
       column ''claimed_at'' DateTime True] [''id''] [] []),
     Create_index ''messages'' ''ix_messages_message_id_header'' [''message_id_header''],
     Create_index ''messages'' ''ix_messages_next_attempt_at'' [''next_attempt_at''],
     Create_index ''messages'' ''ix_messages_received_at'' [''received_at''],
     Create_index ''messages'' ''ix_messages_status'' [''status''],
     Create_index ''messages'' ''ix_messages_status_next_attempt'' [''status'', ''next_attempt_at''],
     Create_table ''provider_overrides'' (table [
       column ''provider'' (VarString 64) False,
       column ''enabled'' Boolean True,
       column ''note'' (VarString 512) True,
       column ''updated_at'' DateTime False] [''provider''] [] []),
     Create_table ''provider_quota'' (table [
       column ''provider'' (VarString 64) False,
       column ''period_key'' (VarString 16) False,
       column ''scope'' (VarString 8) False,
       column ''count'' Integer False,
       column ''updated_at'' DateTime False] [''provider'', ''period_key'', ''scope''] [] []),
     Create_table ''provider_state'' (table [
       column ''provider'' (VarString 64) False,
       column ''healthy'' Boolean False,
       column ''consecutive_failures'' Integer False,
       column ''opened_at'' DateTime True,
       column ''half_open_probes'' Integer False,
       column ''last_failure_at'' DateTime True,
       column ''last_success_at'' DateTime True,
       column ''updated_at'' DateTime False] [''provider''] [] []),
     Create_table ''send_log'' (table [
       column ''id'' Integer False,
       column ''provider'' (VarString 64) False,
       column ''message_id'' Integer True,
       column ''sent_at'' DateTime False] [''id''] [] []),
     Create_index ''send_log'' ''ix_send_log_provider_sent_at'' [''provider'', ''sent_at''],
     Create_table ''delivery_attempts'' (table [
       column ''id'' Integer False,
       column ''message_id'' Integer False,
       column ''attempt_no'' Integer False,
       column ''provider'' (VarString 64) True,
       column ''started_at'' DateTime False,
       column ''finished_at'' DateTime True,
       column ''result'' (VarString 16) False,
       column ''smtp_code'' Integer True,
       column ''error'' Text True] [''id''] [] [(''message_id'', ''messages.id'', ''CASCADE'')]),
     Create_index ''delivery_attempts'' ''ix_delivery_attempts_message_id'' [''message_id'']]"

definition upgrade :: "schema \<Rightarrow> schema_error + schema" where
  "upgrade = run_ops upgrade_ops"

definition downgrade_ops :: "ddl list" where
  "downgrade_ops = [
     Drop_index ''ix_delivery_attempts_message_id'',
     Drop_table ''delivery_attempts'',
     Drop_index ''ix_send_log_provider_sent_at'',
     Drop_table ''send_log'',
     Drop_table ''provider_state'',
     Drop_table ''provider_quota'',
     Drop_table ''provider_overrides'',
     Drop_index ''ix_messages_status_next_attempt'',
     Drop_index ''ix_messages_status'',
     Drop_index ''ix_messages_received_at'',
     Drop_index ''ix_messages_next_attempt_at'',
     Drop_index ''ix_messages_message_id_header'',
     Drop_table ''messages'',
     Drop_table ''dashboard_users'',
     Drop_table ''accounts'']"

definition downgrade :: "schema \<Rightarrow> schema_error + schema" where
  "downgrade = run_ops downgrade_ops"

section \<open>The declarations\<close>

text \<open>\<open>Mapped[T | None]\<close> makes a column optional; a primary key never is null.\<close>

record mapped_column =
  mc_name :: string
  mc_type :: sa_type
  mc_optional :: bool
  mc_primary_key :: bool
  mc_index :: bool
  mc_unique :: bool
  mc_foreign_key :: "(string \<times> string) option"

record model =
  tablename :: string
  mapped :: "mapped_column list"
  table_args :: "(string \<times> string list) list"

definition mcol :: "string \<Rightarrow> sa_type \<Rightarrow> mapped_column" where
  "mcol n t = \<lparr>mc_name = n, mc_type = t, mc_optional = False, mc_primary_key = False, mc_index = False,
     mc_unique = False, mc_foreign_key = None\<rparr>"

definition opt :: "mapped_column \<Rightarrow> mapped_column" where "opt c = c\<lparr>mc_optional := True\<rparr>"

definition pkey :: "mapped_column \<Rightarrow> mapped_column" where "pkey c = c\<lparr>mc_primary_key := True\<rparr>"

definition indexed :: "mapped_column \<Rightarrow> mapped_column" where "indexed c = c\<lparr>mc_index := True\<rparr>"

definition unique :: "mapped_column \<Rightarrow> mapped_column" where "unique c = c\<lparr>mc_unique := True\<rparr>"

definition Message :: model where
  "Message = \<lparr>tablename = ''messages'', mapped = [
     pkey (mcol ''id'' Integer),
     indexed (mcol ''received_at'' DateTime),
     opt (mcol ''submitting_account'' (VarString 255)),
     mcol ''from_addr'' (VarString 320),
     mcol ''rcpt_to'' JSON,
     opt (mcol ''subject'' (VarString 512)),
     indexed (opt (mcol ''message_id_header'' (VarString 512))),
     mcol ''size'' BigInteger,
     mcol ''spool_path'' (VarString 1024),
     indexed (mcol ''status'' (VarString 16)),
     mcol ''attempts'' Integer,
     indexed (mcol ''next_attempt_at'' DateTime),
     opt (mcol ''last_error'' Text),
     opt (mcol ''provider_used'' (VarString 64)),
     opt (mcol ''sent_at'' DateTime),
     opt (mcol ''claimed_at'' DateTime)],
     table_args = [(''ix_messages_status_next_attempt'', [''status'', ''next_attempt_at''])]\<rparr>"

definition DeliveryAttempt :: model where
  "DeliveryAttempt = \<lparr>tablename = ''delivery_attempts'', mapped = [
     pkey (mcol ''id'' Integer),
     indexed ((mcol ''message_id'' Integer)\<lparr>mc_foreign_key := Some (''messages.id'', ''CASCADE'')\<rparr>),
     mcol ''attempt_no'' Integer,
     opt (mcol ''provider'' (VarString 64)),
     mcol ''started_at'' DateTime,
     opt (mcol ''finished_at'' DateTime),
     mcol ''result'' (VarString 16),
     opt (mcol ''smtp_code'' Integer),
     opt (mcol ''error'' Text)], table_args = []\<rparr>"

definition SendLogEntry :: model where
  "SendLogEntry = \<lparr>tablename = ''send_log'', mapped = [
     pkey (mcol ''id'' Integer),
     mcol ''provider'' (VarString 64),
     opt (mcol ''message_id'' Integer),
     mcol ''sent_at'' DateTime],
     table_args = [(''ix_send_log_provider_sent_at'', [''provider'', ''sent_at''])]\<rparr>"

definition ProviderQuota :: model where
  "ProviderQuota = \<lparr>tablename = ''provider_quota'', mapped = [
     pkey (mcol ''provider'' (VarString 64)),
     pkey (mcol ''period_key'' (VarString 16)),
     pkey (mcol ''scope'' (VarString 8)),
     mcol ''count'' Integer,
     mcol ''updated_at'' DateTime], table_args = []\<rparr>"

definition ProviderState :: model where
  "ProviderState = \<lparr>tablename = ''provider_state'', mapped = [
     pkey (mcol ''provider'' (VarString 64)),
     mcol ''healthy'' Boolean,
     mcol ''consecutive_failures'' Integer,
     opt (mcol ''opened_at'' DateTime),
     mcol ''half_open_probes'' Integer,
     opt (mcol ''last_failure_at'' DateTime),
     opt (mcol ''last_success_at'' DateTime),
     mcol ''updated_at'' DateTime], table_args = []\<rparr>"

definition Account :: model where
  "Account = \<lparr>tablename = ''accounts'', mapped = [
     pkey (mcol ''id'' Integer),
     unique (mcol ''username'' (VarString 255)),
     mcol ''password_hash'' (VarString 255),
     opt (mcol ''description'' (VarString 512)),
     mcol ''enabled'' Boolean,
     mcol ''created_at'' DateTime,
     opt (mcol ''last_used_at'' DateTime)], table_args = []\<rparr>"

definition DashboardUser :: model where
  "DashboardUser = \<lparr>tablename = ''dashboard_users'', mapped = [
     pkey (mcol ''id'' Integer),
     unique (mcol ''username'' (VarString 255)),
     mcol ''password_hash'' (VarString 255),
     mcol ''enabled'' Boolean,
     mcol ''created_at'' DateTime], table_args = []\<rparr>"

definition ProviderOverride :: model where
  "ProviderOverride = \<lparr>tablename = ''provider_overrides'', mapped = [
     pkey (mcol ''provider'' (VarString 64)),
     opt (mcol ''enabled'' Boolean),
     opt (mcol ''note'' (VarString 512)),
     mcol ''updated_at'' DateTime], table_args = []\<rparr>"

definition metadata :: "model list" where
  "metadata = [Message, DeliveryAttempt, SendLogEntry, ProviderQuota, ProviderState, Account, DashboardUser, ProviderOverride]"

definition model_table :: "model \<Rightarrow> table_def" where
  "model_table m = table
     (map (\<lambda>c. column (mc_name c) (mc_type c) (mc_optional c \<and> \<not> mc_primary_key c)) (mapped m))
     (map mc_name (filter mc_primary_key (mapped m)))
     (map (\<lambda>c. [mc_name c]) (filter mc_unique (mapped m)))
     (concat (map (\<lambda>c. case mc_foreign_key c of None \<Rightarrow> [] | Some (t, d) \<Rightarrow> [(mc_name c, t, d)]) (mapped m)))"

definition model_indexes :: "model \<Rightarrow> (string \<times> string list) list" where
  "model_indexes m =
     map (\<lambda>c. (''ix_'' @ tablename m @ ''_'' @ mc_name c, [mc_name c])) (filter mc_index (mapped m)) @ table_args m"

text \<open>\<open>create_all\<close> leaves a table that exists alone, whatever its columns.\<close>

definition model_ops :: "model \<Rightarrow> ddl list" where
  "model_ops m = Create_table (tablename m) (model_table m) #
     map (\<lambda>(ix, cols). Create_index (tablename m) ix cols) (model_indexes m)"

fun create_models :: "model list \<Rightarrow> schema \<Rightarrow> schema_error + schema" where
  "create_models [] sc = Inr sc"
| "create_models (m # ms) sc =
     (if tables sc (tablename m) \<noteq> None then create_models ms sc
      else case run_ops (model_ops m) sc of Inl err \<Rightarrow> Inl err | Inr sc \<Rightarrow> create_models ms sc)"

definition create_all :: "schema \<Rightarrow> schema_error + schema" where
  "create_all = create_models metadata"

section \<open>Lemmas\<close>

definition table_names :: "string list" where
  "table_names = map tablename metadata"

definition index_names :: "string list" where
  "index_names = map fst (concat (map model_indexes metadata))"

text \<open>A database without any of the program's tables and indexes.\<close>

definition unused :: "schema \<Rightarrow> bool" where
  "unused sc \<longleftrightarrow> (\<forall>t \<in> set table_names. tables sc t = None) \<and> (\<forall>ix \<in> set index_names. indexes sc ix = None) \<and>
     (\<forall>ix t cols. indexes sc ix = Some (t, cols) \<longrightarrow> t \<notin> set table_names)"

lemma table_names_value: "table_names = [''messages'', ''delivery_attempts'', ''send_log'', ''provider_quota'',
  ''provider_state'', ''accounts'', ''dashboard_users'', ''provider_overrides'']"
  by code_simp

lemma index_names_value: "index_names = [''ix_messages_received_at'', ''ix_messages_message_id_header'', ''ix_messages_status'',
  ''ix_messages_next_attempt_at'', ''ix_messages_status_next_attempt'', ''ix_delivery_attempts_message_id'',
  ''ix_send_log_provider_sent_at'']"
  by code_simp

text \<open>What a list of creations adds, and the order it needs.\<close>

fun new_tables :: "ddl list \<Rightarrow> (string \<times> table_def) list" where
  "new_tables [] = []"
| "new_tables (Create_table n d # ops) = (n, d) # new_tables ops"
| "new_tables (_ # ops) = new_tables ops"

fun new_indexes :: "ddl list \<Rightarrow> (string \<times> string \<times> string list) list" where
  "new_indexes [] = []"
| "new_indexes (Create_index t ix cols # ops) = (ix, t, cols) # new_indexes ops"
| "new_indexes (_ # ops) = new_indexes ops"

fun creates :: "string list \<Rightarrow> ddl list \<Rightarrow> bool" where
  "creates ts [] = True"
| "creates ts (Create_table n d # ops) = creates (n # ts) ops"
| "creates ts (Create_index t ix cols # ops) = (t \<in> set ts \<and> creates ts ops)"
| "creates ts (_ # ops) = False"

lemma run_creates:
  assumes "creates ts ops" "\<forall>t \<in> set ts. tables sc t \<noteq> None" "distinct (map fst (new_tables ops))" "distinct (map fst (new_indexes ops))"
    "\<forall>n \<in> fst ` set (new_tables ops). tables sc n = None" "\<forall>ix \<in> fst ` set (new_indexes ops). indexes sc ix = None"
  shows "run_ops ops sc = Inr \<lparr>tables = tables sc ++ map_of (new_tables ops), indexes = indexes sc ++ map_of (new_indexes ops)\<rparr>"
  using assms
proof (induction ts ops arbitrary: sc rule: creates.induct)
  case (2 ts n d ops)
  let ?sc = "sc\<lparr>tables := (tables sc)(n \<mapsto> d)\<rparr>"
  have "run_ops ops ?sc = Inr \<lparr>tables = tables ?sc ++ map_of (new_tables ops), indexes = indexes ?sc ++ map_of (new_indexes ops)\<rparr>"
    by (rule "2.IH") (use "2.prems" in auto)
  moreover have "map_of (new_tables ops) n = None" using "2.prems"(3) by (auto simp: map_of_eq_None_iff)
  then have "tables ?sc ++ map_of (new_tables ops) = tables sc ++ map_of (new_tables (Create_table n d # ops))"
    by (auto simp: map_add_def fun_eq_iff split: option.splits)
  moreover have "run_ops (Create_table n d # ops) sc = run_ops ops ?sc" "indexes ?sc = indexes sc"
    "new_indexes (Create_table n d # ops) = new_indexes ops" using "2.prems" by simp_all
  ultimately show ?case by (simp only:)
next
  case (3 ts t ix cols ops)
  let ?sc = "sc\<lparr>indexes := (indexes sc)(ix \<mapsto> (t, cols))\<rparr>"
  have "run_ops ops ?sc = Inr \<lparr>tables = tables ?sc ++ map_of (new_tables ops), indexes = indexes ?sc ++ map_of (new_indexes ops)\<rparr>"
    by (rule "3.IH") (use "3.prems" in auto)
  moreover have "map_of (new_indexes ops) ix = None" using "3.prems"(4) by (auto simp: map_of_eq_None_iff)
  then have "indexes ?sc ++ map_of (new_indexes ops) = indexes sc ++ map_of (new_indexes (Create_index t ix cols # ops))"
    by (auto simp: map_add_def fun_eq_iff split: option.splits)
  moreover have "run_ops (Create_index t ix cols # ops) sc = run_ops ops ?sc" "tables ?sc = tables sc"
    "new_tables (Create_index t ix cols # ops) = new_tables ops" using "3.prems" by auto
  ultimately show ?case by (simp only:)
qed simp_all

lemma run_ops_append:
  "run_ops (xs @ ys) sc = (case run_ops xs sc of Inl err \<Rightarrow> Inl err | Inr sc \<Rightarrow> run_ops ys sc)"
  by (induction xs arbitrary: sc) (auto split: sum.splits)

lemma index_ops_tables: "run_ops (map (\<lambda>(ix, cols). Create_index t ix cols) xs) sc = Inr sc' \<Longrightarrow> tables sc' = tables sc"
  by (induction xs arbitrary: sc) (auto split: if_splits)

lemma create_models_run:
  assumes "distinct (map tablename ms)" "\<forall>m \<in> set ms. tables sc (tablename m) = None"
  shows "create_models ms sc = run_ops (concat (map model_ops ms)) sc"
  using assms
proof (induction ms arbitrary: sc)
  case (Cons m ms)
  show ?case
  proof (cases "run_ops (model_ops m) sc")
    case (Inl err)
    then show ?thesis using Cons.prems by (simp add: run_ops_append)
  next
    case (Inr sc')
    then have "tables sc' = (tables sc)(tablename m \<mapsto> model_table m)"
      using index_ops_tables Cons.prems(2) by (fastforce simp: model_ops_def)
    then have "create_models ms sc' = run_ops (concat (map model_ops ms)) sc'"
      using Cons.prems by (intro Cons.IH) (auto simp: image_iff)
    then show ?thesis using Cons.prems Inr by (simp add: run_ops_append)
  qed
qed simp

definition all_ops :: "ddl list" where
  "all_ops = concat (map model_ops metadata)"

lemma creations:
  "creates [] all_ops" "creates [] upgrade_ops"
  "distinct (map fst (new_tables all_ops))" "distinct (map fst (new_indexes all_ops))"
  "map fst (new_tables all_ops) = table_names" "map fst (new_indexes all_ops) = index_names"
  "list_all (\<lambda>x. x \<in> set (new_tables all_ops)) (new_tables upgrade_ops)"
  "list_all (\<lambda>x. x \<in> set (new_tables upgrade_ops)) (new_tables all_ops)"
  "list_all (\<lambda>x. x \<in> set (new_indexes all_ops)) (new_indexes upgrade_ops)"
  "list_all (\<lambda>x. x \<in> set (new_indexes upgrade_ops)) (new_indexes all_ops)"
  "distinct (map fst (new_tables upgrade_ops))" "distinct (map fst (new_indexes upgrade_ops))"
  "distinct (map tablename metadata)"
  by code_simp+

lemma created_same:
  assumes "creates [] ops" "list_all (\<lambda>x. x \<in> set (new_tables all_ops)) (new_tables ops)"
    "list_all (\<lambda>x. x \<in> set (new_tables ops)) (new_tables all_ops)"
    "list_all (\<lambda>x. x \<in> set (new_indexes all_ops)) (new_indexes ops)"
    "list_all (\<lambda>x. x \<in> set (new_indexes ops)) (new_indexes all_ops)"
    "distinct (map fst (new_tables ops))" "distinct (map fst (new_indexes ops))" "unused sc"
  shows "run_ops ops sc = Inr \<lparr>tables = tables sc ++ map_of (new_tables all_ops), indexes = indexes sc ++ map_of (new_indexes all_ops)\<rparr>"
proof -
  have T: "set (new_tables ops) = set (new_tables all_ops)" and I: "set (new_indexes ops) = set (new_indexes all_ops)"
    using assms(2-5) by (auto simp: list_all_iff)
  have "map_of (new_tables ops) = map_of (new_tables all_ops)" "map_of (new_indexes ops) = map_of (new_indexes all_ops)"
    using map_of_inject_set [OF assms(6) creations(3)] map_of_inject_set [OF assms(7) creations(4)] T I by simp_all
  moreover have "fst ` set (new_tables all_ops) = set table_names" "fst ` set (new_indexes all_ops) = set index_names"
    using creations(5,6) by (metis set_map)+
  then have "\<forall>n \<in> fst ` set (new_tables ops). tables sc n = None" "\<forall>ix \<in> fst ` set (new_indexes ops). indexes sc ix = None"
    using assms(8) unfolding unused_def T I by simp_all
  ultimately show ?thesis using run_creates [OF assms(1) _ assms(6,7), of sc] by simp
qed

lemma upgrade_run: "unused sc \<Longrightarrow> upgrade sc = run_ops all_ops sc"
  unfolding upgrade_def
  using created_same [of upgrade_ops sc] created_same [of all_ops sc] creations by (simp add: list_all_iff)

lemma create_all_run: "unused sc \<Longrightarrow> create_all sc = run_ops all_ops sc"
  unfolding create_all_def all_ops_def
  by (rule create_models_run [OF creations(13)]) (auto simp: unused_def table_names_def)

text \<open>Drops.\<close>

fun drops :: "(string \<Rightarrow> string option) \<Rightarrow> ddl list \<Rightarrow> bool" where
  "drops own [] = True"
| "drops own (Drop_index ix # ops) = drops own ops"
| "drops own (Drop_table n # ops) = (list_all (\<lambda>f. case f of Drop_index ix \<Rightarrow> own ix \<noteq> Some n | _ \<Rightarrow> True) ops \<and> drops own ops)"
| "drops own (_ # ops) = False"

lemma drops_cong:
  "(\<And>ix. Drop_index ix \<in> set ops \<Longrightarrow> own ix = own' ix) \<Longrightarrow> drops own ops = drops own' ops"
  by (induction own ops rule: drops.induct) (auto simp: list_all_iff split: ddl.splits)

lemma run_drops:
  assumes "drops (\<lambda>ix. map_option fst (indexes sc ix)) ops" "distinct ops"
    "\<And>n. Drop_table n \<in> set ops \<Longrightarrow> tables sc n \<noteq> None" "\<And>ix. Drop_index ix \<in> set ops \<Longrightarrow> indexes sc ix \<noteq> None"
  shows "run_ops ops sc = Inr \<lparr>tables = (\<lambda>n. if Drop_table n \<in> set ops then None else tables sc n),
    indexes = (\<lambda>ix. case indexes sc ix of None \<Rightarrow> None
       | Some (t, cols) \<Rightarrow> if Drop_index ix \<in> set ops \<or> Drop_table t \<in> set ops then None else Some (t, cols))\<rparr>"
  using assms
proof (induction ops arbitrary: sc)
  case Nil
  show ?case by (cases sc) (auto simp: fun_eq_iff split: option.splits)
next
  case (Cons f ops)
  show ?case
  proof (cases f)
    case (Drop_index ix)
    let ?sc = "sc\<lparr>indexes := (indexes sc)(ix := None)\<rparr>"
    have "drops (\<lambda>ix. map_option fst (indexes ?sc ix)) ops = drops (\<lambda>ix. map_option fst (indexes sc ix)) ops"
      by (rule drops_cong) (use Cons.prems(2) in \<open>auto simp: Drop_index\<close>)
    then have "run_ops ops ?sc = Inr \<lparr>tables = (\<lambda>n. if Drop_table n \<in> set ops then None else tables ?sc n),
      indexes = (\<lambda>ix. case indexes ?sc ix of None \<Rightarrow> None
       | Some (t, cols) \<Rightarrow> if Drop_index ix \<in> set ops \<or> Drop_table t \<in> set ops then None else Some (t, cols))\<rparr>"
      using Cons.prems by (intro Cons.IH) (auto simp: Drop_index)
    then show ?thesis using Cons.prems(4) [of ix]
      by (auto simp: Drop_index fun_eq_iff split: option.splits)
  next
    case (Drop_table n)
    let ?sc = "sc\<lparr>tables := (tables sc)(n := None),
      indexes := (\<lambda>ix. if map_option fst (indexes sc ix) = Some n then None else indexes sc ix)\<rparr>"
    have own: "map_option fst (indexes sc ix) \<noteq> Some n" if "ddl.Drop_index ix \<in> set ops" for ix
      using Cons.prems(1) that by (fastforce simp: Drop_table list_all_iff)
    have "drops (\<lambda>ix. map_option fst (indexes ?sc ix)) ops = drops (\<lambda>ix. map_option fst (indexes sc ix)) ops"
      by (rule drops_cong) (use own in auto)
    then have "run_ops ops ?sc = Inr \<lparr>tables = (\<lambda>n. if ddl.Drop_table n \<in> set ops then None else tables ?sc n),
      indexes = (\<lambda>ix. case indexes ?sc ix of None \<Rightarrow> None
       | Some (t, cols) \<Rightarrow> if Drop_index ix \<in> set ops \<or> ddl.Drop_table t \<in> set ops then None else Some (t, cols))\<rparr>"
      using Cons.prems own by (intro Cons.IH) (auto simp: Drop_table)
    then show ?thesis using Cons.prems(3) [of n]
      by (auto simp: Drop_table fun_eq_iff split: option.splits)
  qed (use Cons.prems in auto)
qed

lemma drops_down:
  "drops (\<lambda>ix. map_option fst (map_of (new_indexes all_ops) ix)) downgrade_ops" "distinct downgrade_ops"
  "list_all (\<lambda>f. case f of Drop_table n \<Rightarrow> n \<in> set table_names | Drop_index ix \<Rightarrow> ix \<in> set index_names | _ \<Rightarrow> True) downgrade_ops"
  "list_all (\<lambda>n. Drop_table n \<in> set downgrade_ops) table_names"
  "list_all (\<lambda>ix. Drop_index ix \<in> set downgrade_ops) index_names"
  by code_simp+

text \<open>Both ways leave the tables of the models; with them the revision fails and \<open>create_all\<close> has nothing to do.\<close>

definition has_models :: "schema \<Rightarrow> bool" where
  "has_models sc \<longleftrightarrow> (\<forall>m \<in> set metadata. tables sc (tablename m) = Some (model_table m))"

lemma both_create_models:
  assumes "unused sc"
  shows "\<exists>sc'. upgrade sc = Inr sc' \<and> create_all sc = Inr sc' \<and> has_models sc' \<and>
    (\<forall>n. n \<notin> set table_names \<longrightarrow> tables sc' n = tables sc n)"
proof -
  let ?sc = "\<lparr>tables = tables sc ++ map_of (new_tables all_ops), indexes = indexes sc ++ map_of (new_indexes all_ops)\<rparr>"
  have run: "run_ops all_ops sc = Inr ?sc" using created_same [of all_ops sc] creations assms by (simp add: list_all_iff)
  have T: "new_tables all_ops = map (\<lambda>m. (tablename m, model_table m)) metadata" by code_simp
  have "tables ?sc (tablename m) = Some (model_table m)" if "m \<in> set metadata" for m
  proof -
    have "map_of (new_tables all_ops) (tablename m) = Some (model_table m)"
      using creations(3) that by (intro map_of_is_SomeI) (auto simp: T)
    then show ?thesis by (simp add: map_add_Some_iff)
  qed
  then have own: "has_models ?sc" unfolding has_models_def by blast
  have "map_of (new_tables all_ops) n = None" if "n \<notin> set table_names" for n
    using that creations(5) by (metis map_of_eq_None_iff set_map)
  then show ?thesis using run upgrade_run [OF assms] create_all_run [OF assms] own
    by (intro exI [of _ ?sc]) (simp add: map_add_def)
qed

lemma create_models_again:
  assumes "has_models sc"
  shows "upgrade sc = Inl (Table_exists ''accounts'')" "create_all sc = Inr sc"
proof -
  have "Account \<in> set metadata" "tablename Account = ''accounts''" by code_simp+
  then have "tables sc ''accounts'' \<noteq> None" using assms by (fastforce simp: has_models_def)
  then show "upgrade sc = Inl (Table_exists ''accounts'')" by (simp add: upgrade_def upgrade_ops_def)
  have "create_models ms sc = Inr sc" if "set ms \<subseteq> set metadata" for ms
    using that assms by (induction ms) (auto simp: has_models_def)
  then show "create_all sc = Inr sc" by (simp add: create_all_def)
qed

section \<open>Properties\<close>

text \<open>Claim C29: both ways to create the database give the same one. On a database without the program's
  tables and indexes the Alembic revision succeeds and creates exactly the tables, columns, types,
  keys and indexes that the declarations of the models describe and \<open>create_all\<close> creates. On a
  database that \<open>create_all\<close> has set up the revision fails, so that one of the two has to be chosen.\<close>

theorem migration_matches_models:
  assumes "unused sc"
  shows "\<exists>sc'. upgrade sc = Inr sc' \<and> create_all sc = Inr sc' \<and>
    (\<forall>m \<in> set metadata. tables sc' (tablename m) = Some (model_table m)) \<and>
    (\<forall>n. n \<notin> set table_names \<longrightarrow> tables sc' n = tables sc n) \<and>
    upgrade sc' = Inl (Table_exists ''accounts'') \<and> create_all sc' = Inr sc'"
proof -
  obtain sc' where "upgrade sc = Inr sc'" "create_all sc = Inr sc'" "has_models sc'"
    "\<forall>n. n \<notin> set table_names \<longrightarrow> tables sc' n = tables sc n"
    using both_create_models [OF assms] by blast
  then show ?thesis using create_models_again by (auto simp: has_models_def)
qed

definition empty_schema :: schema where
  "empty_schema = \<lparr>tables = Map.empty, indexes = Map.empty\<rparr>"

theorem migration_matches_models_witness:
  "\<exists>sc'. upgrade empty_schema = Inr sc' \<and> create_all empty_schema = Inr sc' \<and> tables sc' ''send_log'' = Some (model_table SendLogEntry)"
proof -
  have u: "unused empty_schema" by (simp add: unused_def empty_schema_def)
  have "SendLogEntry \<in> set metadata" "tablename SendLogEntry = ''send_log''" by code_simp+
  then show ?thesis using migration_matches_models [OF u] by metis
qed

text \<open>The migration can be undone. Downgrading after an upgrade succeeds and gives back the
  database as it was, with every table and index of other programs.\<close>

theorem downgrade_undoes_upgrade:
  assumes "unused sc" "upgrade sc = Inr sc'"
  shows "downgrade sc' = Inr sc"
proof -
  let ?sc = "\<lparr>tables = tables sc ++ map_of (new_tables all_ops), indexes = indexes sc ++ map_of (new_indexes all_ops)\<rparr>"
  have "run_ops all_ops sc = Inr ?sc" using created_same [of all_ops sc] creations assms by (simp add: list_all_iff)
  then have sc': "sc' = ?sc" using assms upgrade_run by simp
  have dom: "n \<in> set table_names \<longleftrightarrow> map_of (new_tables all_ops) n \<noteq> None"
    "ix \<in> set index_names \<longleftrightarrow> map_of (new_indexes all_ops) ix \<noteq> None" for n ix
    using creations(5,6) by (metis map_of_eq_None_iff set_map)+
  have D: "Drop_table n \<in> set downgrade_ops \<longleftrightarrow> n \<in> set table_names" "Drop_index ix \<in> set downgrade_ops \<longleftrightarrow> ix \<in> set index_names" for n ix
    using drops_down(3-5) by (fastforce simp: list_all_iff)+
  have ix: "indexes ?sc i = map_of (new_indexes all_ops) i" if "i \<in> set index_names" for i
    using that dom(2) by (auto simp: map_add_def split: option.splits)
  have run: "run_ops downgrade_ops ?sc = Inr \<lparr>tables = (\<lambda>n. if Drop_table n \<in> set downgrade_ops then None else tables ?sc n),
    indexes = (\<lambda>ix. case indexes ?sc ix of None \<Rightarrow> None
       | Some (t, cols) \<Rightarrow> if Drop_index ix \<in> set downgrade_ops \<or> Drop_table t \<in> set downgrade_ops then None else Some (t, cols))\<rparr>"
  proof (rule run_drops)
    have "drops (\<lambda>ix. map_option fst (indexes ?sc ix)) downgrade_ops =
        drops (\<lambda>ix. map_option fst (map_of (new_indexes all_ops) ix)) downgrade_ops"
      by (rule drops_cong) (simp only: D ix)
    then show "drops (\<lambda>ix. map_option fst (indexes ?sc ix)) downgrade_ops" using drops_down(1) by simp
    show "tables ?sc n \<noteq> None" if "Drop_table n \<in> set downgrade_ops" for n
      using that dom(1) unfolding D by (auto simp: map_add_def split: option.splits)
    show "indexes ?sc i \<noteq> None" if "Drop_index i \<in> set downgrade_ops" for i
      using that dom(2) ix unfolding D by auto
  qed (rule drops_down(2))
  have tab: "(\<lambda>n. if n \<in> set table_names then None else tables ?sc n) = tables sc"
  proof
    show "(if n \<in> set table_names then None else tables ?sc n) = tables sc n" for n
      using assms(1) dom(1) [of n] by (auto simp: unused_def map_add_def split: option.splits)
  qed
  have foreign: "t \<notin> set table_names" if "indexes sc i = Some (t, cols)" for i t cols
    using assms(1) that unfolding unused_def by blast
  have idx: "(case indexes ?sc i of None \<Rightarrow> None
       | Some (t, cols) \<Rightarrow> if i \<in> set index_names \<or> t \<in> set table_names then None else Some (t, cols)) = indexes sc i" for i
  proof (cases "i \<in> set index_names")
    case True
    then show ?thesis using assms(1) by (auto simp: unused_def split: option.splits)
  next
    case False
    then have "map_of (new_indexes all_ops) i = None" using dom(2) [of i] by blast
    then have "indexes ?sc i = indexes sc i" by (simp add: map_add_def)
    then show ?thesis using False foreign [of i] by (auto split: option.splits)
  qed
  show ?thesis using run unfolding D idx tab by (simp add: downgrade_def sc')
qed

theorem downgrade_undoes_upgrade_witness:
  "\<exists>sc'. upgrade empty_schema = Inr sc' \<and> sc' \<noteq> empty_schema \<and> downgrade sc' = Inr empty_schema"
proof -
  have u: "unused empty_schema" by (simp add: unused_def empty_schema_def)
  let ?sc = "\<lparr>tables = Map.empty ++ map_of (new_tables all_ops), indexes = Map.empty ++ map_of (new_indexes all_ops)\<rparr>"
  have up: "upgrade empty_schema = Inr ?sc"
    using created_same [of all_ops empty_schema] upgrade_run [OF u] creations u by (simp add: list_all_iff empty_schema_def)
  have "''accounts'' \<in> fst ` set (new_tables all_ops)"
    using arg_cong [OF creations(5), of set] by (simp add: table_names_value)
  then have "map_of (new_tables all_ops) ''accounts'' \<noteq> None" by (simp add: map_of_eq_None_iff)
  then have "?sc \<noteq> empty_schema" by (auto simp: empty_schema_def dest: fun_cong)
  then show ?thesis using up downgrade_undoes_upgrade [OF u up] by blast
qed

end
