(* ===== verification/Row_Types.thy ===== *)
theory Row_Types
  imports Ingress Web_Api Schema
begin

text \<open>
  Rows against columns: the value that a row of the model stores in each column of its table, and
  when a value fits a column, by type, by \<open>NULL\<close> and by width. SQLite does not enforce the width of a
  \<open>VARCHAR\<close>, other databases do; the program cuts some values to it and leaves others as they came.
\<close>

datatype sql_value = Sql_null | Sql_int int | Sql_time datetime | Sql_text string | Sql_json "string list"

fun has_type :: "sa_type \<Rightarrow> sql_value \<Rightarrow> bool" where
  "has_type Integer v = (case v of Sql_int _ \<Rightarrow> True | _ \<Rightarrow> False)"
| "has_type BigInteger v = (case v of Sql_int _ \<Rightarrow> True | _ \<Rightarrow> False)"
| "has_type Boolean v = (v = Sql_int 0 \<or> v = Sql_int 1)"
| "has_type DateTime v = (case v of Sql_time _ \<Rightarrow> True | _ \<Rightarrow> False)"
| "has_type JSON v = (case v of Sql_json _ \<Rightarrow> True | _ \<Rightarrow> False)"
| "has_type Text v = (case v of Sql_text _ \<Rightarrow> True | _ \<Rightarrow> False)"
| "has_type (VarString _) v = (case v of Sql_text _ \<Rightarrow> True | _ \<Rightarrow> False)"

fun in_width :: "sa_type \<Rightarrow> sql_value \<Rightarrow> bool" where
  "in_width (VarString n) (Sql_text t) = (length t \<le> n)"
| "in_width _ _ = True"

text \<open>The columns in \<open>free\<close> are not held to their width.\<close>

definition value_ok :: "string list \<Rightarrow> column \<Rightarrow> sql_value \<Rightarrow> bool" where
  "value_ok free c v =
     (if v = Sql_null then nullable c
      else has_type (col_type c) v \<and> (col_name c \<in> set free \<or> in_width (col_type c) v))"

definition row_ok :: "string list \<Rightarrow> table_def \<Rightarrow> (string \<times> sql_value) list \<Rightarrow> bool" where
  "row_ok free d row \<longleftrightarrow>
     map fst row = map col_name (columns d) \<and> list_all (\<lambda>(c, v). value_ok free c v) (zip (columns d) (map snd row))"

definition or_null :: "('a \<Rightarrow> sql_value) \<Rightarrow> 'a option \<Rightarrow> sql_value" where
  "or_null f v = (case v of None \<Rightarrow> Sql_null | Some x \<Rightarrow> f x)"

definition message_values :: "message \<Rightarrow> (string \<times> sql_value) list" where
  "message_values m = [
     (''id'', Sql_int (msg_id m)), (''received_at'', Sql_time (received_at m)),
     (''submitting_account'', or_null Sql_text (submitting_account m)), (''from_addr'', Sql_text (from_addr m)),
     (''rcpt_to'', Sql_json (rcpt_to m)), (''subject'', or_null Sql_text (subject m)),
     (''message_id_header'', or_null Sql_text (message_id_header m)), (''size'', Sql_int (msg_size m)),
     (''spool_path'', Sql_text (spool_path m)), (''status'', Sql_text (status_value (status m))),
     (''attempts'', Sql_int (attempts m)), (''next_attempt_at'', Sql_time (next_attempt_at m)),
     (''last_error'', or_null Sql_text (last_error m)), (''provider_used'', or_null Sql_text (provider_used m)),
     (''sent_at'', or_null Sql_time (sent_at m)), (''claimed_at'', or_null Sql_time (claimed_at m))]"

definition attempt_values :: "delivery_attempt \<Rightarrow> (string \<times> sql_value) list" where
  "attempt_values a = [
     (''id'', Sql_int (att_id a)), (''message_id'', Sql_int (att_message_id a)), (''attempt_no'', Sql_int (attempt_no a)),
     (''provider'', or_null Sql_text (att_provider a)), (''started_at'', Sql_time (started_at a)),
     (''finished_at'', or_null Sql_time (finished_at a)), (''result'', Sql_text (classification_value (att_result a))),
     (''smtp_code'', or_null Sql_int (smtp_code a)), (''error'', or_null Sql_text (att_error a))]"

definition unbounded_columns :: "string list" where
  "unbounded_columns = [''from_addr'', ''submitting_account'', ''spool_path'', ''provider_used'', ''provider'']"

definition short_headers :: "message \<Rightarrow> bool" where
  "short_headers m \<longleftrightarrow> (\<forall>t \<in> set_option (subject m) \<union> set_option (message_id_header m). length t \<le> 512)"

text \<open>Every row of the two tables of the mail path.\<close>

definition rows_fit :: "world \<Rightarrow> bool" where
  "rows_fit w \<longleftrightarrow>
     (\<forall>m \<in> set (messages (db w)). row_ok unbounded_columns (model_table Message) (message_values m)) \<and>
     (\<forall>a \<in> set (delivery_attempts (db w)). row_ok unbounded_columns (model_table DeliveryAttempt) (attempt_values a))"

section \<open>Lemmas\<close>

lemma columns_of_table: "columns (table cs pk us fks) = cs"
  by (simp add: table_def)

lemmas model_columns = model_table_def columns_of_table mcol_def opt_def pkey_def indexed_def unique_def column_def

lemma or_null_Null: "(\<And>x. f x \<noteq> Sql_null) \<Longrightarrow> or_null f v = Sql_null \<longleftrightarrow> v = None"
  by (simp add: or_null_def split: option.split)

lemma status_width: "length (status_value st) \<le> 16"
  by (cases st) (simp_all add: status_value_def)

lemma classification_width: "length (classification_value r) \<le> 16"
  by (cases r) (simp_all add: classification_value_def)

lemma message_row_ok: "row_ok unbounded_columns (model_table Message) (message_values m) \<longleftrightarrow> short_headers m"
  using status_width [of "status m"]
  by (auto simp: row_ok_def model_columns Message_def message_values_def value_ok_def unbounded_columns_def short_headers_def
      or_null_def split: option.splits)

lemma attempt_row_ok: "row_ok unbounded_columns (model_table DeliveryAttempt) (attempt_values a)"
  using classification_width [of "att_result a"]
  by (auto simp: row_ok_def model_columns DeliveryAttempt_def attempt_values_def value_ok_def unbounded_columns_def
      or_null_def split: option.splits)

lemma rows_fit_headers: "rows_fit w \<longleftrightarrow> (\<forall>m \<in> set (messages (db w)). short_headers m)"
  by (simp add: rows_fit_def message_row_ok attempt_row_ok)

lemma header_or_none_width: "header_or_none x body name = Some t \<Longrightarrow> length t \<le> 512"
  by (auto simp: header_or_none_def header_text_def none_if_empty_def split: option.splits header_value.splits if_splits)

lemma accepted_short: "short_headers (accepted_row e x s ses env w)"
  using header_or_none_width
  by (force simp: short_headers_def accepted_row_def new_message_def)

end
