(* ===== verification/System.thy ===== *)
theory System
  imports Sessions Admin Pages Row_Types
begin

text \<open>
  The whole process (\<open>Application\<close> in \<open>src/smtp_switch/main.py\<close>): the dispatcher's tasks, the SMTP
  sessions, the API and the command line tool act on one database, one spool and one queue, in any
  order. A step is one turn of one of them. The state is the ingress side of \<open>Sessions\<close>, which holds
  the world, and the ids the producer has in its hands.
\<close>

section \<open>The transition system\<close>

record system =
  front_of :: front
  pending :: "int list"

abbreviation world_of :: "system \<Rightarrow> world" where
  "world_of g \<equiv> front_world (front_of g)"

definition put_world :: "world \<Rightarrow> system \<Rightarrow> system" where
  "put_world w g = g\<lparr>front_of := (front_of g)\<lparr>front_world := w\<rparr>\<rparr>"

text \<open>\<open>Application.start\<close> after a crash or a stop: the connections and the scheduled tasks of the old
  process are gone, the ingress server reads the accounts anew.\<close>

definition restart_app :: "system \<Rightarrow> system" where
  "restart_app g = \<lparr>front_of = (front_of g)\<lparr>conns := (\<lambda>_. fresh_conn No_peer),
       acct_store := store_refresh (app_start (world_of g)) empty_store, front_world := app_start (world_of g)\<rparr>,
     pending = []\<rparr>"

text \<open>A request for a page or to the API sees the world and the account snapshot of the ingress server.\<close>

definition web_step ::
  "'e env_scheme \<Rightarrow> web_env \<Rightarrow> crypto \<Rightarrow> query_env \<Rightarrow> page_env \<Rightarrow> settings \<Rightarrow> string option \<Rightarrow> site_request \<Rightarrow> system \<Rightarrow>
   site_response \<times> system" where
  "web_step e y c qe pe s cookie req g =
     (let (r, ws) = create_app e y c qe pe s cookie req \<lparr>web_world = world_of g, ingress_accounts = Some (acct_store (front_of g))\<rparr>
      in (r, (put_world (web_world ws) g)\<lparr>front_of := (front_of (put_world (web_world ws) g))
               \<lparr>acct_store := (case ingress_accounts ws of Some st \<Rightarrow> st | None \<Rightarrow> acct_store (front_of g))\<rparr>\<rparr>))"

text \<open>The guard of \<open>smtp\<close> is the promise of \<open>uuid4\<close>: the name of the next spool file is new.\<close>

inductive system_step ::
  "'e relay_env_scheme \<Rightarrow> mail_env \<Rightarrow> web_env \<Rightarrow> cli_env \<Rightarrow> crypto \<Rightarrow> (string \<Rightarrow> string) \<Rightarrow> query_env \<Rightarrow> settings \<Rightarrow>
   ip_net list \<Rightarrow> (message list \<Rightarrow> message list) \<Rightarrow> system \<Rightarrow> system \<Rightarrow> bool"
  for e x y z c utf8 qe s networks scan where
  claim: "pending g = [] \<Longrightarrow> producer_claim e s (world_of g) = (w, claimed) \<Longrightarrow>
    system_step e x y z c utf8 qe s networks scan g ((put_world w g)\<lparr>pending := claimed\<rparr>)"
| put: "pending g = mid # rest \<Longrightarrow> int (length (queue (world_of g))) < queue_maxsize s \<Longrightarrow>
    system_step e x y z c utf8 qe s networks scan g ((put_world (producer_put mid (world_of g)) g)\<lparr>pending := rest\<rparr>)"
| consume: "system_step e x y z c utf8 qe s networks scan g (put_world (consumer_turn e s (world_of g)) g)"
| housekeep: "system_step e x y z c utf8 qe s networks scan g (put_world (housekeeping_turn e s scan ga (world_of g)) g)"
| wait: "system_step e x y z c utf8 qe s networks scan g (put_world ((world_of g)\<lparr>tick := Suc (tick (world_of g))\<rparr>) g)"
| restart: "system_step e x y z c utf8 qe s networks scan g (restart_app g)"
| smtp: "session_step e x c utf8 s networks (front_of g) f \<Longrightarrow>
    spool (world_of g) (data_path e x s (world_of g)) = None \<Longrightarrow>
    system_step e x y z c utf8 qe s networks scan g (g\<lparr>front_of := f\<rparr>)"
| web: "system_step e x y z c utf8 qe s networks scan g (snd (web_step e y c qe pe s cookie req g))"
| admin: "system_step e x y z c utf8 qe s networks scan g (put_world (snd (run_command e z c cmd (world_of g))) g)"

section \<open>What a step does to the messages\<close>

text \<open>Every row continues a row from before, with the same columns of the submission and the same body.\<close>

definition inherits :: "world \<Rightarrow> world \<Rightarrow> bool" where
  "inherits w w' \<longleftrightarrow> (\<forall>m' \<in> set (messages (db w')). \<exists>m \<in> set (messages (db w)).
     payload m' = payload m \<and> spool w' (spool_path m') = spool w (spool_path m'))"

text \<open>Steps that touch neither the messages nor the log, the spool, the queue or the slots.\<close>

definition quiet :: "world \<Rightarrow> world \<Rightarrow> bool" where
  "quiet w w' \<longleftrightarrow>
     messages (db w') = messages (db w) \<and> delivery_attempts (db w') = delivery_attempts (db w) \<and>
     spool w' = spool w \<and> queue w' = queue w \<and> inflight w' = inflight w \<and> (capacity_ok w \<longrightarrow> capacity_ok w')"

lemma inherits_refl [simp]: "inherits w w"
  by (auto simp: inherits_def)

lemma payload_spool_path: "payload m = payload n \<Longrightarrow> spool_path m = spool_path n"
  by (simp add: payload_def)

lemma inherits_trans:
  assumes "inherits u v" "inherits v w"
  shows "inherits u w"
  unfolding inherits_def
proof
  fix m assume "m \<in> set (messages (db w))"
  then obtain n where n: "n \<in> set (messages (db v))" "payload m = payload n" "spool w (spool_path m) = spool v (spool_path m)"
    using assms(2) unfolding inherits_def by blast
  then obtain k where "k \<in> set (messages (db u))" "payload n = payload k" "spool v (spool_path n) = spool u (spool_path n)"
    using assms(1) unfolding inherits_def by blast
  then show "\<exists>k \<in> set (messages (db u)). payload m = payload k \<and> spool w (spool_path m) = spool u (spool_path m)"
    using n(2,3) payload_spool_path [OF n(2)] by auto
qed

lemma inherits_payload:
  assumes "map payload (messages (db w')) = map payload (messages (db w))" "spool w' = spool w"
  shows "inherits w w'"
  unfolding inherits_def
proof
  fix m assume "m \<in> set (messages (db w'))"
  then have "payload m \<in> set (map payload (messages (db w)))" unfolding assms(1) [symmetric] by simp
  then show "\<exists>n \<in> set (messages (db w)). payload m = payload n \<and> spool w' (spool_path m) = spool w (spool_path m)"
    using assms(2) by auto
qed

lemma inherits_removed:
  assumes R: "removed ids w w'" and b: "bodies_ok w"
  shows "inherits w w'"
  unfolding inherits_def
proof
  fix m assume m: "m \<in> set (messages (db w'))"
  then have "m \<in> set (messages (db w))" "msg_id m \<notin> ids" using R by (auto simp: removed_def delete_where_def)
  moreover from this have "spool_path m \<notin> spool_path ` {m \<in> set (messages (db w)). msg_id m \<in> ids}"
    using b by (auto simp: bodies_ok_def distinct_map inj_on_def)
  ultimately show "\<exists>n \<in> set (messages (db w)). payload m = payload n \<and> spool w' (spool_path m) = spool w (spool_path m)"
    using R by (auto simp: removed_def)
qed

lemma quiet_refl [simp]: "quiet w w"
  by (simp add: quiet_def)

lemma quiet_trans: "quiet u v \<Longrightarrow> quiet v w \<Longrightarrow> quiet u w"
  by (simp add: quiet_def)

lemma quiet_inherits: "quiet w w' \<Longrightarrow> inherits w w'"
  by (rule inherits_payload) (simp_all add: quiet_def)

lemma quiet_kept: "quiet w w' \<Longrightarrow> dispatcher_at f s (w, pend) \<Longrightarrow> kept_at f s (w, pend) (w', pend)"
  by (rule dispatcher_ok_same) (simp_all add: quiet_def dispatcher_at_def)

lemma quiet_ok: "quiet w w' \<Longrightarrow> dispatcher_ok s (w, pend) \<Longrightarrow> dispatcher_ok s (w', pend)"
  using quiet_kept [of w w' "\<lambda>_. 0" s pend] by (simp add: kept_def)

lemma quiet_view: "view_eq w w' \<Longrightarrow> quiet w w'"
  using view_eq_capacity_ok [of w w'] by (simp add: quiet_def view_eq_def route_frame_def)

lemma quiet_tick [simp]: "quiet w (w\<lparr>tick := n\<rparr>)"
  using capacity_ok_same [of "w\<lparr>tick := n\<rparr>" w] by (simp add: quiet_def)

lemma quiet_account: "account_frame w w' \<Longrightarrow> quiet w w'"
  by (auto simp: quiet_def account_frame_def capacity_ok_def quota_nonneg_def quota_of_def)

lemma quiet_admin: "admin_frame w w' \<Longrightarrow> quiet w w'"
  by (auto simp: quiet_def admin_frame_def capacity_ok_def quota_nonneg_def quota_of_def)

lemma quiet_breaker: "breaker_frame w w' \<Longrightarrow> quiet w w'"
  using breaker_capacity_ok [of w w'] breaker_frame_db [of w w'] breaker_frame_fields [of w w'] by (simp add: quiet_def)

section \<open>The dispatcher\<close>

lemma turn_payload:
  assumes ok: "dispatcher_ok s (w, pend)" and s: "valid_settings s" and e: "smtp_only e"
  shows "map payload (messages (db (consumer_turn e s w))) = map payload (messages (db w)) \<and>
    spool (consumer_turn e s w) = spool w \<and> accounts (db (consumer_turn e s w)) = accounts (db w)"
proof (cases "queue w")
  case (Cons mid rest)
  let ?w0 = "w\<lparr>queue := rest\<rparr>"
  have c0: "capacity_ok ?w0" using ok by (simp add: dispatcher_ok_def capacity_ok_def quota_nonneg_def)
  show ?thesis
  proof (cases "\<exists>m. msg_of ?w0 mid = Some m \<and> \<not> is_terminal (status m)")
    case True
    then obtain m where m: "msg_of ?w0 mid = Some m" "\<not> is_terminal (status m)" by blast
    obtain w' m' new where P: "process e s mid ?w0 = (Inr (), w')" "row_changed mid ?w0 m m' w'"
      "row_outcome e s ?w0 m new m'" "attempts_made s mid (attempts m + 1) {} ?w0 new w'"
      "int (length new) \<le> failover_per_tick (dispatch s)"
      using s e c0 m by (rule process_effect)
    then show ?thesis using Cons by (simp add: consumer_turn_def attempts_made_def work_frame_def row_changed_def)
  next
    case False
    then have "process e s mid ?w0 = (Inr (), ?w0)" by (auto simp: process_def split: option.splits)
    then show ?thesis using Cons by (simp add: consumer_turn_def)
  qed
qed (simp add: consumer_turn_def)

lemma spool_deletes_accounts: "accounts (db (fold (\<lambda>m. spool_delete (spool_path m)) rows w)) = accounts (db w)"
  by (induction rows arbitrary: w) (auto simp: spool_delete_def)

lemma sweep_one_accounts: "accounts (db (snd (sweep_one scan plan nw))) = accounts (db (snd nw))"
  by (cases plan; cases nw) (auto simp: sweep_one_def Let_def spool_deletes_accounts)

lemma sweep_accounts: "accounts (db (snd (retention_sweep e s scan w))) = accounts (db w)"
proof -
  have "accounts (db (snd (fold (sweep_one scan) plans nw))) = accounts (db (snd nw))" for plans nw
    by (induction plans arbitrary: nw) (simp_all add: sweep_one_accounts)
  then show ?thesis by (simp add: retention_sweep_def utcnow_def)
qed

lemma housekeeping_inherits:
  assumes ok: "dispatcher_at f s (w, pend)" and "scans scan"
  shows "inherits w (housekeeping_turn e s scan g w) \<and> accounts (db (housekeeping_turn e s scan g w)) = accounts (db w)"
proof -
  let ?w1 = "snd (prune e s w)"
  let ?w2 = "snd (refresh_gauges e s g ?w1)"
  note F = limiter_frame_fields [OF prune_limiter_frame [of w e s]]
  have v: "view_eq ?w1 ?w2" by (simp add: refresh_gauges_def provider_gauges_view)
  have 1: "dispatcher_at f s (?w1, pend)" using prune_ok [OF ok, of e] by (simp add: kept_at_def)
  have "dispatcher_at f s (?w2, pend)" using view_ok [OF 1 v] by (simp add: kept_at_def)
  then have b2: "db_keys (db ?w2)" "bodies_ok ?w2" by (simp_all add: dispatcher_at_def)
  obtain ids where "removed ids ?w2 (snd (retention_sweep e s scan ?w2))"
    using sweep_removes [OF assms(2) b2(1), of e s] by metis
  then have sweep: "inherits ?w2 (snd (retention_sweep e s scan ?w2))" using b2(2) by (rule inherits_removed)
  have "inherits w ?w1" by (rule inherits_payload) (simp_all add: F)
  then have 2: "inherits w ?w2" using quiet_inherits [OF quiet_view [OF v]] by (rule inherits_trans)
  have a: "accounts (db ?w2) = accounts (db w)" using v prune_limiter_frame [of w e s]
    by (simp add: view_eq_def route_frame_def limiter_frame_def)
  from 2 inherits_trans [OF 2 sweep] a show ?thesis
    by (auto simp: housekeeping_turn_def Let_def prod.case_eq_if sweep_accounts split: sum.splits)
qed

lemma claim_inherits:
  "inherits w (fst (producer_claim e s w)) \<and> accounts (db (fst (producer_claim e s w))) = accounts (db w)"
proof -
  have "map payload (messages (db (fst (producer_claim e s w)))) = map payload (messages (db w)) \<and>
      spool (fst (producer_claim e s w)) = spool w \<and> accounts (db (fst (producer_claim e s w))) = accounts (db w)"
    by (auto simp: producer_claim_def claim_batch_unfold update_where_def payload_def)
  then show ?thesis using inherits_payload by blast
qed

lemma start_inherits: "inherits w (app_start w) \<and> accounts (db (app_start w)) = accounts (db w)"
proof -
  have "map payload (messages (db (app_start w))) = map payload (messages (db w)) \<and>
      spool (app_start w) = spool w \<and> accounts (db (app_start w)) = accounts (db w)"
    by (simp add: app_start_def Let_def fresh_process_def recover_orphans_def load_def refresh_overrides_def update_where_def
        payload_def)
  then show ?thesis using inherits_payload by blast
qed

section \<open>The API\<close>

text \<open>What a request does to the world: nothing to the messages; or new columns for one settled message;
  or the removal of one of the messages \<open>ids\<close> with its log and file.\<close>

fun deletes :: "request \<Rightarrow> int set" where
  "deletes (Delete_message i) = {i}"
| "deletes _ = {}"

definition requeues :: "int \<Rightarrow> datetime \<Rightarrow> world \<Rightarrow> world \<Rightarrow> bool" where
  "requeues mid now w w' \<longleftrightarrow> (\<exists>m. msg_of w mid = Some m \<and> is_terminal (status m)) \<and>
     messages (db w') = update_where (\<lambda>m. msg_id m = mid) (requeued now) (messages (db w)) \<and>
     delivery_attempts (db w') = delivery_attempts (db w) \<and> spool w' = spool w \<and> queue w' = queue w \<and>
     inflight w' = inflight w \<and> (capacity_ok w \<longrightarrow> capacity_ok w')"

definition api_effect :: "int set \<Rightarrow> world \<Rightarrow> world \<Rightarrow> bool" where
  "api_effect ids w w' \<longleftrightarrow> quiet w w' \<or> (\<exists>mid now. requeues mid now w w') \<or> (\<exists>mid \<in> ids. removed {mid} w w' \<and> queue w' = queue w)"

lemma api_effect_tick: "api_effect ids (w\<lparr>tick := n\<rparr>) w' \<Longrightarrow> api_effect ids w w'"
  using capacity_ok_same [of "w\<lparr>tick := n\<rparr>" w] by (auto simp: api_effect_def quiet_def requeues_def removed_def msg_of_def)

lemma quiet_effect: "quiet w w' \<Longrightarrow> api_effect ids w w'"
  by (simp add: api_effect_def)

lemma requeue_effect: "api_effect ids w (snd (requeue e mid w))"
proof (cases "\<exists>m. msg_of w mid = Some m \<and> status m \<in> {DEADLETTER, SENT}")
  case True
  then have "requeues mid (clock e (tick w)) w (snd (requeue e mid w))"
    by (auto simp: requeues_def requeue_def utcnow_def Let_def notify_new_message_def capacity_ok_def quota_nonneg_def quota_of_def is_terminal_def)
  then show ?thesis unfolding api_effect_def by blast
next
  case False
  then have "snd (requeue e mid w) = w" by (auto simp: requeue_def split: option.splits)
  then show ?thesis by (simp add: api_effect_def)
qed

lemma delete_effect:
  assumes "db_keys (db w)"
  shows "api_effect {mid} w (snd (delete_message mid w))"
proof (cases "msg_of w mid")
  case None
  then show ?thesis by (simp add: api_effect_def delete_message_def)
next
  case (Some m)
  let ?w' = "snd (delete_message mid w)"
  have m: "m \<in> set (messages (db w))" "msg_id m = mid" using msg_of_SomeD [OF Some] by simp_all
  have one: "{n \<in> set (messages (db w)). msg_id n = mid} = {m}"
    using m assms by (auto simp: db_keys_def distinct_map inj_on_def)
  have "spool ?w' = (spool w)(spool_path m := None)"
    using Some by (simp add: delete_message_def spool_delete_def)
  then have "removed {mid} w ?w'" unfolding removed_def
    using Some m one by (auto simp: delete_message_def spool_delete_def delete_where_def)
  moreover have "queue ?w' = queue w" using Some by (simp add: delete_message_def spool_delete_def)
  ultimately show ?thesis unfolding api_effect_def by blast
qed

lemma set_enabled_quiet:
  "quiet w (snd (set_enabled e s name en nt w)) \<and> accounts (db (snd (set_enabled e s name en nt w))) = accounts (db w)"
  by (auto simp: set_enabled_def utcnow_def Let_def quiet_def capacity_ok_def quota_nonneg_def quota_of_def)

lemma set_provider_enabled_world: "snd (set_provider_enabled e s name en user w) = snd (set_enabled e s name (Some en) (Some (''set by '' @ user)) w)"
  by (auto simp: set_provider_enabled_def split: prod.splits sum.splits exn.splits)

lemma record_success_quiet: "quiet w (record_success e p w) \<and> accounts (db (record_success e p w)) = accounts (db w)"
  using quiet_breaker [OF record_success_breaker_frame] breaker_frame_db(5) [OF record_success_breaker_frame] by blast

lemma overview_quiet:
  "quiet (web_world ws) (web_world (snd (overview e x s ws))) \<and>
   accounts (db (web_world (snd (overview e x s ws)))) = accounts (db (web_world ws))"
proof -
  let ?w = "web_world ws"
  let ?w1 = "snd (throughput e 60 ?w)"
  let ?w2 = "snd (provider_overview e s (breaker_names x (states ?w1)) ?w1)"
  have v: "view_eq ?w ?w2" by (rule view_eq_trans [OF throughput_view_eq provider_overview_view])
  have "web_world (snd (overview e x s ws)) = ?w2"
    by (auto simp: overview_def Let_def prod.case_eq_if split: sum.splits)
  then show ?thesis using quiet_view [OF v] v by (simp add: view_eq_def route_frame_def)
qed

lemma acct_table_same: "accounts (db w') = accounts (db w) \<Longrightarrow> acct_table_ok w \<Longrightarrow> acct_table_ok w'"
  by (simp add: acct_table_ok_def)

lemma answer_world [simp]: "web_world (snd (answer f r ws)) = snd r"
  by (simp add: answer_def)

lemma account_answer_world [simp]: "web_world (snd (account_answer f r ws)) = snd r"
  by (simp add: account_answer_def refresh_accounts_def split: sum.splits)

lemma endpoint_effect:
  assumes k: "db_keys (db (web_world ws))" and t: "acct_table_ok (web_world ws)"
  shows "api_effect (deletes req) (web_world ws) (web_world (snd (endpoint e y c qe s user req ws))) \<and>
    acct_table_ok (web_world (snd (endpoint e y c qe s user req ws)))"
proof -
  let ?w = "web_world ws"
  let ?E = "api_effect (deletes req) ?w"
  have same: "?E ?w \<and> acct_table_ok ?w" using t by (simp add: quiet_effect)
  have acct: "?E w' \<and> acct_table_ok w'" if "account_frame ?w w' \<and> acct_table_ok w'" for w'
    using that quiet_effect [OF quiet_account] by blast
  have quiet: "?E w' \<and> acct_table_ok w'" if "quiet ?w w' \<and> accounts (db w') = accounts (db ?w)" for w'
    using that quiet_effect acct_table_same [OF _ t] by blast
  have rq: "accounts (db (snd (requeue e i ?w))) = accounts (db ?w)" for i
    by (auto simp: requeue_def utcnow_def notify_new_message_def split: option.splits)
  have dl: "accounts (db (snd (delete_message i ?w))) = accounts (db ?w)" for i
    by (auto simp: delete_message_def spool_delete_def split: option.splits)
  have rb: "quiet ?w (snd (reset_breaker e s n ?w)) \<and> accounts (db (snd (reset_breaker e s n ?w))) = accounts (db ?w)" for n
    using record_success_quiet [where w = ?w and e = e and p = n] by (simp add: reset_breaker_def)
  show ?thesis
  proof (cases req)
    case (Requeue i)
    then show ?thesis using requeue_effect acct_table_same [OF rq t] by simp
  next
    case (Delete_message i)
    then show ?thesis using delete_effect [OF k] acct_table_same [OF dl t] by simp
  next
    case (Enable_provider n)
    then show ?thesis using quiet [OF set_enabled_quiet] by (simp add: set_provider_enabled_world)
  next
    case (Disable_provider n)
    then show ?thesis using quiet [OF set_enabled_quiet] by (simp add: set_provider_enabled_world)
  next
    case (Reset_breaker n)
    then show ?thesis using quiet [OF rb] by simp
  next
    case (Create_account u p d)
    then show ?thesis using acct [OF create_account_effect [OF t]] by simp
  next
    case (Reset_account_password i p)
    then show ?thesis using acct [OF reset_account_password_effect [OF t]] by simp
  next
    case (Toggle_account i)
    then show ?thesis using acct [OF toggle_account_effect [OF t]] by simp
  next
    case (Delete_account i)
    then show ?thesis using acct [OF delete_account_effect [OF t]] by simp
  next
    case Overview
    then show ?thesis using quiet [OF overview_quiet] by simp
  qed (use same in simp_all)
qed

lemma login_world: "\<exists>n. web_world (snd (login e y c s u p ws)) = (web_world ws)\<lparr>tick := n\<rparr>"
proof -
  have "web_world (snd (login e y c s u p ws)) = (web_world ws)\<lparr>tick := tick (web_world ws)\<rparr> \<or>
      web_world (snd (login e y c s u p ws)) = (web_world ws)\<lparr>tick := Suc (tick (web_world ws))\<rparr>"
    by (simp add: login_def session_issue_def utcnow_def Let_def split: sum.splits option.splits)
  then show ?thesis by blast
qed

lemma api_world:
  assumes k: "db_keys (db (web_world ws))" and t: "acct_table_ok (web_world ws)"
  shows "api_effect (deletes req) (web_world ws) (web_world (snd (api e y c qe s cookie req ws))) \<and>
    acct_table_ok (web_world (snd (api e y c qe s cookie req ws)))"
proof -
  have ticked: "api_effect (deletes req) (web_world ws) ((web_world ws)\<lparr>tick := n\<rparr>) \<and> acct_table_ok ((web_world ws)\<lparr>tick := n\<rparr>)" for n
    using t quiet_effect [OF quiet_tick] by simp
  have same: "api_effect (deletes req) (web_world ws) (web_world ws) \<and> acct_table_ok (web_world ws)" using t quiet_effect by simp
  have guarded: ?thesis if g: "api e y c qe s cookie req ws =
      (case require_user e y (web s) cookie (web_world ws) of
               (Inl err, w) \<Rightarrow> (Error err, ws\<lparr>web_world := w\<rparr>)
             | (Inr user, w) \<Rightarrow> endpoint e y c qe s user req (ws\<lparr>web_world := w\<rparr>))"
  proof -
    obtain r n where r: "require_user e y (web s) cookie (web_world ws) = (r, (web_world ws)\<lparr>tick := n\<rparr>)"
      using require_user_tick [of e y "web s" cookie "web_world ws"] by (metis prod.collapse)
    show ?thesis
    proof (cases r)
      case (Inl err)
      then show ?thesis using ticked by (simp add: g r)
    next
      case (Inr user)
      let ?ws = "ws\<lparr>web_world := (web_world ws)\<lparr>tick := n\<rparr>\<rparr>"
      have "api_effect (deletes req) (web_world ?ws) (web_world (snd (endpoint e y c qe s user req ?ws))) \<and>
          acct_table_ok (web_world (snd (endpoint e y c qe s user req ?ws)))"
        by (rule endpoint_effect) (use k t in simp_all)
      then have A: "api_effect (deletes req) ((web_world ws)\<lparr>tick := n\<rparr>) (web_world (snd (endpoint e y c qe s user req ?ws)))"
        "acct_table_ok (web_world (snd (endpoint e y c qe s user req ?ws)))" by simp_all
      from api_effect_tick [OF A(1)] A(2) show ?thesis by (simp add: g r Inr)
    qed
  qed
  consider u p where "req = Login u p" | "req = Logout" | "api e y c qe s cookie req ws =
      (case require_user e y (web s) cookie (web_world ws) of
               (Inl err, w) \<Rightarrow> (Error err, ws\<lparr>web_world := w\<rparr>)
             | (Inr user, w) \<Rightarrow> endpoint e y c qe s user req (ws\<lparr>web_world := w\<rparr>))"
    by (cases req) (hypsubst, simp add: api_def)+
  then show ?thesis
  proof cases
    case 1
    then show ?thesis using ticked login_world [of e y c s u p ws] by (auto simp: api_def)
  next
    case 2
    then show ?thesis using same by (simp add: api_def)
  next
    case 3
    then show ?thesis by (rule guarded)
  qed
qed

section \<open>The sessions\<close>

text \<open>A session either leaves the messages alone or adds the one it has just accepted.\<close>

fun site_deletes :: "site_request \<Rightarrow> int set" where
  "site_deletes (Api r) = deletes r"
| "site_deletes _ = {}"

lemma site_world:
  assumes "db_keys (db (web_world ws))" "acct_table_ok (web_world ws)"
  shows "api_effect (site_deletes req) (web_world ws) (web_world (snd (create_app e y c qe pe s cookie req ws))) \<and>
    acct_table_ok (web_world (snd (create_app e y c qe pe s cookie req ws)))"
proof (cases "\<exists>r. req = Api r")
  case True
  then obtain r where "req = Api r" by blast
  then show ?thesis using api_world [OF assms, of r e y c qe s cookie] by (simp add: create_app_api)
next
  case False
  then have v: "view_eq (web_world ws) (web_world (snd (create_app e y c qe pe s cookie req ws)))"
    using page_reads_only by blast
  then show ?thesis using quiet_effect [OF quiet_view [OF v]] acct_table_same [OF _ assms(2)]
    by (simp add: view_eq_def route_frame_def)
qed

lemma data_reply:
  assumes "data_accepted x s env w"
  shows "is_250 (fst (handle_DATA e x s n ses env w))"
  by (simp add: data_accept [OF assms] is_250_def)

lemma data_no_reply:
  assumes "\<not> data_accepted x s env w" "spool w (data_path e x s w) = None"
  shows "\<not> is_250 (fst (handle_DATA e x s n ses env w))"
proof
  assume "is_250 (fst (handle_DATA e x s n ses env w))"
  then obtain reply where r: "fst (handle_DATA e x s n ses env w) = Inr reply" "take 3 reply = ''250''"
    by (auto simp: is_250_def split: sum.splits)
  then have "reply = ''250'' @ drop 3 reply" by (metis append_take_drop_id)
  then show False using data_refuse(2) [OF assms, of n ses] r(1) by metis
qed

lemma session_effect:
  assumes "session_step e x c utf8 s networks f f'" "spool (front_world f) (data_path e x s (front_world f)) = None"
  shows "(quiet (front_world f) (front_world f') \<and> (acct_table_ok (front_world f) \<longrightarrow> acct_table_ok (front_world f')) \<and>
      accepted f' = accepted f) \<or>
    (\<exists>i env. rcpt_tos env = rcpt_tos (conn_envelope (conns f i)) \<and> data_accepted x s env (front_world f) \<and>
      front_world f' = notify_new_message (stored_world e x s (conn_session (conns f i)) env (front_world f)) \<and>
      accepted f' = submission_of (conn_session (conns f i)) env # accepted f \<and> logins f' = logins f)"
  using assms(1)
proof cases
  case (auth i ad)
  then show ?thesis by (auto simp: on_AUTH_def set_conn_def split: prod.splits sum.splits)
next
  case (data i body)
  let ?ses = "conn_session (conns f i)" and ?env = "with_body body (conn_envelope (conns f i))"
  let ?run = "handle_DATA e x s (Some notify_new_message) ?ses ?env (front_world f)"
  show ?thesis
  proof (cases "data_accepted x s ?env (front_world f)")
    case True
    have "fst ?run = fst ?run" "snd ?run = notify_new_message (stored_world e x s ?ses ?env (front_world f))"
      by (simp_all add: data_accept [OF True])
    then have "front_world f' = notify_new_message (stored_world e x s ?ses ?env (front_world f)) \<and>
        accepted f' = submission_of ?ses ?env # accepted f \<and> logins f' = logins f"
      using data_reply [OF True, of e "Some notify_new_message" ?ses]
      by (simp add: data on_DATA_def Let_def prod.case_eq_if set_conn_def)
    then show ?thesis using True by (intro disjI2 exI [of _ i] exI [of _ ?env]) (simp add: with_body_def)
  next
    case False
    obtain n where "snd ?run = (front_world f)\<lparr>tick := tick (front_world f) + n\<rparr>"
      using data_refuse(1) [OF False assms(2)] by blast
    moreover have "\<not> is_250 (fst ?run)" by (rule data_no_reply [OF False assms(2)])
    ultimately show ?thesis by (simp add: data on_DATA_def Let_def prod.case_eq_if set_conn_def)
  qed
next
  case (touch st w)
  then have "account_frame (front_world f) w \<and> (acct_table_ok (front_world f) \<longrightarrow> acct_table_ok w)"
    using touch_frame touch_table_ok by (auto simp: run_touch_def split: list.splits)
  then show ?thesis using quiet_account by (simp add: touch(1))
qed (simp_all add: on_EHLO_def on_HELO_def on_MAIL_def on_RCPT_def set_conn_def)

section \<open>The invariant\<close>

definition is_submission :: "submission set \<Rightarrow> world \<Rightarrow> message \<Rightarrow> bool" where
  "is_submission subs w m \<longleftrightarrow>
     (\<exists>b. spool w (spool_path m) = Some b \<and> (submitting_account m, from_addr m, rcpt_to m, b) \<in> subs)"

definition all_submitted :: "submission set \<Rightarrow> world \<Rightarrow> bool" where
  "all_submitted subs w \<longleftrightarrow> (\<forall>m \<in> set (messages (db w)). is_submission subs w m)"

text \<open>The parts that do not concern the dispatcher, and all of them between whole turns.\<close>

definition site_ok :: "settings \<Rightarrow> submission set \<Rightarrow> system \<Rightarrow> bool" where
  "site_ok s old g \<longleftrightarrow>
     acct_table_ok (world_of g) \<and> (\<forall>i. conn_ok s (logins (front_of g)) (conns (front_of g) i)) \<and>
     (require_auth (ingress s) \<longrightarrow> (\<forall>sub \<in> set (accepted (front_of g)). fst sub \<in> Some ` set (logins (front_of g)))) \<and>
     all_submitted (old \<union> set (accepted (front_of g))) (world_of g) \<and> rows_fit (world_of g)"

definition system_ok :: "settings \<Rightarrow> submission set \<Rightarrow> system \<Rightarrow> bool" where
  "system_ok s old g \<longleftrightarrow> dispatcher_ok s (world_of g, pending g) \<and> site_ok s old g"

text \<open>A start on a database and a spool that fit together; \<open>old\<close> are the messages that are already there.\<close>

definition system_init :: "submission set \<Rightarrow> system \<Rightarrow> bool" where
  "system_init old g \<longleftrightarrow> (\<exists>v. g = restart_app \<lparr>front_of = \<lparr>conns = (\<lambda>_. fresh_conn No_peer), acct_store = empty_store,
       front_world = v, logins = [], accepted = []\<rparr>, pending = []\<rparr> \<and>
     db_keys (db v) \<and> quota_nonneg v \<and> bodies_ok v \<and> acct_table_ok v \<and> all_submitted old v \<and> rows_fit v)"

lemma inherits_submitted:
  assumes "inherits w w'" "all_submitted subs w"
  shows "all_submitted subs w'"
  unfolding all_submitted_def
proof
  fix m' assume "m' \<in> set (messages (db w'))"
  then obtain m where m: "m \<in> set (messages (db w))" "payload m' = payload m" "spool w' (spool_path m') = spool w (spool_path m')"
    using assms(1) unfolding inherits_def by blast
  then have "is_submission subs w m" using assms(2) by (simp add: all_submitted_def)
  then show "is_submission subs w' m'" using m(2,3) by (simp add: is_submission_def payload_def)
qed

lemma inherits_fit: "inherits w w' \<Longrightarrow> rows_fit w \<Longrightarrow> rows_fit w'"
  unfolding inherits_def rows_fit_headers short_headers_def payload_def by (metis prod.inject)

lemma stored_fit: "rows_fit w \<Longrightarrow> rows_fit (notify_new_message (stored_world e x s ses env w))"
  using accepted_short by (auto simp: rows_fit_headers notify_new_message_def stored_world_def)

lemma put_world_simps [simp]:
  "world_of (put_world w g) = w" "pending (put_world w g) = pending g" "conns (front_of (put_world w g)) = conns (front_of g)"
  "logins (front_of (put_world w g)) = logins (front_of g)" "accepted (front_of (put_world w g)) = accepted (front_of g)"
  "acct_store (front_of (put_world w g)) = acct_store (front_of g)"
  by (simp_all add: put_world_def)

text \<open>Steps that do not concern the connections.\<close>

lemma site_ok_world:
  assumes ok: "site_ok s old g" and t: "acct_table_ok (world_of g')" and i: "inherits (world_of g) (world_of g')"
    and f: "\<And>i. conns (front_of g') i = conns (front_of g) i \<or> (\<exists>p. conns (front_of g') i = fresh_conn p)"
      "logins (front_of g') = logins (front_of g)" "accepted (front_of g') = accepted (front_of g)"
  shows "site_ok s old g'"
proof -
  have "conn_ok s (logins (front_of g')) (conns (front_of g') i)" for i
    using ok f(1) [of i] conn_ok_fresh by (auto simp: site_ok_def f(2))
  then show ?thesis using ok t inherits_submitted [OF i] inherits_fit [OF i] by (simp add: site_ok_def f(2,3))
qed

text \<open>A request keeps the invariant of the dispatcher, and also that it is exact when it deletes no
  message that is being sent.\<close>

lemma requeues_kept:
  assumes r: "requeues mid now w w'" and ok: "dispatcher_at f s (w, pend)"
  shows "kept_at f s (w, pend) (w', pend) \<and> inherits w w'"
proof -
  have p: "map payload (messages (db w')) = map payload (messages (db w))"
    and ids: "map msg_id (messages (db w')) = map msg_id (messages (db w))"
    using r by (simp_all add: requeues_def update_where_def payload_def requeued_def)
  have k: "db_keys (db w')"
    using ok r ids by (simp add: dispatcher_at_def db_keys_def requeues_def capacity_ok_def) (metis set_map)
  have "mid \<notin> sending_ids w"
    using r sending_iff [of w mid] ok by (auto simp: requeues_def dispatcher_at_def is_terminal_def)
  then have "sending_ids w' = sending_ids w"
    using r by (force simp: sending_ids_def requeues_def update_where_def requeued_def)
  moreover have "bodies_ok w'" by (rule bodies_ok_payload [OF _ p]) (use ok r in \<open>simp_all add: dispatcher_at_def requeues_def\<close>)
  moreover have "inherits w w'" by (rule inherits_payload [OF p]) (use r in \<open>simp add: requeues_def\<close>)
  ultimately show ?thesis using ok r k by (simp add: kept_at_def dispatcher_at_def in_hand_def exact_def requeues_def)
qed

lemma removed_exact:
  assumes R: "removed ids w w'" and q: "queue w' = queue w" and n: "ids \<inter> sending_ids w = {}" and ex: "exact (w, pend)"
  shows "exact (w', pend)"
proof -
  have "set (messages (db w')) = {m \<in> set (messages (db w)). msg_id m \<notin> ids}" using R by (simp add: removed_def)
  then have "sending_ids w' = sending_ids w" using n by (auto simp: sending_ids_def)
  then show ?thesis using ex by (simp add: exact_def q)
qed

lemma api_ok:
  assumes eff: "api_effect ids w w'" and ok: "dispatcher_at f s (w, pend)"
  shows "dispatcher_at f s (w', pend) \<and> inherits w w' \<and> (ids \<inter> sending_ids w = {} \<longrightarrow> exact (w, pend) \<longrightarrow> exact (w', pend))"
proof -
  consider (quiet) "quiet w w'" | (requeue) mid now where "requeues mid now w w'"
    | (removed) mid where "mid \<in> ids" "removed {mid} w w'" "queue w' = queue w"
    using eff by (auto simp: api_effect_def)
  then show ?thesis
  proof cases
    case quiet
    then show ?thesis using quiet_kept [OF quiet ok] quiet_inherits by (simp add: kept_at_def)
  next
    case requeue
    then show ?thesis using requeues_kept [OF requeue ok] by (simp add: kept_at_def)
  next
    case removed
    have "inherits w w'" by (rule inherits_removed [OF removed(2)]) (use ok in \<open>simp add: dispatcher_at_def\<close>)
    moreover have "exact (w', pend)" if "ids \<inter> sending_ids w = {}" "exact (w, pend)"
      by (rule removed_exact [OF removed(2,3) _ that(2)]) (use removed(1) that(1) in auto)
    ultimately show ?thesis using removed_ok [OF ok removed(2,3)] by blast
  qed
qed

lemma stored_kept:
  assumes ok: "dispatcher_at f s (w, pend)" and new: "spool w (data_path e x s w) = None"
  shows "kept_at f s (w, pend) (notify_new_message (stored_world e x s ses env w), pend)"
proof -
  let ?w' = "notify_new_message (stored_world e x s ses env w)" and ?row = "accepted_row e x s ses env w"
  have r: "msg_id ?row = next_rowid msg_id (messages (db w))" "spool_path ?row = data_path e x s w" "status ?row = QUEUED"
    by (simp_all add: accepted_row_def new_message_def)
  have m: "messages (db ?w') = messages (db w) @ [?row]" by (simp add: notify_new_message_def stored_world_def)
  have F: "delivery_attempts (db ?w') = delivery_attempts (db w)" "send_log (db ?w') = send_log (db w)"
    "quota (db ?w') = quota (db w)" "queue ?w' = queue w" "inflight ?w' = inflight w"
    "spool ?w' = (spool w)(data_path e x s w \<mapsto> content_bytes env)"
    by (simp_all add: notify_new_message_def stored_world_def)
  have other: "spool_path n \<noteq> data_path e x s w" if "n \<in> set (messages (db w))" for n
    using ok new that by (auto simp: dispatcher_at_def bodies_ok_def)
  have "db_keys (db ?w')" using ok next_rowid_notin [of msg_id "messages (db w)"]
    by (auto simp: dispatcher_at_def db_keys_def m F r)
  moreover have "sending_ids ?w' = sending_ids w" by (auto simp: sending_ids_def m r)
  moreover have "bodies_ok ?w'" using ok other by (fastforce simp: dispatcher_at_def bodies_ok_def m F r)
  moreover have "capacity_ok ?w'"
    using ok slots_nonneg [OF ok] by (simp add: dispatcher_at_def capacity_ok_def quota_nonneg_def quota_of_def F)
  ultimately show ?thesis using ok by (simp add: kept_at_def dispatcher_at_def in_hand_def exact_def F)
qed

lemma stored_table: "acct_table_ok w \<Longrightarrow> acct_table_ok (notify_new_message (stored_world e x s ses env w))"
  by (rule acct_table_same) (simp_all add: notify_new_message_def stored_world_def)

lemma stored_submitted:
  assumes "all_submitted subs w" "spool w (data_path e x s w) = None"
  shows "all_submitted (insert (submission_of ses env) subs) (notify_new_message (stored_world e x s ses env w))"
proof -
  let ?w' = "notify_new_message (stored_world e x s ses env w)"
  have "is_submission (insert (submission_of ses env) subs) ?w' m" if "m \<in> set (messages (db w))" for m
  proof -
    have "is_submission subs w m" using assms(1) that by (simp add: all_submitted_def)
    moreover from this have "spool_path m \<noteq> data_path e x s w" using assms(2) by (auto simp: is_submission_def)
    ultimately show ?thesis unfolding is_submission_def notify_new_message_def stored_world_def by auto
  qed
  moreover have "is_submission (insert (submission_of ses env) subs) ?w' (accepted_row e x s ses env w)"
    by (simp add: is_submission_def notify_new_message_def stored_world_def accepted_row_def new_message_def submission_of_def)
  ultimately show ?thesis by (simp add: all_submitted_def notify_new_message_def stored_world_def)
qed

text \<open>SMTP commands.\<close>

lemma smtp_kept:
  assumes step: "session_step e x c utf8 s networks f f'" and new: "spool (front_world f) (data_path e x s (front_world f)) = None"
    and ok: "dispatcher_at h s (front_world f, pend)"
  shows "kept_at h s (front_world f, pend) (front_world f', pend)"
  using session_effect [OF step new] quiet_kept [OF _ ok] stored_kept [OF ok new] by metis

lemma smtp_site:
  assumes step: "session_step e x c utf8 s networks (front_of g) f" and new: "spool (world_of g) (data_path e x s (world_of g)) = None"
    and ok: "site_ok s old g"
  shows "site_ok s old (g\<lparr>front_of := f\<rparr>)"
proof -
  let ?f = "front_of g" and ?w = "world_of g"
  have t: "acct_table_ok ?w"
    and acc: "require_auth (ingress s) \<Longrightarrow> \<forall>sub \<in> set (accepted ?f). fst sub \<in> Some ` set (logins ?f)"
    and k: "conn_ok s (logins ?f) (conns ?f i)" and sub: "all_submitted (old \<union> set (accepted ?f)) ?w" and fit: "rows_fit ?w" for i
    using ok by (simp_all add: site_ok_def)
  have "front_ok s (messages (db ?w)) ?f" using k by (simp add: front_ok_def)
  from session_step_ok [OF step this] have conns: "conn_ok s (logins f) (conns f i)" for i by (simp add: front_ok_def)
  from session_effect [OF step new] show ?thesis
  proof (elim disjE conjE exE)
    assume q: "quiet ?w (front_world f)" and a: "acct_table_ok ?w \<longrightarrow> acct_table_ok (front_world f)"
      and same: "accepted f = accepted ?f"
    have "set (logins ?f) \<subseteq> set (logins f)"
      using step by cases (auto simp: on_AUTH_def on_EHLO_def on_HELO_def on_MAIL_def on_RCPT_def on_DATA_def set_conn_def Let_def
        split: prod.splits sum.splits)
    then show ?thesis
      using a t acc conns inherits_submitted [OF quiet_inherits [OF q] sub] inherits_fit [OF quiet_inherits [OF q] fit]
      by (fastforce simp: site_ok_def same)
  next
    fix i env
    let ?ses = "conn_session (conns ?f i)"
    assume r: "rcpt_tos env = rcpt_tos (conn_envelope (conns ?f i))" and da: "data_accepted x s env ?w"
      and w: "front_world f = notify_new_message (stored_world e x s ?ses env ?w)"
      and a: "accepted f = submission_of ?ses env # accepted ?f" and l: "logins f = logins ?f"
    have "fst (submission_of ?ses env) \<in> Some ` set (logins f)" if "require_auth (ingress s)"
      using k [of i] that da r by (simp add: conn_ok_def submission_of_def data_accepted_def l)
    moreover have "old \<union> set (accepted f) = insert (submission_of ?ses env) (old \<union> set (accepted ?f))" by (simp add: a)
    ultimately show ?thesis
      using stored_table [OF t, of e x s ?ses env] stored_submitted [OF sub new, of ?ses env]
        stored_fit [OF fit, of e x s ?ses env] acc conns
      by (simp add: site_ok_def w a l)
  qed
qed

text \<open>Requests, administration commands and restarts.\<close>

lemma web_step_simps:
  "world_of (snd (web_step e y c qe pe s cookie req g)) =
     web_world (snd (create_app e y c qe pe s cookie req \<lparr>web_world = world_of g, ingress_accounts = Some (acct_store (front_of g))\<rparr>))"
  "pending (snd (web_step e y c qe pe s cookie req g)) = pending g"
  "conns (front_of (snd (web_step e y c qe pe s cookie req g))) = conns (front_of g)"
  "logins (front_of (snd (web_step e y c qe pe s cookie req g))) = logins (front_of g)"
  "accepted (front_of (snd (web_step e y c qe pe s cookie req g))) = accepted (front_of g)"
  by (simp_all add: web_step_def Let_def prod.case_eq_if put_world_def)

lemma web_step_effect:
  assumes "db_keys (db (world_of g))" "site_ok s old g"
  shows "api_effect (site_deletes req) (world_of g) (world_of (snd (web_step e y c qe pe s cookie req g))) \<and>
    acct_table_ok (world_of (snd (web_step e y c qe pe s cookie req g)))"
  unfolding web_step_simps
  using site_world [of "\<lparr>web_world = world_of g, ingress_accounts = Some (acct_store (front_of g))\<rparr>"] assms by (simp add: site_ok_def)

lemma web_site:
  assumes "dispatcher_at f s (world_of g, pend)" "site_ok s old g"
  shows "site_ok s old (snd (web_step e y c qe pe s cookie req g))"
proof -
  have k: "db_keys (db (world_of g))" using assms(1) by (simp add: dispatcher_at_def)
  note A = web_step_effect [OF k assms(2), of req e y c qe pe cookie]
  show ?thesis
    by (rule site_ok_world [OF assms(2)])
      (use A api_ok [OF conjunct1 [OF A] assms(1)] in \<open>simp_all add: web_step_simps\<close>)
qed

lemma admin_quiet: "acct_table_ok w \<Longrightarrow> quiet w (snd (run_command e z c cmd w)) \<and> acct_table_ok (snd (run_command e z c cmd w))"
  using run_command_frame [of w e z c cmd] quiet_admin by blast

lemma quiet_site:
  assumes "site_ok s old g" "quiet (world_of g) w" "acct_table_ok w"
  shows "site_ok s old (put_world w g)"
  by (rule site_ok_world [OF assms(1)]) (simp_all add: assms quiet_inherits)

lemma restart_site:
  assumes "site_ok s old g"
  shows "site_ok s old (restart_app g)"
proof -
  have "world_of (restart_app g) = app_start (world_of g)" by (simp add: restart_app_def)
  moreover have "acct_table_ok (app_start (world_of g))"
    using acct_table_same [OF conjunct2 [OF start_inherits]] assms by (simp add: site_ok_def)
  ultimately show ?thesis
    by (intro site_ok_world [OF assms]) (auto simp: start_inherits restart_app_def)
qed

lemma restart_ok:
  assumes ok: "db_keys (db (world_of g))" "quota_nonneg (world_of g)" "bodies_ok (world_of g)"
    and s: "valid_settings s" and site: "site_ok s old g"
  shows "system_ok s old (restart_app g)"
  using app_start_ok [OF ok queue_maxsize_pos [OF s]] restart_site [OF site]
  by (simp add: system_ok_def restart_app_def)

lemma system_step_ok:
  assumes "system_step e x y z c utf8 qe s networks scan g g'" "valid_settings s" "smtp_only e" "scans scan" "system_ok s old g"
  shows "system_ok s old g'"
proof -
  have d: "dispatcher_ok s (world_of g, pending g)" and site: "site_ok s old g" using assms(5) by (simp_all add: system_ok_def)
  then have t: "acct_table_ok (world_of g)" by (simp add: site_ok_def)
  have turn: "system_ok s old ((put_world w g)\<lparr>pending := p\<rparr>)"
    if "dispatcher_ok s (w, p)" "inherits (world_of g) w" "acct_table_ok w" for w p
    using that site_ok_world [OF site, of "(put_world w g)\<lparr>pending := p\<rparr>"] by (simp add: system_ok_def)
  have same: "system_ok s old (put_world w g)" if "dispatcher_ok s (w, pending g)" "inherits (world_of g) w" "acct_table_ok w" for w
    using turn [OF that] by (simp add: put_world_def)
  from assms(1) show ?thesis
  proof cases
    case (claim w claimed)
    have "dispatcher_ok s (w, claimed)" using ok_claim [of "\<lambda>_. 0" s "world_of g" "[]" e] d claim(2,3) by (simp add: kept_def)
    moreover have "inherits (world_of g) w" "acct_table_ok w"
      using claim_inherits [of "world_of g" e s] claim(3) acct_table_same [OF _ t] by auto
    ultimately show ?thesis unfolding claim(1) by (rule turn)
  next
    case (put mid rest)
    have "dispatcher_ok s (producer_put mid (world_of g), rest)" using ok_put [of "\<lambda>_. 0" s "world_of g" mid rest] d put(2,3) by (simp add: kept_def)
    moreover have "inherits (world_of g) (producer_put mid (world_of g))" "acct_table_ok (producer_put mid (world_of g))"
      using t by (auto simp: producer_put_def acct_table_ok_def intro: inherits_payload)
    ultimately show ?thesis unfolding put(1) by (rule turn)
  next
    case consume
    let ?w' = "consumer_turn e s (world_of g)"
    note T = turn_payload [OF d assms(2,3)]
    have "dispatcher_ok s (?w', pending g)" using ok_consume [OF d assms(2,3)] by (simp add: kept_def)
    moreover have "inherits (world_of g) ?w'" "acct_table_ok ?w'" using T inherits_payload acct_table_same [OF _ t] by blast+
    ultimately show ?thesis unfolding consume by (rule same)
  next
    case (housekeep ga)
    let ?w' = "housekeeping_turn e s scan ga (world_of g)"
    have "dispatcher_ok s (?w', pending g)" using housekeeping_ok [OF d assms(4), of e ga] by (simp add: kept_def)
    moreover have "inherits (world_of g) ?w'" "acct_table_ok ?w'"
      using housekeeping_inherits [OF d assms(4)] acct_table_same [OF _ t] by blast+
    ultimately show ?thesis unfolding housekeep by (rule same)
  next
    case wait
    show ?thesis unfolding wait by (rule same) (use quiet_ok [OF quiet_tick d] t quiet_inherits [OF quiet_tick] in simp_all)
  next
    case restart
    show ?thesis unfolding restart
      by (rule restart_ok) (use assms(2) d site in \<open>simp_all add: dispatcher_ok_def capacity_ok_def\<close>)
  next
    case (smtp f)
    show ?thesis unfolding smtp(1) using smtp_kept [OF smtp(2,3) d] smtp_site [OF smtp(2,3) site] by (simp add: system_ok_def kept_def)
  next
    case (web pe cookie req)
    have "db_keys (db (world_of g))" using d by (simp add: dispatcher_ok_def)
    from web_step_effect [OF this site] have "dispatcher_ok s (world_of g', pending g')"
      using api_ok [OF _ d] unfolding web web_step_simps(2) by blast
    then show ?thesis using web_site [OF d site] by (simp add: system_ok_def web)
  next
    case (admin cmd)
    show ?thesis unfolding admin using admin_quiet [OF t] quiet_ok [OF _ d] quiet_inherits by (intro same) blast+
  qed
qed

definition system_inv ::
  "'e relay_env_scheme \<Rightarrow> settings \<Rightarrow> (message list \<Rightarrow> message list) \<Rightarrow> submission set \<Rightarrow> system \<Rightarrow> bool" where
  "system_inv e s scan old g \<longleftrightarrow> (valid_settings s \<longrightarrow> smtp_only e \<longrightarrow> scans scan \<longrightarrow> system_ok s old g)"

interpretation system_sys: invariant_system "system_init old" "system_step e x y z c utf8 qe s networks scan" "system_inv e s scan old"
  for old e x y z c utf8 qe s networks scan
proof
  show "system_inv e s scan old g" if "system_init old g" for g
    using that conn_ok_fresh by (auto simp: system_init_def system_inv_def site_ok_def intro!: restart_ok)
  show "system_inv e s scan old g'" if "system_inv e s scan old g" "system_step e x y z c utf8 qe s networks scan g g'" for g g'
    using that system_step_ok unfolding system_inv_def by blast
qed

section \<open>Properties\<close>


definition demo_busy :: system where
  "demo_busy = \<lparr>front_of = \<lparr>conns = (\<lambda>_. fresh_conn No_peer), acct_store = store_refresh demo_start empty_store,
     front_world = demo_start, logins = [], accepted = []\<rparr>, pending = []\<rparr>"

lemma demo_busy_init: "system_init {(None, ''x'', [''y''], ''m'')} demo_busy"
proof -
  let ?v = "demo_world [demo_msg 1, demo_msg 2]"
  have "db_keys (db ?v)" by (rule demo_world_keys) (simp add: demo_msg_def)
  moreover have "quota_nonneg ?v"
    by (simp add: quota_nonneg_def quota_of_def demo_world_def init_world_def empty_database_def)
  moreover have "distinct (map spool_path [demo_msg 1, demo_msg 2])" by code_simp
  then have "bodies_ok ?v" by (simp add: bodies_ok_def demo_world_def)
  moreover have "acct_table_ok ?v" by (simp add: acct_table_ok_def demo_world_def empty_database_def)
  moreover have "all_submitted {(None, ''x'', [''y''], ''m'')} ?v"
    by (simp add: all_submitted_def is_submission_def demo_world_def demo_msg_def)
  moreover have "rows_fit ?v" by (simp add: rows_fit_headers short_headers_def demo_world_def demo_msg_def)
  ultimately show ?thesis
    unfolding system_init_def by (intro exI [of _ ?v]) (simp add: demo_busy_def restart_app_def demo_start_def)
qed

lemma demo_claimed:
  "snd (producer_claim (demo_relay_env accepting) demo_settings demo_start) = [1, 2]"
  "queue (fst (producer_claim (demo_relay_env accepting) demo_settings demo_start)) = []"
  "map (\<lambda>m. (msg_id m, status m)) (messages (db (fst (producer_claim (demo_relay_env accepting) demo_settings demo_start)))) =
     [(1, SENDING), (2, SENDING)]"
  by code_simp+



text \<open>The session of \<open>Sessions\<close> inside the whole program.\<close>

definition alone :: "front \<Rightarrow> system" where
  "alone f = \<lparr>front_of = f, pending = []\<rparr>"

lemma auth_settings_valid: "valid_settings auth_settings"
  using demo_settings_valid
  by (simp add: auth_settings_def valid_settings_def valid_ingress_def validate_providers_def Let_def split: if_splits)

lemma demo_ready_accepted: "accepted demo_ready = []"
proof -
  have "accepted (on_AUTH c utf8 i ad f) = accepted f" for c utf8 i ad f
    by (auto simp: on_AUTH_def set_conn_def split: prod.splits sum.splits)
  then show ?thesis by (simp add: demo_ready_def on_RCPT_def on_MAIL_def set_conn_def demo_login_def on_EHLO_def demo_front_def)
qed

lemma demo_alone_init: "system_init {} (alone demo_front)"
proof -
  let ?v = "demo_account_world"
  have "app_start ?v = ?v"
    by (simp add: app_start_def fresh_process_def refresh_overrides_def load_def recover_orphans_def demo_account_world_def
        init_world_def empty_database_def update_where_def fun_eq_iff)
  moreover have "db_keys (db ?v)" "quota_nonneg ?v" "bodies_ok ?v" "all_submitted {} ?v" "rows_fit ?v"
    by (simp_all add: rows_fit_headers demo_account_world_def empty_database_def db_keys_def quota_nonneg_def quota_of_def bodies_ok_def all_submitted_def)
  ultimately show ?thesis unfolding system_init_def using demo_table_ok
    by (intro exI [of _ ?v]) (simp add: alone_def demo_front_def restart_app_def)
qed

lemma smtp_alone:
  assumes "session_step e x c utf8 s networks f f'" "front_world f = demo_account_world"
  shows "system_step e x y z c utf8 qe s networks scan (alone f) (alone f')"
  using system_step.smtp [of e x c utf8 s networks "alone f" f' y z qe scan] assms
  by (simp add: alone_def demo_account_world_def init_world_def)

lemma demo_alone_reached:
  "(system_step e demo_mail y z demo_crypto id qe auth_settings [] scan)\<^sup>*\<^sup>* (alone demo_front)
     (alone (on_DATA e demo_mail auth_settings 0 body demo_ready))"
proof -
  let ?step = "session_step e demo_mail demo_crypto id auth_settings []"
  let ?f1 = "on_EHLO [] 0 ''client'' [] demo_front" and ?f3 = "on_MAIL auth_settings 0 ''a@x'' [] demo_login"
  have 1: "?step demo_front ?f1" by (rule session_step.ehlo)
  have 2: "?step ?f1 demo_login" unfolding demo_login_def by (rule session_step.auth)
  have 3: "?step demo_login ?f3" by (rule session_step.mail) (simp add: demo_login_value)
  have "mail_from (conn_envelope (conns ?f3 0)) \<noteq> None"
    by (simp add: on_MAIL_def set_conn_def handle_MAIL_def demo_login_value)
  then have 4: "?step ?f3 demo_ready" unfolding demo_ready_def by (rule session_step.rcpt)
  have 5: "?step demo_ready (on_DATA e demo_mail auth_settings 0 body demo_ready)" by (rule session_step.data)
  have w: "front_world demo_front = demo_account_world" "front_world ?f1 = demo_account_world"
    "front_world ?f3 = demo_account_world"
    by (simp_all add: demo_front_def on_EHLO_def on_MAIL_def set_conn_def demo_login_value)
  note steps = smtp_alone [OF 1 w(1)] smtp_alone [OF 2 w(2)] smtp_alone [OF 3 demo_login_value(4)]
    smtp_alone [OF 4 w(3)] smtp_alone [OF 5 demo_ready_value(4)]
  show ?thesis
    by (rule rtranclp.rtrancl_into_rtrancl [OF rtranclp.rtrancl_into_rtrancl [OF rtranclp.rtrancl_into_rtrancl
          [OF rtranclp.rtrancl_into_rtrancl [OF r_into_rtranclp]]]]) (rule steps)+
qed




text \<open>An id in the queue can outlive its message and name another one. SQLite gives a deleted
  highest id to the next row, and deleting a message over the API leaves its id in the queue: when
  the message that was being sent is deleted and a client submits the next one, the consumer that
  takes the old id works on the new message, which nobody has claimed and which the producer can
  claim for a second consumer at the same time.\<close>

theorem stale_id_names_new_message:
  assumes "msg_of w mid = Some m" "mid \<in> set (queue w)" "delete_message mid w = (Inr (), w1)"
    "next_rowid msg_id (messages (db w1)) = mid" "data_accepted x s env w1"
    "handle_DATA e x s (Some notify_new_message) ses env w1 = (r, w2)"
  shows "mid \<in> set (queue w2) \<and> mid \<notin> sending_ids w2 \<and>
    (\<exists>row. msg_of w2 mid = Some row \<and> status row = QUEUED \<and> from_addr row = str_or_empty (mail_from env) \<and> rcpt_to row = rcpt_tos env)"
proof -
  let ?row = "accepted_row e x s ses env w1"
  have row: "msg_id ?row = mid" "status ?row = QUEUED" "from_addr ?row = str_or_empty (mail_from env)" "rcpt_to ?row = rcpt_tos env"
    using assms(4) by (simp_all add: accepted_row_def new_message_def)
  have w2: "messages (db w2) = messages (db w1) @ [?row]" "queue w2 = queue w1"
    using assms(6) by (auto simp: data_accept [OF assms(5)] notify_new_message_def stored_world_def)
  have none: "mid \<notin> msg_id ` set (messages (db w1))" using next_rowid_notin [of msg_id "messages (db w1)"] assms(4) by simp
  then have "msg_of w2 mid = Some ?row" by (simp add: msg_of_def w2 get_by_append_new row)
  moreover have "mid \<notin> sending_ids w2" using none row by (auto simp: sending_ids_def w2)
  moreover have "queue w1 = queue w" using assms(1,3) by (auto simp: delete_message_def spool_delete_def)
  ultimately show ?thesis using assms(2) w2(2) row by simp
qed

theorem stale_id_names_new_message_witness:
  "\<exists>w1 w2 row. delete_message 1 (demo_world [(demo_msg 1)\<lparr>status := SENDING\<rparr>]\<lparr>queue := [1]\<rparr>) = (Inr (), w1) \<and>
     w2 = snd (handle_DATA demo_env demo_mail demo_settings (Some notify_new_message) demo_session demo_envelope w1) \<and>
     queue w2 = [1] \<and> msg_of w2 1 = Some row \<and> status row = QUEUED"
proof -
  let ?w = "demo_world [(demo_msg 1)\<lparr>status := SENDING\<rparr>]\<lparr>queue := [1]\<rparr>"
  let ?w1 = "snd (delete_message 1 ?w)"
  let ?d = "handle_DATA demo_env demo_mail demo_settings (Some notify_new_message) demo_session demo_envelope ?w1"
  have m: "msg_of ?w 1 = Some ((demo_msg 1)\<lparr>status := SENDING\<rparr>)" "1 \<in> set (queue ?w)"
    by (simp_all add: msg_of_def demo_world_def demo_msg_def get_by_def)
  have del: "delete_message 1 ?w = (Inr (), ?w1)" using m(1) by (simp add: delete_message_def)
  have n: "next_rowid msg_id (messages (db ?w1)) = 1" by code_simp
  have da: "data_accepted demo_mail demo_settings demo_envelope ?w1" by code_simp
  have "queue (snd ?d) = queue ?w1" by (subst data_accept [OF da]) (simp add: notify_new_message_def stored_world_def)
  moreover have "queue ?w1 = [1]" by (simp add: delete_message_def m(1) spool_delete_def)
  ultimately have "queue (snd ?d) = [1]" by simp
  then show ?thesis
    using stale_id_names_new_message [OF m del n da prod.collapse [symmetric], of demo_env demo_session] del
    by (intro exI [of _ ?w1] exI [of _ "snd ?d"]) auto
qed

end
