(* ===== verification/Interleaving.thy ===== *)
theory Interleaving
  imports Dispatcher
begin

text \<open>
  The consumers of \<open>src/smtp_switch/dispatch/worker.py\<close> between their awaits. \<open>Worker\<close> runs a turn of a
  consumer as a whole; here a consumer is where it stands in \<open>_process\<close> (with \<open>Router.select\<close> in
  line), and \<open>resume\<close> runs it to the next point at which another task may run. The two agree when a
  consumer is alone; the properties are about any number of consumers that take turns at these points.
\<close>

section \<open>A consumer between two awaits\<close>

text \<open>The local variables of \<open>_process\<close>; \<open>j_left\<close> counts the iterations of the loop still to come.\<close>

record job =
  j_mid :: int
  j_snap :: msg_snapshot
  j_raw :: string
  j_left :: nat
  j_tick :: tick_state

datatype consumer =
    Waiting
  | Started int
  | Dropping int string "string option"
  | Scanning job "provider_config list"
  | Reserving job string "provider_config list"
  | Probing job string reservation "provider_config list"
  | Returning job reservation "provider_config list"
  | Sending job route_decision
  | Recording job route_decision int datetime relay_result
  | Settling job route_decision relay_result
  | Judging job route_decision relay_result
  | Marking job route_decision
  | Concluding job
  | Requeueing int

text \<open>The head of the \<open>for\<close> loop: the next call of \<open>select\<close>, or the end of the loop.\<close>

definition next_round :: "settings \<Rightarrow> job \<Rightarrow> world \<Rightarrow> consumer" where
  "next_round s j w =
     (case j_left j of 0 \<Rightarrow> Concluding j | Suc n \<Rightarrow> Scanning (j\<lparr>j_left := n\<rparr>) (enabled_providers s w))"

fun resume :: "'e relay_env_scheme \<Rightarrow> settings \<Rightarrow> consumer \<Rightarrow> world \<Rightarrow> consumer \<times> world" where
  "resume e s Waiting w = (Waiting, w)"
| "resume e s (Started k) w =
     (case msg_of w k of
        None \<Rightarrow> (Waiting, w)
      | Some m \<Rightarrow>
          if is_terminal (status m) then (Waiting, w)
          else
            let sn = from_row m; (now, w) = utcnow e w;
                expired = (now - sn_received_at sn > hours_td (max_age_hours (retry (dispatch s))))
            in case spool_read (sn_spool_path sn) w of
                 Inl _ \<Rightarrow> (Dropping k ''spool_missing'' None, w)
               | Inr body \<Rightarrow>
                   if expired then (Dropping k ''expired'' (Some ''message exceeded max age''), w)
                   else (next_round s \<lparr>j_mid = k, j_snap = sn, j_raw = body, j_left = nat (failover_per_tick (dispatch s)), j_tick = fresh_tick\<rparr> w, w))"
| "resume e s (Dropping k reason dt) w = (Waiting, deadletter k reason dt w)"
| "resume e s (Scanning j []) w = (Concluding j, w)"
| "resume e s (Scanning j (cfg # cfgs)) w =
     (if prov_name cfg \<in> set (tried (j_tick j)) then (Scanning j cfgs, w)
      else let (up, w) = is_available e (circuit_breaker s) (prov_name cfg) w
           in (if up then Reserving j (prov_name cfg) cfgs else Scanning j cfgs, w))"
| "resume e s (Reserving j name cfgs) w =
     (case try_reserve e s name w of
        (Inl x, w) \<Rightarrow> (Requeueing (j_mid j), w)
      | (Inr None, w) \<Rightarrow> (Scanning j cfgs, w)
      | (Inr (Some r), w) \<Rightarrow> (Probing j name r cfgs, w))"
| "resume e s (Probing j name r cfgs) w =
     (let (granted, w) = begin_probe e (circuit_breaker s) name w
      in (if granted then Sending j \<lparr>rd_provider = name, rd_reservation = r\<rparr> else Returning j r cfgs, w))"
| "resume e s (Returning j r cfgs) w = (Scanning j cfgs, release e r w)"
| "resume e s (Sending j d) w =
     (let p = rd_provider d;
          j = j\<lparr>j_tick := (j_tick j)\<lparr>tried := List.insert p (tried (j_tick j)), made_attempt := True\<rparr>\<rparr>;
          no = sn_attempts (j_snap j) + int (length (tried (j_tick j)));
          (started, w) = utcnow e w
      in case relay e (registry_get s p) (sn_from_addr (j_snap j)) (sn_rcpt_to (j_snap j)) (j_raw j) w of
           Inl x \<Rightarrow> (Requeueing (j_mid j), w)
         | Inr r \<Rightarrow> (Recording j d no started r, w))"
| "resume e s (Recording j d no started r) w =
     (case record_attempt e (j_mid j) no (rd_provider d) started r w of
        (Inl x, w) \<Rightarrow> (Requeueing (j_mid j), w)
      | (Inr _, w) \<Rightarrow> (Settling (j\<lparr>j_tick := (j_tick j)\<lparr>ts_error := Some (detail r), ts_code := res_code r\<rparr>\<rparr>) d r, w))"
| "resume e s (Settling j d r) w =
     (if relay_ok r then (Judging j d r, commit (rd_reservation d) w)
      else
        let w = w\<lparr>metrics := (metrics w)\<lparr>messages_failed :=
                   bump_label (messages_failed (metrics w)) (rd_provider d, classification r)\<rparr>\<rparr>
        in if classification r = Connect_error
           then (Judging (j\<lparr>j_tick := (j_tick j)\<lparr>saw_connect := True\<rparr>\<rparr>) d r, release e (rd_reservation d) w)
           else if classification r = Transient
           then (Judging (j\<lparr>j_tick := (j_tick j)\<lparr>saw_transient := True\<rparr>\<rparr>) d r, commit (rd_reservation d) w)
           else (Judging (j\<lparr>j_tick := (j_tick j)\<lparr>saw_permanent := True\<rparr>\<rparr>) d r, commit (rd_reservation d) w))"
| "resume e s (Judging j d r) w =
     (if relay_ok r then (Marking j d, record_success e (rd_provider d) w)
      else
        let w = (if classification r = Connect_error \<or> classification r = Transient
                 then record_failure e (circuit_breaker s) (rd_provider d) w
                 else record_success e (rd_provider d) w)
        in (next_round s j w, w))"
| "resume e s (Marking j d) w =
     (let w = mark_sent e (j_mid j) (rd_provider d) w
      in (Waiting, w\<lparr>metrics := (metrics w)\<lparr>messages_sent := bump_label (messages_sent (metrics w)) (rd_provider d)\<rparr>\<rparr>))"
| "resume e s (Concluding j) w = (Waiting, handle_no_success e s (j_mid j) (j_snap j) (j_tick j) w)"
| "resume e s (Requeueing k) w = (Waiting, requeue_now k w)"

section \<open>A consumer alone\<close>

text \<open>Runs of one consumer while no other task does anything.\<close>

definition alone :: "'e relay_env_scheme \<Rightarrow> settings \<Rightarrow> consumer \<times> world \<Rightarrow> consumer \<times> world \<Rightarrow> bool" where
  "alone e s = (\<lambda>a b. b = resume e s (fst a) (snd a))\<^sup>*\<^sup>*"

lemma alone_refl [simp]: "alone e s a a"
  by (simp add: alone_def)

lemma alone_step: "alone e s (resume e s c w) b \<Longrightarrow> alone e s (c, w) b"
  unfolding alone_def by (rule converse_rtranclp_into_rtranclp) auto

lemma alone_trans: "alone e s a b \<Longrightarrow> alone e s b c \<Longrightarrow> alone e s a c"
  unfolding alone_def by (rule rtranclp_trans)

lemma alone_scan:
  assumes "select_from e s (set (tried (j_tick j))) cfgs w = (res, w')"
  shows "alone e s (Scanning j cfgs, w)
    (case res of Inl _ \<Rightarrow> Requeueing (j_mid j) | Inr None \<Rightarrow> Concluding j | Inr (Some d) \<Rightarrow> Sending j d, w')"
  using assms
proof (induction cfgs arbitrary: w)
  case Nil
  then show ?case by (intro alone_step) auto
next
  case (Cons cfg cfgs)
  let ?n = "prov_name cfg" and ?goal = "(case res of Inl _ \<Rightarrow> Requeueing (j_mid j) | Inr None \<Rightarrow> Concluding j | Inr (Some d) \<Rightarrow> Sending j d, w')"
  show ?case
  proof (cases "?n \<in> set (tried (j_tick j))")
    case True
    then show ?thesis using Cons by (intro alone_step) (simp add: consider_cfg_def)
  next
    case False
    obtain up w1 where up: "is_available e (circuit_breaker s) ?n w = (up, w1)" by fastforce
    show ?thesis
    proof (cases up)
      case False
      have "resume e s (Scanning j (cfg # cfgs)) w = (Scanning j cfgs, w1)" using \<open>?n \<notin> _\<close> up False by simp
      moreover have "select_from e s (set (tried (j_tick j))) cfgs w1 = (res, w')"
        using Cons.prems \<open>?n \<notin> _\<close> up False by (simp add: consider_cfg_def try_candidate_def)
      ultimately show ?thesis using Cons.IH by (intro alone_step) simp
    next
      case True
      have 1: "resume e s (Scanning j (cfg # cfgs)) w = (Reserving j ?n cfgs, w1)" using \<open>?n \<notin> _\<close> up True by simp
      obtain rr w2 where rr: "try_reserve e s ?n w1 = (rr, w2)" by fastforce
      note sel = consider_cfg_def try_candidate_def up rr
      have "alone e s (Reserving j ?n cfgs, w1) ?goal"
      proof (cases rr)
        case (Inl x)
        then show ?thesis using Cons.prems True \<open>?n \<notin> _\<close> by (intro alone_step) (auto simp: sel)
      next
        case (Inr o1)
        show ?thesis
        proof (cases o1)
          case None
          then have "select_from e s (set (tried (j_tick j))) cfgs w2 = (res, w')" using Cons.prems True \<open>?n \<notin> _\<close> Inr by (simp add: sel)
          then show ?thesis using Cons.IH rr Inr None by (intro alone_step) simp
        next
          case (Some r)
          obtain g w3 where g: "begin_probe e (circuit_breaker s) ?n w2 = (g, w3)" by fastforce
          have "alone e s (Probing j ?n r cfgs, w2) ?goal"
          proof (cases g)
            case False
            then have "select_from e s (set (tried (j_tick j))) cfgs (release e r w3) = (res, w')"
              using Cons.prems \<open>up\<close> \<open>?n \<notin> _\<close> Inr Some g by (simp add: sel)
            then have "alone e s (Returning j r cfgs, w3) ?goal" using Cons.IH by (intro alone_step) simp
            then show ?thesis using g False by (intro alone_step) simp
          next
            case True
            then show ?thesis using Cons.prems \<open>up\<close> \<open>?n \<notin> _\<close> Inr Some g by (intro alone_step) (auto simp: sel)
          qed
          then show ?thesis using rr Inr Some by (intro alone_step) simp
        qed
      qed
      then show ?thesis using 1 by (intro alone_step) simp
    qed
  qed
qed

lemma alone_attempt:
  assumes "one_attempt e s (j_mid j) (j_snap j) (j_raw j) d (j_tick j) w = (res, w')"
  shows "alone e s (Sending j d, w)
    (case res of Inl _ \<Rightarrow> Requeueing (j_mid j) | Inr None \<Rightarrow> Waiting | Inr (Some st) \<Rightarrow> next_round s (j\<lparr>j_tick := st\<rparr>) w', w')"
proof -
  let ?goal = "(case res of Inl _ \<Rightarrow> Requeueing (j_mid j) | Inr None \<Rightarrow> Waiting | Inr (Some st) \<Rightarrow> next_round s (j\<lparr>j_tick := st\<rparr>) w', w')"
  let ?p = "rd_provider d"
  define j1 where "j1 = j\<lparr>j_tick := (j_tick j)\<lparr>tried := List.insert ?p (tried (j_tick j)), made_attempt := True\<rparr>\<rparr>"
  let ?no = "sn_attempts (j_snap j) + int (length (tried (j_tick j1)))" and ?t = "clock e (tick w)" and ?w1 = "w\<lparr>tick := Suc (tick w)\<rparr>"
  have k: "j_mid j1 = j_mid j" "j_snap j1 = j_snap j" "j_raw j1 = j_raw j" by (simp_all add: j1_def)
  show ?thesis
  proof (cases "relay e (registry_get s ?p) (sn_from_addr (j_snap j)) (sn_rcpt_to (j_snap j)) (j_raw j) ?w1")
    case (Inl x)
    then show ?thesis using assms by (intro alone_step) (auto simp: one_attempt_def utcnow_def Let_def)
  next
    case (Inr r)
    then have 1: "resume e s (Sending j d) w = (Recording j1 d ?no ?t r, ?w1)"
      by (simp add: j1_def utcnow_def Let_def)
    define j2 where "j2 = j1\<lparr>j_tick := (j_tick j1)\<lparr>ts_error := Some (detail r), ts_code := res_code r\<rparr>\<rparr>"
    have "alone e s (Recording j1 d ?no ?t r, ?w1) ?goal"
    proof (cases "record_attempt e (j_mid j) ?no ?p ?t r ?w1")
      case (Pair rec w2)
      show ?thesis
      proof (cases rec)
        case Inl
        then show ?thesis using assms \<open>relay _ _ _ _ _ _ = _\<close> Pair
          by (intro alone_step) (auto simp: one_attempt_def utcnow_def Let_def k j1_def)
      next
        case (Inr u)
        obtain res1 w3 where set0: "settle_attempt e s (j_mid j) d r (j_tick j2) w2 = (res1, w3)" by fastforce
        then have set: "settle_attempt e s (j_mid j) d r (j_tick j2) w2 = (res1, w')" "res = Inr res1"
          using assms \<open>relay _ _ _ _ _ _ = _\<close> Pair Inr by (auto simp: one_attempt_def utcnow_def Let_def j1_def j2_def)
        have "alone e s (Settling j2 d r, w2) ?goal"
        proof (cases "relay_ok r")
          case True
          show ?thesis using set True
            by (intro alone_step) (auto simp: settle_attempt_def Let_def k j2_def relay_ok_def intro!: alone_step)
        next
          case False
          show ?thesis
            using set False k
            by (intro alone_step, cases "classification r")
              (auto simp: settle_attempt_def Let_def j2_def j1_def relay_ok_def next_round_def intro!: alone_step)
        qed
        then show ?thesis using Pair Inr by (intro alone_step) (simp add: k j2_def)
      qed
    qed
    then show ?thesis using 1 by (intro alone_step) simp
  qed
qed

text \<open>Where a consumer stands after the loop ended with \<open>res\<close>.\<close>

definition stands_at :: "int \<Rightarrow> job \<Rightarrow> exn + tick_state option \<Rightarrow> consumer" where
  "stands_at k j res = (case res of Inl _ \<Rightarrow> Requeueing k | Inr None \<Rightarrow> Waiting | Inr (Some _) \<Rightarrow> Concluding j)"

lemma alone_loop:
  assumes "failover e s (j_mid j) (j_snap j) (j_raw j) (j_left j) (j_tick j) w = (res, w')"
  shows "\<exists>j'. j_mid j' = j_mid j \<and> j_snap j' = j_snap j \<and> (\<forall>st. res = Inr (Some st) \<longrightarrow> j_tick j' = st) \<and>
    alone e s (next_round s j w, w) (stands_at (j_mid j) j' res, w')"
  using assms
proof (induction "j_left j" arbitrary: j w)
  case 0
  then show ?case by (intro exI [of _ j]) (auto simp: next_round_def stands_at_def)
next
  case (Suc n)
  define j1 where "j1 = j\<lparr>j_left := n\<rparr>"
  have j1: "j_mid j1 = j_mid j" "j_snap j1 = j_snap j" "j_raw j1 = j_raw j" "j_tick j1 = j_tick j" "j_left j1 = n"
    by (simp_all add: j1_def)
  have nr: "next_round s j w = Scanning j1 (enabled_providers s w)" using Suc.hyps(2) by (simp add: next_round_def j1_def split: nat.splits)
  obtain sel w1 where sel: "select e s (set (tried (j_tick j))) w = (sel, w1)" by fastforce
  then have scan: "alone e s (next_round s j w, w)
      (case sel of Inl _ \<Rightarrow> Requeueing (j_mid j) | Inr None \<Rightarrow> Concluding j1 | Inr (Some d) \<Rightarrow> Sending j1 d, w1)"
    unfolding nr using alone_scan [of e s j1 "enabled_providers s w" w sel w1] by (simp add: select_def j1 split: sum.splits option.splits)
  note run = Suc.prems [unfolded Suc.hyps(2) [symmetric]]
  show ?case
  proof (cases "\<exists>d. sel = Inr (Some d)")
    case False
    then have "w' = w1" "\<And>x. sel = Inl x \<Longrightarrow> res = Inl x" "sel = Inr None \<Longrightarrow> res = Inr (Some (j_tick j))"
      using run sel by (auto split: sum.splits option.splits)
    then show ?thesis using scan False
      by (intro exI [of _ j1], cases sel) (auto simp: j1 stands_at_def split: option.splits)
  next
    case True
    then obtain d where d: "sel = Inr (Some d)" by blast
    obtain att w2 where att: "one_attempt e s (j_mid j) (j_snap j) (j_raw j) d (j_tick j) w1 = (att, w2)" by fastforce
    have step: "alone e s (next_round s j w, w)
      (case att of Inl _ \<Rightarrow> Requeueing (j_mid j) | Inr None \<Rightarrow> Waiting | Inr (Some st) \<Rightarrow> next_round s (j1\<lparr>j_tick := st\<rparr>) w2, w2)"
      by (rule alone_trans [OF scan]) (use alone_attempt [of e s j1 d w1 att w2] att in \<open>simp add: d j1 split: sum.splits option.splits\<close>)
    show ?thesis
    proof (cases "\<exists>st. att = Inr (Some st)")
      case False
      then have "w' = w2" "\<And>x. att = Inl x \<Longrightarrow> res = Inl x" "att = Inr None \<Longrightarrow> res = Inr None"
        using run sel d att by (auto split: sum.splits option.splits)
      then show ?thesis using step False
        by (intro exI [of _ j1], cases att) (auto simp: j1 stands_at_def split: option.splits)
    next
      case True
      then obtain st where st: "att = Inr (Some st)" by blast
      let ?j2 = "j1\<lparr>j_tick := st\<rparr>"
      have "failover e s (j_mid ?j2) (j_snap ?j2) (j_raw ?j2) (j_left ?j2) (j_tick ?j2) w2 = (res, w')"
        using run sel d att st by (simp add: j1)
      from Suc.hyps(1) [OF _ this] obtain j' where "j_mid j' = j_mid ?j2" "j_snap j' = j_snap ?j2"
        "\<forall>st. res = Inr (Some st) \<longrightarrow> j_tick j' = st" and
        A: "alone e s (next_round s ?j2 w2, w2) (stands_at (j_mid ?j2) j' res, w')"
        by (auto simp: j1)
      then show ?thesis using alone_trans [OF step] by (intro exI [of _ j']) (simp add: st j1)
    qed
  qed
qed

lemma alone_requeue: "alone e s (Requeueing k, w) (Waiting, requeue_now k w)"
  by (intro alone_step) simp

lemma alone_turn:
  assumes "process e s k w = (res, w')"
  shows "alone e s (Started k, w) (Waiting, case res of Inl _ \<Rightarrow> requeue_now k w' | Inr _ \<Rightarrow> w')"
proof (cases "\<exists>m. msg_of w k = Some m \<and> \<not> is_terminal (status m)")
  case False
  then have "resume e s (Started k) w = (Waiting, w)" "res = Inr () \<and> w' = w"
    using assms by (auto simp: process_def split: option.splits)
  then show ?thesis by (intro alone_step) simp
next
  case True
  then obtain m where m: "msg_of w k = Some m" "\<not> is_terminal (status m)" by blast
  let ?w1 = "w\<lparr>tick := Suc (tick w)\<rparr>"
  show ?thesis
  proof (cases "spool_read (spool_path m) ?w1")
    case (Inl x)
    then have "resume e s (Started k) w = (Dropping k ''spool_missing'' None, ?w1)" "res = Inr () \<and> w' = deadletter k ''spool_missing'' None ?w1"
      using assms m by (auto simp: process_def utcnow_def Let_def from_row_sel)
    then show ?thesis by (intro alone_step, simp) (intro alone_step, simp)
  next
    case (Inr body)
    show ?thesis
    proof (cases "clock e (tick w) - received_at m > hours_td (max_age_hours (retry (dispatch s)))")
      case True
      then have "resume e s (Started k) w = (Dropping k ''expired'' (Some ''message exceeded max age''), ?w1)"
        "res = Inr () \<and> w' = deadletter k ''expired'' (Some ''message exceeded max age'') ?w1"
        using assms m Inr by (auto simp: process_def utcnow_def Let_def from_row_sel)
      then show ?thesis by (intro alone_step, simp) (intro alone_step, simp)
    next
      case False
      let ?j = "\<lparr>j_mid = k, j_snap = from_row m, j_raw = body, j_left = nat (failover_per_tick (dispatch s)), j_tick = fresh_tick\<rparr>"
      have 1: "resume e s (Started k) w = (next_round s ?j ?w1, ?w1)"
        using m Inr False by (simp add: utcnow_def Let_def from_row_sel)
      obtain out w2 where f: "failover e s k (from_row m) body (nat (failover_per_tick (dispatch s))) fresh_tick ?w1 = (out, w2)" by fastforce
      then obtain j' where j': "j_mid j' = k" "j_snap j' = from_row m" "\<forall>st. out = Inr (Some st) \<longrightarrow> j_tick j' = st" and
        A: "alone e s (next_round s ?j ?w1, ?w1) (stands_at k j' out, w2)"
        using alone_loop [of e s ?j ?w1 out w2] by auto
      have "alone e s (stands_at k j' out, w2) (Waiting, case res of Inl _ \<Rightarrow> requeue_now k w' | Inr _ \<Rightarrow> w')"
        using assms m Inr False f j' alone_requeue [of e s k w2]
        by (auto simp: process_def utcnow_def Let_def from_row_sel stands_at_def split: sum.splits option.splits intro!: alone_step)
      from alone_trans [OF A this] show ?thesis using 1 by (intro alone_step) simp
    qed
  qed
qed

text \<open>Claim C20: a consumer that is not interrupted does what \<open>Worker\<close> says a turn does. From the moment it
  has taken the head of the queue to the moment it waits again, with the same world at the end.\<close>

theorem uninterrupted_consumer_is_turn:
  assumes "queue w = k # rest"
  shows "alone e s (Started k, w\<lparr>queue := rest\<rparr>) (Waiting, consumer_turn e s w)"
proof -
  obtain res w' where p: "process e s k (w\<lparr>queue := rest\<rparr>) = (res, w')" by fastforce
  then have "consumer_turn e s w = (case res of Inl _ \<Rightarrow> requeue_now k w' | Inr _ \<Rightarrow> w')"
    using assms by (auto simp: consumer_turn_def split: sum.splits)
  then show ?thesis using alone_turn [OF p] by simp
qed

section \<open>What a consumer holds\<close>

text \<open>The message and the provider's slot that a consumer has at a point.\<close>

fun held_id :: "consumer \<Rightarrow> int option" where
  "held_id Waiting = None"
| "held_id (Started k) = Some k"
| "held_id (Dropping k _ _) = Some k"
| "held_id (Scanning j _) = Some (j_mid j)"
| "held_id (Reserving j _ _) = Some (j_mid j)"
| "held_id (Probing j _ _ _) = Some (j_mid j)"
| "held_id (Returning j _ _) = Some (j_mid j)"
| "held_id (Sending j _) = Some (j_mid j)"
| "held_id (Recording j _ _ _ _) = Some (j_mid j)"
| "held_id (Settling j _ _) = Some (j_mid j)"
| "held_id (Judging j _ _) = Some (j_mid j)"
| "held_id (Marking j _) = Some (j_mid j)"
| "held_id (Concluding j) = Some (j_mid j)"
| "held_id (Requeueing k) = Some k"

fun slot :: "consumer \<Rightarrow> string option" where
  "slot (Probing _ _ r _) = Some (res_provider r)"
| "slot (Returning _ r _) = Some (res_provider r)"
| "slot (Sending _ d) = Some (res_provider (rd_reservation d))"
| "slot (Recording _ d _ _ _) = Some (res_provider (rd_reservation d))"
| "slot (Settling _ d _) = Some (res_provider (rd_reservation d))"
| "slot _ = None"

text \<open>Candidates are configured providers; \<open>Requeueing\<close> is the way of an exception.\<close>

abbreviation known :: "settings \<Rightarrow> provider_config list \<Rightarrow> bool" where
  "known s cfgs \<equiv> list_all (\<lambda>cfg. provider s (prov_name cfg) = Some cfg) cfgs"

fun consumer_ok :: "settings \<Rightarrow> consumer \<Rightarrow> bool" where
  "consumer_ok s (Scanning _ cfgs) = known s cfgs"
| "consumer_ok s (Reserving _ n cfgs) \<longleftrightarrow> provider s n \<noteq> None \<and> known s cfgs"
| "consumer_ok s (Probing _ n _ cfgs) \<longleftrightarrow> provider s n \<noteq> None \<and> known s cfgs"
| "consumer_ok s (Returning _ _ cfgs) = known s cfgs"
| "consumer_ok s (Sending _ d) \<longleftrightarrow> provider s (rd_provider d) \<noteq> None"
| "consumer_ok s (Requeueing _) = False"
| "consumer_ok s _ = True"

lemma next_round_held [simp]: "held_id (next_round s j w) = Some (j_mid j)" "slot (next_round s j w) = None"
  by (simp_all add: next_round_def split: nat.split)

lemma next_round_ok: "valid_settings s \<Longrightarrow> consumer_ok s (next_round s j w)"
  by (simp add: next_round_def enabled_known split: nat.split)

text \<open>What a step of a consumer does to the world, seen from the rest of the system.\<close>

definition slot_diff :: "consumer \<Rightarrow> consumer \<Rightarrow> (string \<Rightarrow> int) \<Rightarrow> string \<Rightarrow> int" where
  "slot_diff c c' f = (\<lambda>p. f p - of_bool (slot c = Some p) + of_bool (slot c' = Some p))"

definition passes :: "consumer \<Rightarrow> consumer \<Rightarrow> world \<Rightarrow> world \<Rightarrow> bool" where
  "passes c c' w w' \<longleftrightarrow>
     queue w' = queue w \<and> spool w' = spool w \<and> db_keys (db w') \<and> capacity_ok w' \<and>
     map payload (messages (db w')) = map payload (messages (db w)) \<and> accounts (db w') = accounts (db w) \<and>
     inflight w' = slot_diff c c' (inflight w) \<and>
     (held_id c' = held_id c \<and> sending_ids w' = sending_ids w \<or>
      c' = Waiting \<and> sending_ids w' = sending_ids w - set_option (held_id c))"

lemma slot_diff_same [simp]: "slot c' = slot c \<Longrightarrow> slot_diff c c' f = f"
  by (simp add: slot_diff_def)

lemma passes_route:
  assumes "route_frame w w'" "capacity_ok w'" "db_keys (db w)" "held_id c' = held_id c" "inflight w' = slot_diff c c' (inflight w)"
  shows "passes c c' w w'"
  using assms by (simp add: passes_def route_frame_def sending_ids_def) (simp add: db_keys_def capacity_ok_def)

lemma row_changed_sending:
  assumes "row_changed k w m m' w'" "status m' \<noteq> SENDING" "db_keys (db w)" "db_keys (db w')"
  shows "sending_ids w' = sending_ids w - {k}"
proof -
  have "i \<in> sending_ids w' \<longleftrightarrow> i \<in> sending_ids w - {k}" for i
    using assms(1,2) by (cases "i = k") (simp_all add: row_changed_def sending_iff [OF assms(3)] sending_iff [OF assms(4)])
  then show ?thesis by blast
qed

lemma passes_done:
  assumes r: "row_changed k w m m' w'" and n: "status m' \<noteq> SENDING" and f: "store_frame w w'"
    and h: "held_id c = Some k" "slot c = None" and k: "db_keys (db w)" and c: "capacity_ok w"
  shows "passes c Waiting w w'"
proof -
  have ids: "map msg_id (messages (db w')) = map msg_id (messages (db w))" using r by (simp add: row_changed_def)
  have "db_keys (db w')" using k ids store_frame_db [OF f] by (simp add: db_keys_def) (metis set_map)
  then show ?thesis
    using row_changed_sending [OF r n k] r f h c store_capacity_ok [OF f] store_frame_fields [OF f] store_frame_db(6) [OF f]
    by (simp add: passes_def row_changed_def)
qed

lemma concluded_row:
  assumes "msg_of w k = Some m"
  obtains m' where "row_changed k w m m' (handle_no_success e s k sn st w)" "status m' \<noteq> SENDING"
    "store_frame w (handle_no_success e s k sn st w)"
proof -
  have t: "msg_of (w\<lparr>tick := n\<rparr>) k = Some m" for n using assms by (simp add: msg_of_def)
  have c: "row_changed k (w\<lparr>tick := n\<rparr>) m m' w' = row_changed k w m m' w'" for n m' w' by (simp add: row_changed_def msg_of_def)
  have R: "\<exists>m'. row_changed k w m m' (reschedule e k d err b (w\<lparr>tick := n\<rparr>)) \<and> status m' \<noteq> SENDING" for d err b n
    using reschedule_row [OF t [of n], of e d err b] unfolding c by (metis message_status.distinct(1))
  have D: "\<exists>m'. row_changed k w m m' (deadletter k r dt (w\<lparr>tick := n\<rparr>)) \<and> status m' \<noteq> SENDING" for r dt n
    using deadletter_row [OF t [of n], of r dt] unfolding c by (metis message_status.distinct(9))
  have F: "store_frame w (reschedule e k d err b (w\<lparr>tick := n\<rparr>))" "store_frame w (deadletter k r dt (w\<lparr>tick := n\<rparr>))"
    if "tick w \<le> n" for d err b r dt n
    using that reschedule_store deadletter_store store_frame_tick by blast+
  obtain w' where w': "handle_no_success e s k sn st w = w'" by blast
  from w' have "(\<exists>m'. row_changed k w m m' w' \<and> status m' \<noteq> SENDING) \<and> store_frame w w'"
  proof (cases rule: handle_no_success_cases)
    case hold
    then show ?thesis using R [of _ _ _ "tick w"] F(1) [of "tick w"] by simp
  next
    case reject
    then show ?thesis using D [of _ _ "tick w"] F(2) [of "tick w"] by simp
  next
    case give_up
    then show ?thesis using D [of _ _ "tick w"] F(2) [of "tick w"] by simp
  next
    case (late i n)
    then show ?thesis using D [of _ _ i] F(2) [of i] by simp
  next
    case (again i)
    then show ?thesis using R [of _ _ _ i] F(1) [of i] by simp
  qed
  then show thesis using that w' by blast
qed

section \<open>One step of a consumer\<close>

lemma tick_route: "route_frame w (w\<lparr>tick := Suc (tick w)\<rparr>)"
  by (simp add: route_frame_def)

lemma metrics_passes: "passes c c' w (w'\<lparr>metrics := k\<rparr>) = passes c c' w w'"
  by (simp add: passes_def sending_ids_def)

lemma passes_metrics: "passes c c' (w\<lparr>metrics := k\<rparr>) w' = passes c c' w w'"
  by (simp add: passes_def sending_ids_def)

lemma free_slot_diff:
  assumes "slot c = Some p" "slot c' = None" "1 \<le> f p"
  shows "slot_diff c c' f = f(p := max 0 (f p - 1))"
  using assms by (auto simp: slot_diff_def fun_eq_iff)

lemma take_slot_diff:
  assumes "slot c = None" "slot c' = Some p"
  shows "slot_diff c c' f = f(p := f p + 1)"
  using assms by (auto simp: slot_diff_def fun_eq_iff)

text \<open>A message that is being sent, in a consistent world.\<close>

definition sending_at :: "world \<Rightarrow> int \<Rightarrow> bool" where
  "sending_at w k \<longleftrightarrow> capacity_ok w \<and> db_keys (db w) \<and> k \<in> sending_ids w"

lemma sending_atD:
  assumes "sending_at w k"
  shows "capacity_ok w" "db_keys (db w)"
  using assms by (simp_all add: sending_at_def)

lemma sending_at_row:
  assumes "sending_at w k"
  obtains m where "msg_of w k = Some m" "status m = SENDING"
  using assms sending_iff [of w k] by (auto simp: sending_at_def)

lemma passes_ahead:
  assumes "sending_at w k" "route_frame w w'" "capacity_ok w'" "held_id c' = held_id c" "inflight w' = slot_diff c c' (inflight w)"
  shows "passes c c' w w'"
  using passes_route [OF assms(2,3) sending_atD(2) [OF assms(1)] assms(4,5)] .

lemma breaker_passes:
  assumes "sending_at w k" "breaker_frame w w'" "held_id c' = held_id c" "slot c' = slot c"
  shows "passes c c' w w'"
  by (rule passes_ahead [OF assms(1) breaker_route_frame [OF assms(2)] _ assms(3)])
    (simp_all add: breaker_capacity_ok [OF assms(2)] sending_atD [OF assms(1)] breaker_frame_fields(1) [OF assms(2)] assms(4))

lemma tick_passes:
  assumes "sending_at w k" "held_id c' = held_id c" "slot c' = slot c"
  shows "passes c c' w (w\<lparr>tick := Suc (tick w)\<rparr>)"
  by (rule passes_ahead [OF assms(1) tick_route _ assms(2)]) (simp_all add: sending_atD [OF assms(1)] assms(3))

lemma resume_started:
  assumes at: "sending_at w k" and s: "valid_settings s" and run: "resume e s (Started k) w = (c', w')"
  shows "passes (Started k) c' w w' \<and> consumer_ok s c'"
proof -
  obtain m where "msg_of w k = Some m" "status m = SENDING" using sending_at_row [OF at] .
  then have "w' = w\<lparr>tick := Suc (tick w)\<rparr> \<and> held_id c' = Some k \<and> slot c' = None \<and> consumer_ok s c'"
    using run next_round_ok [OF s]
    by (auto simp: is_terminal_def utcnow_def Let_def split: sum.splits if_splits)
  then show ?thesis using tick_passes [OF at] by simp
qed

lemma resume_scanning:
  assumes at: "sending_at w k" and run: "resume e s (Scanning j cfgs) w = (c', w')" "known s cfgs"
  shows "passes (Scanning j cfgs) c' w w' \<and> consumer_ok s c'"
proof (cases cfgs)
  case Nil
  then show ?thesis using run breaker_passes [OF at breaker_frame_refl] by auto
next
  case (Cons cfg rest)
  have "breaker_frame w (snd (is_available e (circuit_breaker s) (prov_name cfg) w))" by (rule is_available_breaker_frame)
  then have "breaker_frame w w' \<and> held_id c' = Some (j_mid j) \<and> slot c' = None \<and> consumer_ok s c'"
    using run breaker_frame_refl [of w] by (auto simp: Cons prod.case_eq_if Let_def split: if_splits)
  then show ?thesis using breaker_passes [OF at] by simp
qed

lemma resume_reserving:
  assumes at: "sending_at w k" and run: "resume e s (Reserving j name cfgs) w = (c', w')" "provider s name \<noteq> None" "known s cfgs"
  shows "passes (Reserving j name cfgs) c' w w' \<and> consumer_ok s c'"
proof -
  obtain res where r: "try_reserve e s name w = (res, w')"
    using run(1) by (auto split: prod.splits sum.splits option.splits)
  have f: "route_frame w w'" using limiter_route_frame [OF try_reserve_limiter_frame [of w e s name]] r by simp
  show ?thesis
  proof (cases res)
    case (Inl x)
    then show ?thesis using r run(2) by (auto simp: try_reserve_unfold split: if_splits)
  next
    case (Inr o1)
    show ?thesis
    proof (cases o1)
      case None
      then have "c' = Scanning j cfgs" "w' = w \<or> w' = w\<lparr>tick := Suc (Suc (tick w))\<rparr>"
        using run(1) r Inr try_reserve_NoneD [of e s name w w'] by auto
      then show ?thesis using run(3) f sending_atD(1) [OF at] by (auto intro!: passes_ahead [OF at])
    next
      case (Some r1)
      then have c: "c' = Probing j name r1 cfgs" using run(1) r Inr by simp
      have t: "try_reserve e s name w = (Inr (Some r1), w')" using r Inr Some by simp
      obtain cfg where "provider s name = Some cfg" "can_reserve (limits cfg) name (clock e (tick w)) (clock e (Suc (tick w))) w" and
        w': "r1 = new_reservation (limits cfg) name (clock e (tick w)) w" "w' = reserved_world e (limits cfg) name w"
        by (rule try_reserve_SomeD [OF t])
      have "inflight w' = slot_diff (Reserving j name cfgs) c' (inflight w)"
        by (subst take_slot_diff [where p = name]) (simp_all add: c w' reserved_world_inflight new_reservation_provider)
      then show ?thesis using passes_ahead [OF at f reserve_capacity_ok [OF t sending_atD(1) [OF at]]] c run(2,3) by simp
    qed
  qed
qed

lemma resume_probing:
  assumes at: "sending_at w k" and run: "resume e s (Probing j name r cfgs) w = (c', w')" "provider s name \<noteq> None" "known s cfgs"
  shows "passes (Probing j name r cfgs) c' w w' \<and> consumer_ok s c'"
proof -
  have "w' = snd (begin_probe e (circuit_breaker s) name w)" "held_id c' = Some (j_mid j)" "slot c' = Some (res_provider r)" "consumer_ok s c'"
    using run by (auto simp: Let_def prod.case_eq_if split: if_splits)
  then show ?thesis using breaker_passes [OF at begin_probe_breaker_frame [of w e]] by simp
qed

lemma resume_freeing:
  assumes at: "sending_at w k" and sl: "slot c = Some (res_provider r)" "1 \<le> inflight w (res_provider r)" and c': "held_id c' = held_id c" "slot c' = None"
  shows "passes c c' w (release e r w)" "passes c c' w (commit r w)"
  using free_slot_diff [OF sl(1) c'(2)] sl(2) sending_atD(1) [OF at]
  by (auto intro!: passes_ahead [OF at _ _ c'(1)] release_route commit_route
      simp: release_capacity_ok commit_capacity_ok release_inflight commit_inflight)

lemma resume_sending:
  assumes at: "sending_at w k" and s: "valid_settings s" and e: "smtp_only e"
    and run: "resume e s (Sending j d) w = (c', w')" "provider s (rd_provider d) \<noteq> None"
  shows "passes (Sending j d) c' w w' \<and> consumer_ok s c'"
proof -
  obtain cfg where "registry_get s (rd_provider d) = Some cfg" using run(2) registry_known [OF s] by auto
  then obtain r where "relay e (registry_get s (rd_provider d)) (sn_from_addr (j_snap j)) (sn_rcpt_to (j_snap j)) (j_raw j)
      (w\<lparr>tick := Suc (tick w)\<rparr>) = Inr r" using relay_total [OF e] by metis
  then have "w' = w\<lparr>tick := Suc (tick w)\<rparr> \<and> held_id c' = Some (j_mid j) \<and> slot c' = Some (res_provider (rd_reservation d)) \<and> consumer_ok s c'"
    using run(1) by (auto simp: utcnow_def Let_def)
  then show ?thesis using tick_passes [OF at] by simp
qed

lemma resume_recording:
  assumes at: "sending_at w (j_mid j)" and run: "resume e s (Recording j d no started r) w = (c', w')"
  shows "passes (Recording j d no started r) c' w w' \<and> consumer_ok s c'"
proof -
  obtain m where "msg_of w (j_mid j) = Some m" using sending_at_row [OF at] .
  then have i: "j_mid j \<in> msg_id ` set (messages (db w))" by (rule msg_of_in)
  obtain row where w': "w' = w\<lparr>tick := Suc (tick w), db := (db w)\<lparr>delivery_attempts := delivery_attempts (db w) @ [row]\<rparr>\<rparr>"
    "att_id row = next_rowid att_id (delivery_attempts (db w))" "att_message_id row = j_mid j"
    "held_id c' = Some (j_mid j) \<and> slot c' = Some (res_provider (rd_reservation d)) \<and> consumer_ok s c'"
    using run record_attempt_unfold [OF i, of e no "rd_provider d" started r] by auto
  have "db_keys (db w')" using sending_atD(2) [OF at] i next_rowid_notin [of att_id "delivery_attempts (db w)"]
    by (auto simp: db_keys_def w')
  moreover have "capacity_ok w'" using sending_atD(1) [OF at] by (simp add: w' capacity_ok_def quota_nonneg_def quota_of_def)
  ultimately show ?thesis using w' by (simp add: passes_def sending_ids_def)
qed

lemma resume_settling:
  assumes at: "sending_at w k" and run: "resume e s (Settling j d r) w = (c', w')" "1 \<le> inflight w (res_provider (rd_reservation d))"
  shows "passes (Settling j d r) c' w w' \<and> consumer_ok s c'"
proof -
  let ?r = "rd_reservation d" and ?c = "Settling j d r"
  let ?v = "w\<lparr>metrics := (metrics w)\<lparr>messages_failed := bump_label (messages_failed (metrics w)) (rd_provider d, classification r)\<rparr>\<rparr>"
  have v: "sending_at ?v k" using at by (simp add: sending_at_def sending_ids_def)
  have "w' = commit ?r w \<or> w' = commit ?r ?v \<or> w' = release e ?r ?v" and c': "\<exists>j'. c' = Judging j' d r \<and> j_mid j' = j_mid j"
    using run(1) by (auto simp: Let_def split: if_splits)
  moreover have "passes ?c c' w (commit ?r w)"
    by (rule resume_freeing(2) [OF at]) (use c' run(2) in auto)
  moreover have "passes ?c c' ?v (commit ?r ?v)"
    by (rule resume_freeing(2) [OF v]) (use c' run(2) in auto)
  moreover have "passes ?c c' ?v (release e ?r ?v)"
    by (rule resume_freeing(1) [OF v]) (use c' run(2) in auto)
  ultimately show ?thesis using c' passes_metrics [of ?c c'] by auto
qed

lemma resume_judging:
  assumes at: "sending_at w k" and s: "valid_settings s" and run: "resume e s (Judging j d r) w = (c', w')"
  shows "passes (Judging j d r) c' w w' \<and> consumer_ok s c'"
proof -
  have "breaker_frame w w' \<and> held_id c' = Some (j_mid j) \<and> slot c' = None \<and> consumer_ok s c'"
    using run next_round_ok [OF s] record_failure_breaker_frame record_success_breaker_frame
    by (auto simp: Let_def split: if_splits)
  then show ?thesis using breaker_passes [OF at] by simp
qed

lemma passes_end:
  assumes at: "sending_at w k" and r: "row_changed k w m m' w'" "status m' \<noteq> SENDING" "store_frame w w'" and c: "held_id c = Some k" "slot c = None"
  shows "passes c Waiting w w'"
  by (rule passes_done [OF r c sending_atD(2) [OF at] sending_atD(1) [OF at]])

lemma resume_dropping:
  assumes at: "sending_at w k" and run: "resume e s (Dropping k reason dt) w = (c', w')"
  shows "passes (Dropping k reason dt) c' w w' \<and> consumer_ok s c'"
proof -
  obtain m where m: "msg_of w k = Some m" using sending_at_row [OF at] .
  obtain m' where "row_changed k w m m' (deadletter k reason dt w)" "status m' = DEADLETTER" using deadletter_row [OF m] .
  then show ?thesis using run passes_end [OF at _ _ deadletter_store] by auto
qed

lemma resume_marking:
  assumes at: "sending_at w (j_mid j)" and run: "resume e s (Marking j d) w = (c', w')"
  shows "passes (Marking j d) c' w w' \<and> consumer_ok s c'"
proof -
  obtain m where m: "msg_of w (j_mid j) = Some m" using sending_at_row [OF at] .
  have "row_changed (j_mid j) w m (m\<lparr>status := SENT, provider_used := Some (rd_provider d), sent_at := Some (clock e (tick w)), last_error := None\<rparr>)
      (mark_sent e (j_mid j) (rd_provider d) w)"
    using sent.changes_row [of w "(j_mid j, rd_provider d)" m e] m by simp
  from passes_end [OF at this _ mark_sent_store, of "Marking j d"] show ?thesis using run by (auto simp: Let_def metrics_passes)
qed

lemma resume_concluding:
  assumes at: "sending_at w (j_mid j)" and run: "resume e s (Concluding j) w = (c', w')"
  shows "passes (Concluding j) c' w w' \<and> consumer_ok s c'"
proof -
  obtain m where m: "msg_of w (j_mid j) = Some m" using sending_at_row [OF at] .
  obtain m' where "row_changed (j_mid j) w m m' (handle_no_success e s (j_mid j) (j_snap j) (j_tick j) w)" "status m' \<noteq> SENDING"
    "store_frame w (handle_no_success e s (j_mid j) (j_snap j) (j_tick j) w)" by (rule concluded_row [OF m])
  from passes_end [OF at this, of "Concluding j"] show ?thesis using run by auto
qed

lemma resume_passes:
  assumes at: "sending_at w k" and s: "valid_settings s" and e: "smtp_only e" and ok: "consumer_ok s c" and h: "held_id c = Some k"
    and sl: "\<forall>p. slot c = Some p \<longrightarrow> 1 \<le> inflight w p" and run: "resume e s c w = (c', w')"
  shows "passes c c' w w' \<and> consumer_ok s c'"
proof (cases c)
  case (Returning j r cfgs)
  then show ?thesis using run resume_freeing(1) [OF at, of c r "Scanning j cfgs"] sl ok by auto
next
  case (Recording j d no started r)
  then show ?thesis using resume_recording [of w j e s] run h at by (simp del: resume.simps)
next
  case (Marking j d)
  then show ?thesis using resume_marking [of w j e s] run h at by (simp del: resume.simps)
next
  case (Concluding j)
  then show ?thesis using resume_concluding [of w j e s] run h at by (simp del: resume.simps)
next
  case (Sending j d)
  then show ?thesis using resume_sending [OF at s e] run ok by (simp del: resume.simps)
next
  case (Scanning j cfgs)
  then show ?thesis using resume_scanning [OF at] run ok by (simp del: resume.simps)
next
  case (Started i)
  then show ?thesis using resume_started [OF at s] run h by (simp del: resume.simps)
next
  case (Dropping i reason dt)
  then show ?thesis using resume_dropping [OF at] run h by (simp del: resume.simps)
next
  case (Reserving j n cfgs)
  then show ?thesis using resume_reserving [OF at, of e s j n cfgs c' w'] run ok by (simp del: resume.simps)
next
  case (Probing j n r cfgs)
  then show ?thesis using resume_probing [OF at, of e s j n r cfgs c' w'] run ok by (simp del: resume.simps)
next
  case (Settling j d r)
  then show ?thesis using resume_settling [OF at] run sl by (simp del: resume.simps)
next
  case (Judging j d r)
  then show ?thesis using resume_judging [OF at s] run by (simp del: resume.simps)
qed (use h ok in simp_all)

section \<open>A turn is finite\<close>

text \<open>How many steps a consumer has before it at most: four for a candidate that is looked at in vain and
  six for a round of the loop besides.\<close>

definition round_steps :: "settings \<Rightarrow> nat \<Rightarrow> nat" where
  "round_steps s n = 1 + n * (4 * length (registry_all s) + 6)"

fun rank :: "settings \<Rightarrow> consumer \<Rightarrow> nat" where
  "rank s Waiting = 0"
| "rank s (Started _) = Suc (round_steps s (nat (failover_per_tick (dispatch s))))"
| "rank s (Scanning j cfgs) = round_steps s (j_left j) + 4 * length cfgs + 6"
| "rank s (Reserving j _ cfgs) = round_steps s (j_left j) + 4 * length cfgs + 9"
| "rank s (Probing j _ _ cfgs) = round_steps s (j_left j) + 4 * length cfgs + 8"
| "rank s (Returning j _ cfgs) = round_steps s (j_left j) + 4 * length cfgs + 7"
| "rank s (Sending j _) = round_steps s (j_left j) + 4"
| "rank s (Recording j _ _ _ _) = round_steps s (j_left j) + 3"
| "rank s (Settling j _ _) = round_steps s (j_left j) + 2"
| "rank s (Judging j _ _) = round_steps s (j_left j) + 1"
| "rank s _ = 1"

lemma rank_next_round: "rank s (next_round s j w) \<le> round_steps s (j_left j)"
proof -
  have "length (enabled_providers s w) \<le> length (registry_all s)" by (simp add: enabled_providers_def)
  then show ?thesis by (auto simp: next_round_def round_steps_def split: nat.split)
qed

lemma rank_positive: "c \<noteq> Waiting \<Longrightarrow> 0 < rank s c"
  by (cases c) simp_all

lemma round_steps_pos: "0 < round_steps s n"
  by (simp add: round_steps_def)

lemma resume_descends:
  assumes "c \<noteq> Waiting"
  shows "rank s (fst (resume e s c w)) < rank s c"
proof (cases "(e, s, c, w)" rule: resume.cases)
  case (2 e s k w)
  then show ?thesis using rank_next_round [of s "\<lparr>j_mid = k, j_snap = _, j_raw = _, j_left = nat (failover_per_tick (dispatch s)), j_tick = fresh_tick\<rparr>"]
    by (auto simp: Let_def utcnow_def round_steps_pos less_Suc_eq_le Suc_le_eq split: option.split sum.split)
next
  case (12 e s j d r w)
  have "rank s (next_round s j v) < Suc (round_steps s (j_left j))" for v using rank_next_round [of s j v] by simp
  then show ?thesis using 12 round_steps_pos [of s "j_left j"] by (simp add: Let_def)
qed (use assms in \<open>auto simp: Let_def round_steps_pos split: option.split sum.split prod.split\<close>)

text \<open>A consumer that at its \<open>i\<close>-th step finds the world that the other tasks left, \<open>ws i\<close>.\<close>

primrec among :: "'e relay_env_scheme \<Rightarrow> settings \<Rightarrow> (nat \<Rightarrow> world) \<Rightarrow> consumer \<Rightarrow> nat \<Rightarrow> consumer" where
  "among e s ws c 0 = c"
| "among e s ws c (Suc i) = fst (resume e s (among e s ws c i) (ws i))"

lemma among_waiting: "among e s ws Waiting i = Waiting"
  by (induction i) simp_all

lemma among_descends: "rank s (among e s ws c i) \<le> rank s c - i"
proof (induction i)
  case (Suc i)
  show ?case
  proof (cases "among e s ws c i = Waiting")
    case False
    then show ?thesis using Suc resume_descends [OF False, of s e "ws i"] by simp
  qed simp
qed simp

text \<open>Claim C21: a consumer's turn ends, whatever the other tasks do in between. From the moment it took a
  message it is back at the queue after at most two steps and \<open>4 n + 6\<close> for each of the
  \<open>failover_per_tick\<close> rounds, with \<open>n\<close> providers.\<close>

theorem consumer_turn_is_bounded:
  "among e s ws (Started k) (2 + nat (failover_per_tick (dispatch s)) * (4 * length (registry_all s) + 6)) = Waiting"
  using among_descends [of s e ws "Started k" "2 + nat (failover_per_tick (dispatch s)) * (4 * length (registry_all s) + 6)"]
    rank_positive [of "among e s ws (Started k) (2 + nat (failover_per_tick (dispatch s)) * (4 * length (registry_all s) + 6))" s]
  by (auto simp: round_steps_def)

section \<open>All tasks\<close>

text \<open>The state: the world, the claimed ids that are not yet in the queue, and the consumers.\<close>

type_synonym tasks_state = "world \<times> int list \<times> consumer list"

definition idle_consumers :: "settings \<Rightarrow> consumer list" where
  "idle_consumers s = replicate (nat (workers (dispatch s))) Waiting"

definition helds :: "consumer list \<Rightarrow> int list" where
  "helds cs = concat (map (\<lambda>c. case held_id c of None \<Rightarrow> [] | Some k \<Rightarrow> [k]) cs)"

text \<open>What \<open>stop\<close> does to the consumers: each is cancelled where it stands and puts its message back.\<close>

definition dispatcher_cancelled :: "consumer list \<Rightarrow> world \<Rightarrow> world" where
  "dispatcher_cancelled cs = fold requeue_now (helds cs)"

text \<open>A consumer takes a message from the queue or goes on to its next await; \<open>restart\<close> is a crash,
  \<open>stop\<close> an orderly shutdown, each with the start that follows.\<close>

inductive task_step ::
  "'e relay_env_scheme \<Rightarrow> settings \<Rightarrow> (message list \<Rightarrow> message list) \<Rightarrow> tasks_state \<Rightarrow> tasks_state \<Rightarrow> bool"
  for e s scan where
  claim: "producer_claim e s w = (w', pend) \<Longrightarrow> task_step e s scan (w, [], cs) (w', pend, cs)"
| put: "int (length (queue w)) < queue_maxsize s \<Longrightarrow>
    task_step e s scan (w, mid # pend, cs) (producer_put mid w, pend, cs)"
| take: "i < length cs \<Longrightarrow> cs ! i = Waiting \<Longrightarrow> queue w = k # rest \<Longrightarrow>
    task_step e s scan (w, pend, cs) (w\<lparr>queue := rest\<rparr>, pend, cs[i := Started k])"
| run: "i < length cs \<Longrightarrow> resume e s (cs ! i) w = (c', w') \<Longrightarrow>
    task_step e s scan (w, pend, cs) (w', pend, cs[i := c'])"
| housekeep: "task_step e s scan (w, pend, cs) (housekeeping_turn e s scan g w, pend, cs)"
| toggle: "task_step e s scan (w, pend, cs) (snd (set_enabled e s name en nt w), pend, cs)"
| notify: "task_step e s scan (w, pend, cs) (notify_new_message w, pend, cs)"
| wait: "task_step e s scan (w, pend, cs) (w\<lparr>tick := Suc (tick w)\<rparr>, pend, cs)"

inductive tasks_step ::
  "'e relay_env_scheme \<Rightarrow> settings \<Rightarrow> (message list \<Rightarrow> message list) \<Rightarrow> tasks_state \<Rightarrow> tasks_state \<Rightarrow> bool"
  for e s scan where
  task: "task_step e s scan st st' \<Longrightarrow> tasks_step e s scan st st'"
| restart: "tasks_step e s scan (w, pend, cs) (app_start w, [], idle_consumers s)"
| stop: "tasks_step e s scan (w, pend, cs) (app_start (dispatcher_cancelled cs w), [], idle_consumers s)"

definition slots :: "consumer list \<Rightarrow> string \<Rightarrow> int" where
  "slots cs p = count_where (\<lambda>c. slot c = Some p) cs"

text \<open>The invariant of \<open>Dispatcher\<close> with the messages and slots that the consumers have.\<close>

definition tasks_ok :: "settings \<Rightarrow> tasks_state \<Rightarrow> bool" where
  "tasks_ok s = (\<lambda>(w, pend, cs).
     dispatcher_at (slots cs) s (w, pend @ helds cs) \<and> exact (w, pend @ helds cs) \<and> list_all (consumer_ok s) cs)"

definition tasks_init :: "settings \<Rightarrow> tasks_state \<Rightarrow> bool" where
  "tasks_init s = (\<lambda>(w, pend, cs). dispatcher_init (w, pend) \<and> cs = idle_consumers s)"

lemma helds_app [simp]:
  "helds [] = []" "helds (xs @ ys) = helds xs @ helds ys"
  "helds (c # cs) = (case held_id c of None \<Rightarrow> [] | Some k \<Rightarrow> [k]) @ helds cs"
  by (simp_all add: helds_def)

lemma slots_app: "slots (xs @ c # ys) p = slots xs p + slots ys p + of_bool (slot c = Some p)"
  by (simp add: slots_def count_where_append count_where_Cons)

lemma idle_consumers [simp]:
  "helds (idle_consumers s) = []" "slots (idle_consumers s) = (\<lambda>_. 0)" "list_all (consumer_ok s') (idle_consumers s)"
  by (simp_all add: helds_def slots_def fun_eq_iff count_where_def idle_consumers_def list_all_iff)

lemma split_at:
  assumes "i < length cs"
  obtains xs ys where "cs = xs @ cs ! i # ys" "\<And>c. cs[i := c] = xs @ c # ys"
  using that [of "take i cs" "drop (Suc i) cs"] assms id_take_nth_drop [OF assms] upd_conv_take_nth_drop [OF assms] by simp

lemma held_id_None: "held_id c = None \<longleftrightarrow> c = Waiting"
  by (cases c) simp_all

lemma cancelled_ok:
  assumes "db_keys (db w)" "quota_nonneg w" "bodies_ok w"
  shows "db_keys (db (dispatcher_cancelled cs w))" "quota_nonneg (dispatcher_cancelled cs w)" "bodies_ok (dispatcher_cancelled cs w)"
proof -
  have one: "db_keys (db (requeue_now k v)) \<and> quota_nonneg (requeue_now k v) \<and> bodies_ok (requeue_now k v)"
    if v: "db_keys (db v)" "quota_nonneg v" "bodies_ok v" for k v
  proof -
    have ids: "map msg_id (messages (db (requeue_now k v))) = map msg_id (messages (db v))"
      by (simp add: requeue_now_def map_update_where)
    have "db_keys (db (requeue_now k v))" using v(1) ids by (simp add: db_keys_def requeue_now_def) (metis set_map)
    moreover have "bodies_ok (requeue_now k v)"
      by (rule bodies_ok_payload [OF v(3)]) (simp_all add: requeue_now_def map_update_where payload_def)
    ultimately show ?thesis using v(2) by (simp add: quota_nonneg_def quota_of_def requeue_now_def)
  qed
  have "db_keys (db (fold requeue_now ks w)) \<and> quota_nonneg (fold requeue_now ks w) \<and> bodies_ok (fold requeue_now ks w)" for ks
    using assms by (induction ks arbitrary: w) (use one in simp_all)
  then show "db_keys (db (dispatcher_cancelled cs w))" "quota_nonneg (dispatcher_cancelled cs w)" "bodies_ok (dispatcher_cancelled cs w)"
    by (simp_all add: dispatcher_cancelled_def)
qed

text \<open>A step of one consumer among the others.\<close>

lemma run_passes:
  assumes ok: "tasks_ok s (w, pend, xs @ c # ys)" and s: "valid_settings s" and e: "smtp_only e" and run: "resume e s c w = (c', w')"
    and h: "held_id c = Some k"
  shows "passes c c' w w' \<and> consumer_ok s c'"
proof -
  have at: "dispatcher_at (slots (xs @ c # ys)) s (w, pend @ helds (xs @ c # ys))"
    and ex: "exact (w, pend @ helds (xs @ c # ys))" and cs: "consumer_ok s c"
    using ok by (simp_all add: tasks_ok_def)
  have "sending_at w k" using at ex h by (simp add: sending_at_def dispatcher_at_def exact_def)
  moreover have "1 \<le> inflight w p" if "slot c = Some p" for p
    using at that by (simp add: dispatcher_at_def slots_app) (simp add: slots_def)
  ultimately show ?thesis using resume_passes [OF _ s e cs h _ run] by auto
qed

lemma run_ok:
  assumes ok: "tasks_ok s (w, pend, xs @ c # ys)" and s: "valid_settings s" and e: "smtp_only e" and run: "resume e s c w = (c', w')"
  shows "tasks_ok s (w', pend, xs @ c' # ys)"
proof (cases "held_id c")
  case None
  then show ?thesis using ok run by (simp add: held_id_None)
next
  case (Some k)
  have at: "dispatcher_at (slots (xs @ c # ys)) s (w, pend @ helds (xs @ c # ys))"
    and ex: "exact (w, pend @ helds (xs @ c # ys))" and cs: "list_all (consumer_ok s) xs" "list_all (consumer_ok s) ys"
    using ok by (simp_all add: tasks_ok_def)
  have P: "passes c c' w w'" "consumer_ok s c'" using run_passes [OF ok s e run Some] by simp_all
  have "slot_diff c c' (slots (xs @ c # ys)) = slots (xs @ c' # ys)" by (simp add: slot_diff_def slots_app fun_eq_iff)
  then have f: "inflight w' = slots (xs @ c' # ys)" using P(1) at by (simp add: passes_def dispatcher_at_def)
  have b: "bodies_ok w'" by (rule bodies_ok_payload [of w]) (use P(1) at in \<open>simp_all add: passes_def dispatcher_at_def\<close>)
  have "in_hand (w', pend @ helds (xs @ c' # ys)) \<and> exact (w', pend @ helds (xs @ c' # ys))"
    using P(1) at ex Some by (auto simp: passes_def dispatcher_at_def in_hand_def exact_def)
  then show ?thesis using P at cs f b by (simp add: tasks_ok_def dispatcher_at_def passes_def)
qed

lemma take_ok:
  assumes ok: "tasks_ok s (w, pend, xs @ Waiting # ys)" and q: "queue w = k # rest"
  shows "tasks_ok s (w\<lparr>queue := rest\<rparr>, pend, xs @ Started k # ys)"
proof -
  let ?w = "w\<lparr>queue := rest\<rparr>"
  have "slots (xs @ Started k # ys) = slots (xs @ Waiting # ys)" by (simp add: slots_app fun_eq_iff)
  moreover have "capacity_ok ?w = capacity_ok w" "bodies_ok ?w = bodies_ok w" using capacity_ok_same [of ?w w] by (simp_all add: bodies_ok_def)
  moreover have "mset (rest @ pend @ helds (xs @ Started k # ys)) = mset (queue w @ pend @ helds (xs @ Waiting # ys))" by (simp add: q)
  note mset_eq_setD [OF this] mset_eq_imp_distinct_iff [OF this]
  moreover have "sending_ids ?w = sending_ids w" by (simp add: sending_ids_def)
  ultimately show ?thesis using ok q by (simp add: tasks_ok_def dispatcher_at_def in_hand_def exact_def del: helds_app set_append distinct_append)
qed

lemma task_step_ok:
  assumes "task_step e s scan st st'" "valid_settings s" "smtp_only e" "scans scan" "tasks_ok s st"
  shows "tasks_ok s st'"
proof -
  have K: "tasks_ok s (w', pend', cs)" if "tasks_ok s (w, pend, cs)"
    "dispatcher_at (slots cs) s (w, pend @ helds cs) \<Longrightarrow> kept_at (slots cs) s (w, pend @ helds cs) (w', pend' @ helds cs)" for w pend cs w' pend'
    using that by (simp add: tasks_ok_def kept_at_def)
  show ?thesis
    using assms(1)
  proof cases
    case (claim w w' pend cs)
    then show ?thesis using K [of w "[]" cs w' pend] ok_claim [of _ s w "helds cs" e] assms(5) by simp
  next
    case (put w mid pend cs)
    then show ?thesis using K [of w "mid # pend" cs "producer_put mid w" pend] ok_put [of _ s w mid "pend @ helds cs"] assms(5) by simp
  next
    case (take i cs w k rest pend)
    then show ?thesis using assms(5) take_ok split_at [OF take(3)] by metis
  next
    case (run i cs w c' w' pend)
    then show ?thesis using assms(5) run_ok [OF _ assms(2,3) run(4)] split_at [OF run(3)] by metis
  next
    case (housekeep w pend cs g)
    then show ?thesis using K [of w pend cs _ pend] housekeeping_ok [OF _ assms(4), of _ s w "pend @ helds cs" e g] assms(5) by simp
  next
    case (toggle w pend cs name en nt)
    then show ?thesis using K [of w pend cs _ pend] toggle_ok [of _ s w "pend @ helds cs" e name en nt] assms(5) by simp
  next
    case (notify w pend cs)
    then show ?thesis using K [of w pend cs _ pend] notify_ok [of _ s w "pend @ helds cs"] assms(5) by simp
  next
    case (wait w pend cs)
    then show ?thesis using K [of w pend cs _ pend] wait_ok [of _ s w "pend @ helds cs" "Suc (tick w)"] assms(5) by simp
  qed
qed

lemma restart_tasks_ok:
  assumes "tasks_ok s (w, pend, cs)" "valid_settings s"
  shows "tasks_ok s (app_start w, [], idle_consumers s)" "tasks_ok s (app_start (dispatcher_cancelled cs w), [], idle_consumers s)"
proof -
  have ok: "db_keys (db w)" "quota_nonneg w" "bodies_ok w" using assms(1)
    by (simp_all add: tasks_ok_def dispatcher_at_def capacity_ok_def)
  show "tasks_ok s (app_start w, [], idle_consumers s)" "tasks_ok s (app_start (dispatcher_cancelled cs w), [], idle_consumers s)"
    using app_start_ok [OF ok queue_maxsize_pos [OF assms(2)]] app_start_ok [OF cancelled_ok [OF ok, of cs] queue_maxsize_pos [OF assms(2)]]
    by (simp_all add: tasks_ok_def)
qed

lemma tasks_step_ok:
  assumes "tasks_step e s scan st st'" "valid_settings s" "smtp_only e" "scans scan" "tasks_ok s st"
  shows "tasks_ok s st'"
  using assms(1)
proof cases
  case task
  then show ?thesis using task_step_ok [OF _ assms(2-5)] by simp
next
  case (restart w pend cs)
  then show ?thesis using restart_tasks_ok(1) [OF _ assms(2), of w pend cs] assms(5) by simp
next
  case (stop w pend cs)
  then show ?thesis using restart_tasks_ok(2) [OF _ assms(2), of w pend cs] assms(5) by simp
qed

definition tasks_inv ::
  "'e relay_env_scheme \<Rightarrow> settings \<Rightarrow> (message list \<Rightarrow> message list) \<Rightarrow> tasks_state \<Rightarrow> bool" where
  "tasks_inv e s scan st \<longleftrightarrow> (valid_settings s \<longrightarrow> smtp_only e \<longrightarrow> scans scan \<longrightarrow> tasks_ok s st)"

interpretation tasks_sys: invariant_system "tasks_init s" "tasks_step e s scan" "tasks_inv e s scan"
  for e s scan
proof
  show "tasks_inv e s scan st" if "tasks_init s st" for st
  proof -
    obtain w pend cs where st: "st = (w, pend, cs)" by (cases st) auto
    have "dispatcher_init (w, pend)" "cs = idle_consumers s" using that by (simp_all add: st tasks_init_def)
    then show ?thesis using app_start_ok queue_maxsize_pos
      by (auto simp: st tasks_inv_def tasks_ok_def dispatcher_init_def)
  qed
  show "tasks_inv e s scan st'" if "tasks_inv e s scan st" "tasks_step e s scan st st'" for st st'
    using that tasks_step_ok unfolding tasks_inv_def by blast
qed

lemma no_requeueing: "list_all (consumer_ok s) cs \<Longrightarrow> Requeueing k \<notin> set cs"
  by (auto simp: list_all_iff)

text \<open>Consumers that are interrupted at every await do not get in each other's way. Whatever
  the order in which the producer, the consumers' steps, housekeeping, operators, crashes and shutdowns happen,
  the ids in the producer's hands, in the queue and with the consumers are exactly the messages that
  are marked as being sent, each once; the number of slots taken of every provider is the number
  of consumers that have one; no consumer ends in an exception; the queue keeps its bound and every
  message its body.\<close>

theorem consumers_interleave_safely:
  assumes "valid_settings s" "smtp_only e" "scans scan" "tasks_init s st0" "(tasks_step e s scan)\<^sup>*\<^sup>* st0 (w, pend, cs)"
  shows "distinct (queue w @ pend @ helds cs) \<and> set (queue w @ pend @ helds cs) = sending_ids w \<and>
    inflight w = slots cs \<and> (\<forall>k. Requeueing k \<notin> set cs) \<and> int (length (queue w)) \<le> queue_maxsize s \<and>
    db_keys (db w) \<and> (\<forall>m \<in> set (messages (db w)). spool w (spool_path m) \<noteq> None)"
proof -
  have "tasks_ok s (w, pend, cs)"
    using tasks_sys.inv_reachable [OF assms(4,5)] assms(1-3) unfolding tasks_inv_def by blast
  then have ok: "dispatcher_at (slots cs) s (w, pend @ helds cs)" "exact (w, pend @ helds cs)" "list_all (consumer_ok s) cs"
    by (simp_all add: tasks_ok_def)
  have "distinct (queue w @ pend @ helds cs)" "set (queue w @ pend @ helds cs) = sending_ids w"
    using ok(1,2) unfolding dispatcher_at_def exact_def in_hand_def prod.case by (blast, blast)
  moreover have "inflight w = slots cs" "int (length (queue w)) \<le> queue_maxsize s" "db_keys (db w)" "bodies_ok w"
    using ok(1) unfolding dispatcher_at_def prod.case by blast+
  ultimately show ?thesis using no_requeueing [OF ok(3)] unfolding bodies_ok_def by blast
qed

theorem uninterrupted_consumer_is_turn_witness:
  "alone (demo_relay_env accepting) demo_settings (Started 1, demo_handed\<lparr>queue := [2]\<rparr>)
     (Waiting, consumer_turn (demo_relay_env accepting) demo_settings demo_handed)"
proof -
  have "queue demo_handed = [1, 2]" by code_simp
  then show ?thesis by (rule uninterrupted_consumer_is_turn)
qed

text \<open>Two consumers that have taken a message each.\<close>

definition demo_claim :: world where
  "demo_claim = fst (producer_claim (demo_relay_env accepting) demo_settings demo_start)"

definition demo_taken :: world where
  "demo_taken = (producer_put 2 ((producer_put 1 demo_claim)\<lparr>queue := []\<rparr>))\<lparr>queue := []\<rparr>"

lemma demo_taken_tasks:
  "(task_step (demo_relay_env accepting) demo_settings rev)\<^sup>*\<^sup>* (demo_start, [], idle_consumers demo_settings)
     (demo_taken, [], [Started 1, Started 2])"
proof -
  let ?step = "task_step (demo_relay_env accepting) demo_settings rev" and ?v = "(producer_put 1 demo_claim)\<lparr>queue := []\<rparr>"
  have idle: "idle_consumers demo_settings = [Waiting, Waiting]" by code_simp
  have c0: "snd (producer_claim (demo_relay_env accepting) demo_settings demo_start) = [1, 2]" "queue demo_claim = []" by code_simp+
  have c: "producer_claim (demo_relay_env accepting) demo_settings demo_start = (demo_claim, [1, 2])" "queue demo_claim = []"
    using c0 by (simp_all add: demo_claim_def prod_eq_iff)
  have m: "queue_maxsize demo_settings = 4" by code_simp
  have 1: "?step (demo_start, [], [Waiting, Waiting]) (demo_claim, [1, 2], [Waiting, Waiting])"
    by (rule task_step.claim [OF c(1)])
  have 2: "?step (demo_claim, [1, 2], [Waiting, Waiting]) (producer_put 1 demo_claim, [2], [Waiting, Waiting])"
    by (rule task_step.put) (simp add: c m)
  have 3: "?step (producer_put 1 demo_claim, [2], [Waiting, Waiting]) (?v, [2], [Started 1, Waiting])"
    using task_step.take [of 0 "[Waiting, Waiting]" "producer_put 1 demo_claim" 1 "[]"] by (simp add: producer_put_def c)
  have 4: "?step (?v, [2], [Started 1, Waiting]) (producer_put 2 ?v, [], [Started 1, Waiting])"
    by (rule task_step.put) (simp add: m)
  have 5: "?step (producer_put 2 ?v, [], [Started 1, Waiting]) (demo_taken, [], [Started 1, Started 2])"
    using task_step.take [of 1 "[Started 1, Waiting]" "producer_put 2 ?v" 2 "[]"] by (simp add: producer_put_def demo_taken_def)
  show ?thesis unfolding idle using 1 2 3 4 5 by (meson rtranclp.rtrancl_into_rtrancl rtranclp.rtrancl_refl)
qed

lemma demo_taken_reached:
  "(tasks_step (demo_relay_env accepting) demo_settings rev)\<^sup>*\<^sup>* (demo_start, [], idle_consumers demo_settings)
     (demo_taken, [], [Started 1, Started 2])"
  using demo_taken_tasks by (rule rtranclp_mono [THEN predicate2D, rotated]) (blast intro: tasks_step.task)

theorem consumers_interleave_safely_witness:
  "helds [Started 1, Started 2] = [1, 2] \<and> sending_ids demo_taken = {1, 2} \<and> inflight demo_taken = (\<lambda>_. 0)"
proof -
  have i: "tasks_init demo_settings (demo_start, [], idle_consumers demo_settings)"
    using demo_init by (simp add: tasks_init_def)
  have q: "queue demo_taken = []" by (simp add: demo_taken_def)
  from consumers_interleave_safely [OF demo_settings_valid demo_smtp_only(1) scans_rev i demo_taken_reached]
  have "set (helds [Started 1, Started 2]) = sending_ids demo_taken" "inflight demo_taken = slots [Started 1, Started 2]"
    by (simp_all add: q)
  then show ?thesis by (simp add: slots_def fun_eq_iff count_where_def)
qed

end
