(* ===== verification/Races.thy ===== *)
theory Races
  imports Interleaving Ingress Web_Api
begin

text \<open>
  The dashboard against a consumer in the middle of a turn. \<open>Interleaving\<close> has the tasks of the
  dispatcher; here an operator deletes (\<open>delete_message\<close> in \<open>src/smtp_switch/web/api.py\<close>) the message that a consumer
  is sending, which the endpoint does not refuse.
\<close>

section \<open>A slot lost\<close>

lemma requeue_now_frame: "inflight (requeue_now k w) = inflight w" "msg_of w k = None \<Longrightarrow> msg_of (requeue_now k w) k = None"
  by (simp add: requeue_now_def) (simp add: requeue_now_msg)

lemma delete_message_effect:
  assumes "msg_of w k = Some m"
  obtains w' where "delete_message k w = (Inr (), w')" "msg_of w' k = None" "inflight w' = inflight w"
    "k \<notin> msg_id ` set (messages (db w'))"
  using assms by (auto simp: delete_message_def msg_of_def get_by_None_iff spool_delete_def)

lemma record_attempt_deleted:
  assumes "k \<notin> msg_id ` set (messages (db w))"
  shows "record_attempt e k no p started r w = (Inl (IntegrityError ''delivery_attempts''), w\<lparr>tick := Suc (tick w)\<rparr>)"
  using assms by (simp add: record_attempt_def utcnow_def Let_def)

text \<open>Claim C40: deleting a message while it is being handed over costs its provider a slot. The endpoint
  succeeds whatever the status of the message; when the consumer comes back from the provider the
  row of the attempt has no message to refer to, the exception takes the consumer back to the queue,
  and the reservation is neither committed nor released: one slot more is taken than there are
  consumers that have one.\<close>

theorem delete_while_sending_leaks_slot:
  assumes "tasks_ok s (w, pend, xs @ Recording j d no started r # ys)" "p = res_provider (rd_reservation d)"
  shows "\<exists>w1 w2 w3. delete_message (j_mid j) w = (Inr (), w1) \<and>
    resume e s (Recording j d no started r) w1 = (Requeueing (j_mid j), w2) \<and>
    resume e s (Requeueing (j_mid j)) w2 = (Waiting, w3) \<and> msg_of w3 (j_mid j) = None \<and>
    inflight w3 = (slots (xs @ Waiting # ys))(p := slots (xs @ Waiting # ys) p + 1)"
proof -
  let ?k = "j_mid j" and ?c = "Recording j d no started r"
  have ok: "exact (w, pend @ helds (xs @ ?c # ys))" "db_keys (db w)" and f: "inflight w = slots (xs @ ?c # ys)"
    using assms(1) by (simp_all add: tasks_ok_def dispatcher_at_def)
  then have "?k \<in> sending_ids w" by (simp add: exact_def)
  then obtain m where "msg_of w ?k = Some m" using sending_iff [OF ok(2)] by blast
  from delete_message_effect [OF this] obtain w1 where w1: "delete_message ?k w = (Inr (), w1)" "msg_of w1 ?k = None"
    "inflight w1 = inflight w" "?k \<notin> msg_id ` set (messages (db w1))" .
  let ?w2 = "w1\<lparr>tick := Suc (tick w1)\<rparr>"
  have "resume e s ?c w1 = (Requeueing ?k, ?w2)" by (simp add: record_attempt_deleted [OF w1(4)])
  moreover have "resume e s (Requeueing ?k) ?w2 = (Waiting, requeue_now ?k ?w2)" by simp
  moreover have "msg_of ?w2 ?k = None" using w1(2) by (simp add: msg_of_def)
  then have "msg_of (requeue_now ?k ?w2) ?k = None" by (rule requeue_now_frame)
  moreover have "inflight (requeue_now ?k ?w2) = (slots (xs @ Waiting # ys))(p := slots (xs @ Waiting # ys) p + 1)"
    by (simp add: requeue_now_frame w1(3) f slots_app fun_eq_iff assms(2))
  ultimately show ?thesis using w1(1) by blast
qed

text \<open>The first of two consumers, until it has its answer from the provider.\<close>

definition demo_turn :: "nat \<Rightarrow> consumer \<times> world" where
  "demo_turn n = ((\<lambda>(c, w). resume (demo_relay_env accepting) demo_settings c w) ^^ n) (Started 1, demo_taken)"

lemma demo_turn_reached:
  "(tasks_step (demo_relay_env accepting) demo_settings rev)\<^sup>*\<^sup>* (demo_start, [], idle_consumers demo_settings)
     (snd (demo_turn n), [], [fst (demo_turn n), Started 2])"
proof (induction n)
  case 0
  then show ?case using demo_taken_reached by (simp add: demo_turn_def)
next
  case (Suc n)
  have "tasks_step (demo_relay_env accepting) demo_settings rev (snd (demo_turn n), [], [fst (demo_turn n), Started 2])
      (snd (demo_turn (Suc n)), [], [fst (demo_turn (Suc n)), Started 2])"
    using tasks_step.task [OF task_step.run, of 0 "[fst (demo_turn n), Started 2]" "demo_relay_env accepting" demo_settings "snd (demo_turn n)"]
    by (simp add: demo_turn_def prod.case_eq_if)
  with Suc show ?case by (rule rtranclp.rtrancl_into_rtrancl)
qed

definition recording_slot :: "consumer \<Rightarrow> (int \<times> string) option" where
  "recording_slot c = (case c of Recording j d _ _ _ \<Rightarrow> Some (j_mid j, res_provider (rd_reservation d)) | _ \<Rightarrow> None)"

theorem delete_while_sending_leaks_slot_witness:
  "\<exists>w1 w2 w3. delete_message 1 (snd (demo_turn 5)) = (Inr (), w1) \<and>
    resume (demo_relay_env accepting) demo_settings (fst (demo_turn 5)) w1 = (Requeueing 1, w2) \<and>
    resume (demo_relay_env accepting) demo_settings (Requeueing 1) w2 = (Waiting, w3) \<and> inflight w3 ''b'' = 1"
proof -
  have "tasks_init demo_settings (demo_start, [], idle_consumers demo_settings)"
    using demo_init by (simp add: tasks_init_def)
  from tasks_sys.inv_reachable [OF this demo_turn_reached [of 5]]
  have ok: "tasks_ok demo_settings (snd (demo_turn 5), [], [] @ fst (demo_turn 5) # [Started 2])"
    using demo_smtp_only(1) scans_rev demo_settings_valid unfolding tasks_inv_def append_Nil by blast
  have "recording_slot (fst (demo_turn 5)) = Some (1, ''b'')" by code_simp
  then obtain j d no started r where c: "fst (demo_turn 5) = Recording j d no started r" "j_mid j = 1" "''b'' = res_provider (rd_reservation d)"
    by (auto simp: recording_slot_def split: consumer.splits)
  have "slots [Waiting, Started 2] ''b'' = 0" by (simp add: slots_def count_where_def)
  then show ?thesis
    using delete_while_sending_leaks_slot [OF ok [unfolded c(1)] c(3), of "demo_relay_env accepting"] by (auto simp: c(1,2))
qed

section \<open>A reused id\<close>

lemma data_accept_effect:
  assumes "data_accepted x s env w" "handle_DATA e x s (Some notify_new_message) ses env w = (reply, w')"
    "next_rowid msg_id (messages (db w)) = k"
  obtains t where "reply = Inr (''250'' @ t)" "msg_of w' k = Some (accepted_row e x s ses env w)"
    "spool w' (spool_path (accepted_row e x s ses env w)) = Some (content_bytes env)"
proof -
  let ?row = "accepted_row e x s ses env w"
  have row: "msg_id ?row = k" "spool_path ?row = data_path e x s w" using assms(3) by (simp_all add: accepted_row_def new_message_def)
  have w': "messages (db w') = messages (db w) @ [?row]" "spool w' = (spool w)(data_path e x s w \<mapsto> content_bytes env)"
    using assms(2) by (auto simp: data_accept [OF assms(1)] notify_new_message_def stored_world_def)
  have "k \<notin> msg_id ` set (messages (db w))" using next_rowid_notin [of msg_id "messages (db w)"] assms(3) by simp
  then have "msg_of w' k = Some ?row" by (simp add: msg_of_def w' get_by_append_new row)
  moreover have "\<exists>t. reply = Inr (''250'' @ t)" using assms(2) by (auto simp: data_accept [OF assms(1)])
  ultimately show thesis using that w'(2) row(2) by auto
qed

text \<open>A consumer that has its answer and is not interrupted again: it marks whatever row has its id.\<close>

lemma delivered_marks_row:
  assumes "msg_of w (j_mid j) = Some m" "relay_ok r"
  obtains w' t where "alone e s (Recording j d no started r, w) (Waiting, w')" "spool w' = spool w"
    "msg_of w' (j_mid j) = Some (m\<lparr>status := SENT, provider_used := Some (rd_provider d), sent_at := Some t, last_error := None\<rparr>)"
proof -
  let ?k = "j_mid j" and ?p = "rd_provider d"
  let ?j = "j\<lparr>j_tick := (j_tick j)\<lparr>ts_error := Some (detail r), ts_code := res_code r\<rparr>\<rparr>"
  have i: "?k \<in> msg_id ` set (messages (db w))" by (rule msg_of_in [OF assms(1)])
  obtain u where u: "record_attempt e ?k no ?p started r w = (Inr (), u)" "messages (db u) = messages (db w)" "spool u = spool w"
    using record_attempt_unfold [OF i, of e no ?p started r] by simp
  let ?v = "record_success e ?p (commit (rd_reservation d) u)"
  have f: "route_frame u (commit (rd_reservation d) u)" "route_frame (commit (rd_reservation d) u) ?v"
    by (rule commit_route) (rule breaker_route_frame [OF record_success_breaker_frame])
  have v: "msg_of ?v ?k = Some m" "spool ?v = spool w"
    using assms(1) u(2,3) route_messages [OF f(1)] route_messages [OF f(2)] f by (simp_all add: msg_of_def route_frame_def)
  let ?w' = "mark_sent e ?k ?p ?v"
  have "row_changed ?k ?v m (m\<lparr>status := SENT, provider_used := Some ?p, sent_at := Some (clock e (tick ?v)), last_error := None\<rparr>) ?w'"
    using sent.changes_row [of ?v "(?k, ?p)" m e] v(1) by simp
  then have row: "msg_of ?w' ?k = Some (m\<lparr>status := SENT, provider_used := Some ?p, sent_at := Some (clock e (tick ?v)), last_error := None\<rparr>)"
    by (simp add: row_changed_def)
  have sp: "spool ?w' = spool w" using store_frame_fields [OF mark_sent_store [of ?v e ?k ?p]] v(2) by simp
  have jm: "j_mid ?j = j_mid j" by simp
  let ?x = "(metrics ?w')\<lparr>messages_sent := bump_label (messages_sent (metrics ?w')) ?p\<rparr>"
  have x: "resume e s (Marking ?j d) ?v = (Waiting, ?w'\<lparr>metrics := ?x\<rparr>)" by (simp only: resume.simps Let_def jm)
  have "alone e s (Marking ?j d, ?v) (Waiting, ?w'\<lparr>metrics := ?x\<rparr>)" by (rule alone_step) (subst x, rule alone_refl)
  moreover have "resume e s (Judging ?j d r) (commit (rd_reservation d) u) = (Marking ?j d, ?v)"
    "resume e s (Settling ?j d r) u = (Judging ?j d r, commit (rd_reservation d) u)"
    "resume e s (Recording j d no started r) w = (Settling ?j d r, u)"
    using assms(2) u(1) by simp_all
  ultimately have "alone e s (Recording j d no started r, w) (Waiting, ?w'\<lparr>metrics := ?x\<rparr>)"
    by (metis alone_step)
  then show thesis using that [of "?w'\<lparr>metrics := ?x\<rparr>"] row sp by (simp add: msg_of_def)
qed

text \<open>Claim C39: an accepted message can be lost to a reused id. SQLite gives the highest id, once deleted,
  to the next row: when the newest message is deleted while a consumer hands it over, the next
  message that a client submits, and that is answered with 250, gets its id, and the consumer marks
  it as sent when it comes back from the provider. Its body is still in the spool, but no consumer
  will look at it again.\<close>

theorem accepted_message_lost_to_reused_id:
  assumes "delete_message (j_mid j) w = (Inr (), w1)" "next_rowid msg_id (messages (db w1)) = j_mid j"
    and "data_accepted x s env w1" "handle_DATA e x s (Some notify_new_message) ses env w1 = (reply, w2)" "relay_ok r"
  shows "\<exists>t w3 m. reply = Inr (''250'' @ t) \<and> alone e s (Recording j d no started r, w2) (Waiting, w3) \<and>
    msg_of w3 (j_mid j) = Some m \<and> status m = SENT \<and> from_addr m = str_or_empty (mail_from env) \<and>
    rcpt_to m = rcpt_tos env \<and> spool w3 (spool_path m) = Some (content_bytes env)"
proof -
  let ?row = "accepted_row e x s ses env w1"
  obtain t where t: "reply = Inr (''250'' @ t)" "msg_of w2 (j_mid j) = Some ?row" "spool w2 (spool_path ?row) = Some (content_bytes env)"
    by (rule data_accept_effect [OF assms(3,4,2)])
  obtain w3 u where w3: "alone e s (Recording j d no started r, w2) (Waiting, w3)" "spool w3 = spool w2"
    "msg_of w3 (j_mid j) = Some (?row\<lparr>status := SENT, provider_used := Some (rd_provider d), sent_at := Some u, last_error := None\<rparr>)"
    by (rule delivered_marks_row [OF t(2) assms(5)])
  let ?m = "?row\<lparr>status := SENT, provider_used := Some (rd_provider d), sent_at := Some u, last_error := None\<rparr>"
  have "from_addr ?m = str_or_empty (mail_from env)" "rcpt_to ?m = rcpt_tos env" "status ?m = SENT"
    by (simp_all add: accepted_row_def new_message_def)
  moreover have "spool w3 (spool_path ?m) = Some (content_bytes env)" using t(3) w3(2) by simp
  ultimately show ?thesis using t(1) w3(1,3) by blast
qed

definition demo_second :: "nat \<Rightarrow> consumer \<times> world" where
  "demo_second n = ((\<lambda>(c, w). resume (demo_relay_env accepting) demo_settings c w) ^^ n) (Started 2, demo_taken)"

definition recording_ok :: "consumer \<Rightarrow> int option" where
  "recording_ok c = (case c of Recording j _ _ _ r \<Rightarrow> if relay_ok r then Some (j_mid j) else None | _ \<Rightarrow> None)"

theorem accepted_message_lost_to_reused_id_witness:
  "\<exists>w2 w3 m. w2 = snd (handle_DATA (demo_relay_env accepting) demo_mail demo_settings (Some notify_new_message) demo_session demo_envelope
       (snd (delete_message 2 (snd (demo_second 5))))) \<and>
     alone (demo_relay_env accepting) demo_settings (fst (demo_second 5), w2) (Waiting, w3) \<and>
     msg_of w3 2 = Some m \<and> status m = SENT \<and> rcpt_to m = [''b@y'']"
proof -
  let ?e = "demo_relay_env accepting"
  let ?w1 = "snd (delete_message 2 (snd (demo_second 5)))"
  let ?d = "handle_DATA ?e demo_mail demo_settings (Some notify_new_message) demo_session demo_envelope ?w1"
  have "recording_ok (fst (demo_second 5)) = Some 2" by code_simp
  then obtain j d no started r where c: "fst (demo_second 5) = Recording j d no started r" "j_mid j = 2" "relay_ok r"
    by (auto simp: recording_ok_def split: consumer.splits if_splits)
  have ids: "map msg_id (messages (db (snd (demo_second 5)))) = [1, 2]" by code_simp
  then obtain a b where ab: "messages (db (snd (demo_second 5))) = [a, b]" "msg_id a = 1" "msg_id b = 2" by auto
  then have "msg_of (snd (demo_second 5)) 2 = Some b" by (simp add: msg_of_def get_by_def)
  then have del: "delete_message (j_mid j) (snd (demo_second 5)) = (Inr (), ?w1)" and "messages (db ?w1) = [a]"
    by (simp_all add: c(2) delete_message_def spool_delete_def delete_where_def ab)
  then have n: "next_rowid msg_id (messages (db ?w1)) = j_mid j" by (simp add: next_rowid_def ab c(2))
  have da: "data_accepted demo_mail demo_settings demo_envelope ?w1"
    using demo_data_accepted by (simp add: data_accepted_def demo_mail_def)
  from accepted_message_lost_to_reused_id [OF del n da prod.collapse [symmetric, of ?d] c(3), of d no started]
  show ?thesis unfolding c(1,2) by (auto simp: demo_envelope_def)
qed

end
