(* ===== verification/Live_System.thy ===== *)
theory Live_System
  imports System Races
begin

text \<open>
  The whole process with consumers that are interrupted at every await: the tasks of \<open>Interleaving\<close>, the
  SMTP sessions, the site and the command line tool on one world, in any order. \<open>System\<close> has the same
  with whole turns; \<open>Races\<close> shows why requests that delete a message in flight are left out here.
\<close>

section \<open>The transition system\<close>

type_synonym live = "system \<times> consumer list"

text \<open>\<open>stop\<close> is a shutdown in which every consumer puts its message back, \<open>restart\<close> a crash; both with
  the start that follows.\<close>

inductive live_step ::
  "'e relay_env_scheme \<Rightarrow> mail_env \<Rightarrow> web_env \<Rightarrow> cli_env \<Rightarrow> crypto \<Rightarrow> (string \<Rightarrow> string) \<Rightarrow> query_env \<Rightarrow> settings \<Rightarrow>
   ip_net list \<Rightarrow> (message list \<Rightarrow> message list) \<Rightarrow> live \<Rightarrow> live \<Rightarrow> bool"
  for e x y z c utf8 qe s networks scan where
  tasks: "task_step e s scan (world_of g, pending g, cs) (w, pend, cs') \<Longrightarrow>
    live_step e x y z c utf8 qe s networks scan (g, cs) ((put_world w g)\<lparr>pending := pend\<rparr>, cs')"
| restart: "live_step e x y z c utf8 qe s networks scan (g, cs) (restart_app g, idle_consumers s)"
| stop: "live_step e x y z c utf8 qe s networks scan (g, cs)
    (restart_app (put_world (dispatcher_cancelled cs (world_of g)) g), idle_consumers s)"
| smtp: "session_step e x c utf8 s networks (front_of g) f \<Longrightarrow>
    spool (world_of g) (data_path e x s (world_of g)) = None \<Longrightarrow>
    live_step e x y z c utf8 qe s networks scan (g, cs) (g\<lparr>front_of := f\<rparr>, cs)"
| web: "site_deletes req \<inter> sending_ids (world_of g) = {} \<Longrightarrow>
    live_step e x y z c utf8 qe s networks scan (g, cs) (snd (web_step e y c qe pe s cookie req g), cs)"
| admin: "live_step e x y z c utf8 qe s networks scan (g, cs) (put_world (snd (run_command e z c cmd (world_of g))) g, cs)"

definition live_ok :: "settings \<Rightarrow> submission set \<Rightarrow> live \<Rightarrow> bool" where
  "live_ok s old = (\<lambda>(g, cs). tasks_ok s (world_of g, pending g, cs) \<and> site_ok s old g)"

definition live_init :: "settings \<Rightarrow> submission set \<Rightarrow> live \<Rightarrow> bool" where
  "live_init s old = (\<lambda>(g, cs). system_init old g \<and> cs = idle_consumers s)"

section \<open>What a task does to the messages\<close>

lemma run_inherits:
  assumes ok: "tasks_ok s (w, pend, xs @ c # ys)" and s: "valid_settings s" and e: "smtp_only e" and run: "resume e s c w = (c', w')"
  shows "inherits w w' \<and> accounts (db w') = accounts (db w)"
proof (cases "held_id c")
  case None
  then show ?thesis using run by (simp add: held_id_None)
next
  case (Some k)
  then have "passes c c' w w'" using run_passes [OF ok s e run Some] by simp
  then show ?thesis using inherits_payload by (simp add: passes_def)
qed

lemma task_inherits:
  assumes "task_step e s scan (w, pend, cs) (w', pend', cs')" "valid_settings s" "smtp_only e" "scans scan" "tasks_ok s (w, pend, cs)"
  shows "inherits w w' \<and> accounts (db w') = accounts (db w)"
proof -
  have d: "dispatcher_at (slots cs) s (w, pend @ helds cs)" using assms(5) by (simp add: tasks_ok_def)
  show ?thesis
    using assms(1)
  proof cases
    case claim
    then show ?thesis using claim_inherits [of w e s] by simp
  next
    case (put mid)
    then show ?thesis by (auto simp: producer_put_def intro: inherits_payload)
  next
    case (take i k rest)
    then show ?thesis by (auto intro: inherits_payload)
  next
    case (run i c')
    obtain xs ys where "cs = xs @ cs ! i # ys" using split_at [OF run(3)] by metis
    then show ?thesis using run_inherits [OF _ assms(2,3) run(4), of pend xs ys] assms(5) by simp
  next
    case (housekeep g)
    then show ?thesis using housekeeping_inherits [OF d assms(4)] by simp
  next
    case (toggle name en nt)
    then show ?thesis using set_enabled_quiet quiet_inherits by metis
  next
    case notify
    then show ?thesis by (auto simp: notify_new_message_def intro: inherits_payload)
  next
    case wait
    then show ?thesis by (auto intro: inherits_payload)
  qed
qed

lemma cancelled_inherits: "inherits w (dispatcher_cancelled cs w) \<and> accounts (db (dispatcher_cancelled cs w)) = accounts (db w)"
proof -
  have one: "inherits v (requeue_now k v) \<and> accounts (db (requeue_now k v)) = accounts (db v)" for k v
    by (auto simp: requeue_now_def map_update_where payload_def intro: inherits_payload)
  have "inherits w (fold requeue_now ks w) \<and> accounts (db (fold requeue_now ks w)) = accounts (db w)" for ks
  proof (induction ks arbitrary: w)
    case (Cons k ks)
    then show ?case using inherits_trans [OF conjunct1 [OF one [of w k]]] one [of w k] by simp
  qed simp
  then show ?thesis by (simp add: dispatcher_cancelled_def)
qed

section \<open>The invariant\<close>

lemma kept_tasks:
  assumes "tasks_ok s (w, pend, cs)" "kept_at (slots cs) s (w, pend @ helds cs) (w', pend @ helds cs)"
  shows "tasks_ok s (w', pend, cs)"
  using assms by (simp add: tasks_ok_def kept_at_def)

lemma live_step_ok:
  assumes "live_step e x y z c utf8 qe s networks scan st st'" "valid_settings s" "smtp_only e" "scans scan" "live_ok s old st"
  shows "live_ok s old st'"
proof -
  obtain g cs where st: "st = (g, cs)" by (cases st) auto
  let ?w = "world_of g"
  have T: "tasks_ok s (?w, pending g, cs)" and site: "site_ok s old g" using assms(5) by (simp_all add: live_ok_def st)
  then have d: "dispatcher_at (slots cs) s (?w, pending g @ helds cs)" and ex: "exact (?w, pending g @ helds cs)"
    and t: "acct_table_ok ?w" and cs: "list_all (consumer_ok s) cs"
    by (simp_all add: tasks_ok_def site_ok_def)
  from assms(1) show ?thesis
    unfolding st
  proof cases
    case (tasks w pend cs')
    have "inherits ?w w" "acct_table_ok w" using task_inherits [OF tasks(2) assms(2-4) T] acct_table_same [OF _ t] by auto
    then have "site_ok s old ((put_world w g)\<lparr>pending := pend\<rparr>)" by (intro site_ok_world [OF site]) simp_all
    then show ?thesis using task_step_ok [OF tasks(2) assms(2-4) T] by (simp add: live_ok_def tasks(1))
  next
    case restart
    then show ?thesis using restart_tasks_ok(1) [OF T assms(2)] restart_site [OF site]
      by (simp add: live_ok_def) (simp add: restart_app_def)
  next
    case stop
    let ?g = "put_world (dispatcher_cancelled cs ?w) g"
    have "acct_table_ok (dispatcher_cancelled cs ?w)" using acct_table_same [OF conjunct2 [OF cancelled_inherits] t] .
    then have "site_ok s old ?g" by (intro site_ok_world [OF site]) (simp_all add: cancelled_inherits)
    then show ?thesis using restart_tasks_ok(2) [OF T assms(2)] restart_site stop
      by (simp add: live_ok_def) (simp add: restart_app_def)
  next
    case (smtp f)
    then show ?thesis using kept_tasks [OF T] smtp_kept [OF smtp(2,3) d] smtp_site [OF smtp(2,3) site]
      by (simp add: live_ok_def)
  next
    case (web req pe cookie)
    let ?g = "snd (web_step e y c qe pe s cookie req g)"
    have "db_keys (db ?w)" using d by (simp add: dispatcher_at_def)
    from api_ok [OF conjunct1 [OF web_step_effect [OF this site, of req e y c qe pe cookie]] d] web(2) ex
    have "tasks_ok s (world_of ?g, pending g, cs)" using cs by (simp add: tasks_ok_def)
    then show ?thesis using web_site [OF d site] web(1) by (simp add: live_ok_def web_step_simps(2))
  next
    case (admin cmd)
    note A = admin_quiet [OF t, of e z c cmd]
    show ?thesis using kept_tasks [OF T quiet_kept [OF conjunct1 [OF A] d]] quiet_site [OF site] A admin
      by (simp add: live_ok_def)
  qed
qed

definition live_inv ::
  "'e relay_env_scheme \<Rightarrow> settings \<Rightarrow> (message list \<Rightarrow> message list) \<Rightarrow> submission set \<Rightarrow> live \<Rightarrow> bool" where
  "live_inv e s scan old st \<longleftrightarrow> (valid_settings s \<longrightarrow> smtp_only e \<longrightarrow> scans scan \<longrightarrow> live_ok s old st)"

interpretation live_sys: invariant_system "live_init s old" "live_step e x y z c utf8 qe s networks scan" "live_inv e s scan old"
  for s old e x y z c utf8 qe networks scan
proof
  show "live_inv e s scan old st" if "live_init s old st" for st
  proof -
    obtain g cs where st: "st = (g, cs)" by (cases st) auto
    have i: "system_init old g" "cs = idle_consumers s" using that by (simp_all add: live_init_def st)
    then obtain v where v: "world_of g = app_start v" "pending g = []" "db_keys (db v)" "quota_nonneg v" "bodies_ok v"
      by (auto simp: system_init_def restart_app_def)
    have "tasks_ok s (world_of g, pending g, cs)" if "valid_settings s"
      using app_start_ok [OF v(3-5) queue_maxsize_pos [OF that]] by (simp add: tasks_ok_def v(1,2) i(2))
    moreover have "site_ok s old g" if "valid_settings s" "smtp_only e" "scans scan"
      using system_sys.inv_init [OF i(1), of e s scan] that by (simp add: system_inv_def system_ok_def)
    ultimately show ?thesis by (simp add: live_inv_def live_ok_def st)
  qed
  show "live_inv e s scan old st'" if "live_inv e s scan old st" "live_step e x y z c utf8 qe s networks scan st st'" for st st'
    using that live_step_ok unfolding live_inv_def by blast
qed

section \<open>Properties\<close>


lemma tasks_live:
  assumes "(task_step e s scan)\<^sup>*\<^sup>* (w0, pend0, cs0) (w, pend, cs)" "world_of g = w0" "pending g = pend0"
  shows "(live_step e x y z c utf8 qe s networks scan)\<^sup>*\<^sup>* (g, cs0) ((put_world w g)\<lparr>pending := pend\<rparr>, cs)"
  using assms(1)
proof (induction "(w, pend, cs)" arbitrary: w pend cs rule: rtranclp_induct)
  case base
  have "(put_world w0 g)\<lparr>pending := pend0\<rparr> = g" using assms(2,3) by (auto simp: put_world_def)
  then show ?case using base by simp
next
  case (step st)
  obtain w1 pend1 cs1 where st: "st = (w1, pend1, cs1)" by (cases st) auto
  let ?g = "(put_world w1 g)\<lparr>pending := pend1\<rparr>"
  have "live_step e x y z c utf8 qe s networks scan (?g, cs1) ((put_world w ?g)\<lparr>pending := pend\<rparr>, cs)"
    by (rule live_step.tasks) (use step.hyps(2) in \<open>simp add: put_world_def st\<close>)
  moreover have "(put_world w ?g)\<lparr>pending := pend\<rparr> = (put_world w g)\<lparr>pending := pend\<rparr>" by (simp add: put_world_def)
  ultimately show ?case using step.hyps(3) [OF st] by (metis rtranclp.rtrancl_into_rtrancl)
qed


end
