(* ===== verification/Loading.thy ===== *)
theory Loading
  imports World
begin

text \<open>
  How the program gets its settings: \<open>load_settings\<close>, \<open>get_settings\<close> and the order of the sources in
  \<open>src/smtp_switch/config.py\<close>, and the database URL of \<open>src/smtp_switch/migrations/env.py\<close>. The YAML
  reader, the environment source and the merge of \<open>pydantic_settings\<close>, and the conversion of leaf values
  to the types of the fields are parameters (\<open>settings_lib\<close>); the constraints and validators of the
  settings classes are those of \<open>Config\<close>.
\<close>

section \<open>Values and sources\<close>

datatype yaml =
    Y_null | Y_bool bool | Y_num rat | Y_str string | Y_list "yaml list" | Y_dict "(yaml \<times> yaml) list"

definition yaml_truthy :: "yaml \<Rightarrow> bool" where
  "yaml_truthy v = (case v of Y_null \<Rightarrow> False | Y_bool b \<Rightarrow> b | Y_num x \<Rightarrow> x \<noteq> 0 | Y_str t \<Rightarrow> t \<noteq> []
     | Y_list vs \<Rightarrow> vs \<noteq> [] | Y_dict d \<Rightarrow> d \<noteq> [])"

text \<open>A source as what it says about every leaf of the settings tree.\<close>

type_synonym source = "string list \<Rightarrow> yaml option"

fun leaf_at :: "yaml \<Rightarrow> source" where
  "leaf_at (Y_dict d) (k # ks) = (case map_of d (Y_str k) of None \<Rightarrow> None | Some v \<Rightarrow> leaf_at v ks)"
| "leaf_at (Y_dict d) [] = None"
| "leaf_at v ks = (if ks = [] then Some v else None)"

record os_env =
  environ :: "string \<Rightarrow> string option"
  text_files :: "string \<Rightarrow> string option"

record settings_lib =
  safe_load :: "string \<Rightarrow> string + yaml"
  env_settings :: "(string \<Rightarrow> string option) \<Rightarrow> source"
  dotenv_settings :: source
  file_secret_settings :: source
  merge_sources :: "source list \<Rightarrow> source"
  convert_fields :: "source \<Rightarrow> string + settings"

datatype load_error =
    Yaml_error string
  | Not_a_mapping string
  | File_not_found string
  | Keyword_not_string
  | Validation_error string
  | Provider_error settings_error
  | Bad_interpolation string

text \<open>The class \<open>_YamlSource\<close> returns the data it was given.\<close>

definition YamlSource :: "(yaml \<times> yaml) list \<Rightarrow> source" where
  "YamlSource data = leaf_at (Y_dict data)"

definition settings_customise_sources :: "settings_lib \<Rightarrow> os_env \<Rightarrow> (yaml \<times> yaml) list \<Rightarrow> source list" where
  "settings_customise_sources l os data =
     [env_settings l (environ os), dotenv_settings l, YamlSource data, file_secret_settings l]"

definition field_constraints :: "settings \<Rightarrow> bool" where
  "field_constraints s \<longleftrightarrow>
     valid_ingress (ingress s) \<and> valid_dispatch (dispatch s) \<and> list_all valid_provider (providers s) \<and>
     valid_breaker (circuit_breaker s) \<and> valid_web (web s)"

definition Settings :: "settings_lib \<Rightarrow> os_env \<Rightarrow> (yaml \<times> yaml) list \<Rightarrow> load_error + settings" where
  "Settings l os data =
     (if \<not> list_all (\<lambda>(k, _). case k of Y_str _ \<Rightarrow> True | _ \<Rightarrow> False) data then Inl Keyword_not_string
      else case convert_fields l (merge_sources l (settings_customise_sources l os data)) of
             Inl msg \<Rightarrow> Inl (Validation_error msg)
           | Inr s \<Rightarrow>
               if \<not> field_constraints s then Inl (Validation_error ''constraint'')
               else (case validate_providers s of Inl err \<Rightarrow> Inl (Provider_error err) | Inr s \<Rightarrow> Inr s))"

section \<open>Loading\<close>

definition default_config_path :: string where
  "default_config_path = ''config.yaml''"

text \<open>\<open>path or os.environ.get(...)\<close>: an empty path counts as none.\<close>

definition config_path :: "os_env \<Rightarrow> string option \<Rightarrow> string" where
  "config_path os path =
     (if str_or_empty path \<noteq> [] then str_or_empty path
      else case environ os ''SMTP_SWITCH_CONFIG'' of Some p \<Rightarrow> p | None \<Rightarrow> default_config_path)"

definition load_settings :: "settings_lib \<Rightarrow> os_env \<Rightarrow> string option \<Rightarrow> load_error + settings" where
  "load_settings l os path =
     (let cfg_path = config_path os path in
      case text_files os cfg_path of
        Some t \<Rightarrow>
          (case safe_load l t of
             Inl msg \<Rightarrow> Inl (Yaml_error msg)
           | Inr v \<Rightarrow>
               (let loaded = (if yaml_truthy v then v else Y_dict [])
                in case loaded of Y_dict data \<Rightarrow> Settings l os data | _ \<Rightarrow> Inl (Not_a_mapping cfg_path)))
      | None \<Rightarrow> if path \<noteq> None then Inl (File_not_found cfg_path) else Settings l os [])"

text \<open>\<open>lru_cache(maxsize=1)\<close>: the first result is kept, an exception is not.\<close>

definition get_settings :: "settings_lib \<Rightarrow> os_env \<Rightarrow> settings option \<Rightarrow> (load_error + settings) \<times> settings option" where
  "get_settings l os cached =
     (case cached of
        Some s \<Rightarrow> (Inr s, cached)
      | None \<Rightarrow> (case load_settings l os None of Inl err \<Rightarrow> (Inl err, None) | Inr s \<Rightarrow> (Inr s, Some s)))"

section \<open>The database of the migrations\<close>

text \<open>
  \<open>set_main_option\<close> stores the URL in a \<open>ConfigParser\<close>, which refuses a percent sign that is neither
  doubled nor the start of a reference \<open>%(name)s\<close>.
\<close>

fun drop_doubled :: "string \<Rightarrow> string" where
  "drop_doubled (c # d # cs) = (if c = CHR ''%'' \<and> d = CHR ''%'' then drop_doubled cs else c # drop_doubled (d # cs))"
| "drop_doubled cs = cs"

definition reference_rest :: "string \<Rightarrow> string option" where
  "reference_rest cs =
     (case cs of
        c # ds \<Rightarrow> (let name = takeWhile (\<lambda>c. c \<noteq> CHR '')'') ds; rest = dropWhile (\<lambda>c. c \<noteq> CHR '')'') ds
                   in if c = CHR ''('' \<and> name \<noteq> [] \<and> take 2 rest = '')s'' then Some (drop 2 rest) else None)
      | [] \<Rightarrow> None)"

lemma reference_rest_length: "reference_rest cs = Some ds \<Longrightarrow> length ds < length cs"
  using length_dropWhile_le [of "\<lambda>c. c \<noteq> CHR '')''" "tl cs"]
  by (auto simp: reference_rest_def Let_def split: list.splits if_splits)

function lone_percent :: "string \<Rightarrow> bool" where
  "lone_percent [] = False"
| "lone_percent (c # cs) =
     (if c = CHR ''%'' then (case reference_rest cs of None \<Rightarrow> True | Some ds \<Rightarrow> lone_percent ds) else lone_percent cs)"
  by pat_completeness auto
termination by (relation "measure length") (auto dest: reference_rest_length)

definition set_main_option :: "string \<Rightarrow> load_error + string" where
  "set_main_option value = (if lone_percent (drop_doubled value) then Inl (Bad_interpolation value) else Inr value)"

text \<open>\<open>_db_url\<close>: the argument \<open>-x db_url=...\<close>, else the environment, else the settings; empty counts as none.\<close>

definition migration_url :: "settings_lib \<Rightarrow> os_env \<Rightarrow> string option \<Rightarrow> load_error + string" where
  "migration_url l os x =
     (let u = (if str_or_empty x \<noteq> [] then str_or_empty x else str_or_empty (environ os ''SMTP_SWITCH_DATABASE__URL''))
      in if u \<noteq> [] then set_main_option u
         else case load_settings l os None of Inl err \<Rightarrow> Inl err | Inr s \<Rightarrow> set_main_option (url (database_cfg s)))"

section \<open>What the libraries promise\<close>

text \<open>Sources are merged leaf by leaf, the first source that has a value wins.\<close>

definition first_some :: "source list \<Rightarrow> source" where
  "first_some sources leaf =
     (case filter (\<lambda>src. src leaf \<noteq> None) sources of [] \<Rightarrow> None | src # _ \<Rightarrow> src leaf)"

definition merge_ok :: "settings_lib \<Rightarrow> bool" where
  "merge_ok l \<longleftrightarrow> (\<forall>sources. merge_sources l sources = first_some sources)"

text \<open>The variable with the name of a leaf sets it, and a string converts to itself.\<close>

definition url_leaf :: "string list" where
  "url_leaf = [''database'', ''url'']"

definition url_env_ok :: "settings_lib \<Rightarrow> bool" where
  "url_env_ok l \<longleftrightarrow>
     (\<forall>ev. env_settings l ev url_leaf = map_option Y_str (ev ''SMTP_SWITCH_DATABASE__URL'')) \<and>
     (\<forall>src s u. convert_fields l src = Inr s \<longrightarrow> src url_leaf = Some (Y_str u) \<longrightarrow> url (database_cfg s) = u)"

section \<open>Lemmas\<close>

lemma Settings_Inr:
  "Settings l os data = Inr s \<Longrightarrow>
   convert_fields l (merge_sources l (settings_customise_sources l os data)) = Inr s \<and> valid_settings s"
  by (auto simp: Settings_def field_constraints_def valid_settings_def validate_providers_def Let_def split: if_splits sum.splits)

lemma load_settings_Settings:
  assumes "load_settings l os path = Inr s"
  obtains data where "Settings l os data = Inr s"
    "case text_files os (config_path os path) of
       Some t \<Rightarrow> (\<exists>v. safe_load l t = Inr v \<and> (if yaml_truthy v then v = Y_dict data else data = []))
     | None \<Rightarrow> path = None \<and> data = []"
  using assms
  by (auto simp: load_settings_def Let_def split: option.splits sum.splits if_splits yaml.splits)

section \<open>Properties\<close>


text \<open>A library that knows one file, reads one variable and fills in the rest.\<close>

definition demo_lib :: settings_lib where
  "demo_lib = \<lparr>safe_load = (\<lambda>t. if t = ''f'' then Inr (Y_dict [(Y_str ''database'', Y_dict [(Y_str ''url'', Y_str ''file'')])])
                           else Inr (Y_list [Y_null])),
     env_settings = (\<lambda>ev leaf. if leaf = url_leaf then map_option Y_str (ev ''SMTP_SWITCH_DATABASE__URL'') else None),
     dotenv_settings = Map.empty, file_secret_settings = Map.empty, merge_sources = first_some,
     convert_fields = (\<lambda>src. case src url_leaf of
         Some (Y_str u) \<Rightarrow> Inr (demo_settings\<lparr>database_cfg := (database_cfg demo_settings)\<lparr>url := u\<rparr>\<rparr>)
       | None \<Rightarrow> Inr demo_settings | _ \<Rightarrow> Inl ''url'')\<rparr>"

definition demo_os :: os_env where
  "demo_os = \<lparr>environ = [''SMTP_SWITCH_DATABASE__URL'' \<mapsto> ''p%40ss''], text_files = [''c'' \<mapsto> ''f'', ''d'' \<mapsto> ''l'']\<rparr>"


text \<open>The migrations act on the database of the program, except where its URL has a percent
  sign. Without the argument \<open>-x\<close>, whenever the settings load, \<open>env.py\<close> takes the URL that the
  program uses; a URL in which a percent sign stands alone, as in an escaped password, is one
  the program runs with and the migrations refuse.\<close>

theorem migrations_use_program_database:
  assumes "merge_ok l" "url_env_ok l" "load_settings l os None = Inr s" "x = None \<or> x = Some []"
  shows "migration_url l os x =
    (let u = url (database_cfg s) in if lone_percent (drop_doubled u) then Inl (Bad_interpolation u) else Inr u)"
proof -
  obtain data where "Settings l os data = Inr s" using assms(3) by (rule load_settings_Settings)
  then have c: "convert_fields l (first_some (settings_customise_sources l os data)) = Inr s"
    using Settings_Inr [of l os data s] assms(1) by (simp add: merge_ok_def)
  have "url (database_cfg s) = u" if "environ os ''SMTP_SWITCH_DATABASE__URL'' = Some u" for u
  proof -
    have "first_some (settings_customise_sources l os data) url_leaf = Some (Y_str u)"
      using that assms(2) by (simp add: first_some_def settings_customise_sources_def url_env_ok_def)
    then show ?thesis using c assms(2) unfolding url_env_ok_def by blast
  qed
  then show ?thesis using assms(3,4)
    by (cases "environ os ''SMTP_SWITCH_DATABASE__URL''")
      (auto simp: migration_url_def set_main_option_def str_or_empty_def Let_def)
qed

theorem migrations_use_program_database_witness:
  "migration_url demo_lib demo_os None = Inl (Bad_interpolation ''p%40ss'')"
proof -
  let ?s = "demo_settings\<lparr>database_cfg := (database_cfg demo_settings)\<lparr>url := ''p%40ss''\<rparr>\<rparr>"
  have "merge_ok demo_lib" by (simp add: merge_ok_def demo_lib_def)
  moreover have "url_env_ok demo_lib"
    by (auto simp: url_env_ok_def demo_lib_def split: option.splits yaml.splits)
  moreover have "load_settings demo_lib demo_os None = Inr ?s"
  proof -
    have "first_some (settings_customise_sources demo_lib demo_os []) url_leaf = Some (Y_str ''p%40ss'')"
      by (simp add: first_some_def settings_customise_sources_def demo_lib_def demo_os_def)
    then have "convert_fields demo_lib (merge_sources demo_lib (settings_customise_sources demo_lib demo_os [])) = Inr ?s"
      by (simp add: demo_lib_def)
    moreover have "field_constraints ?s" "validate_providers ?s = Inr ?s"
      using demo_settings_valid
      by (auto simp: valid_settings_def field_constraints_def validate_providers_def Let_def split: if_splits)
    moreover have "text_files demo_os (config_path demo_os None) = None"
      by (simp add: demo_os_def config_path_def str_or_empty_def default_config_path_def)
    ultimately show ?thesis by (simp add: load_settings_def Settings_def)
  qed
  ultimately have "migration_url demo_lib demo_os None =
      (let u = url (database_cfg ?s) in if lone_percent (drop_doubled u) then Inl (Bad_interpolation u) else Inr u)"
    by (rule migrations_use_program_database) simp
  moreover have "lone_percent (drop_doubled ''p%40ss'')" by code_simp
  ultimately show ?thesis by (simp add: Let_def)
qed

end
