(* ===== verification/Logging.thy ===== *)
theory Logging
  imports Config
begin

text \<open>
  \<open>src/smtp_switch/logging_setup.py\<close>: what \<open>configure_logging\<close> and \<open>get_logger\<close> do to the two logging
  libraries of the process, Python's \<open>logging\<close> (which aiosmtpd, uvicorn and SQLAlchemy write to) and
  structlog (which the program writes to). The state is their configuration; the lines are not part
  of it.
\<close>

section \<open>The libraries\<close>

datatype processor =
    Merge_contextvars | Add_log_level | Time_stamper | Stack_info_renderer | Format_exc_info | JSON_renderer | Console_renderer

record structlog_config =
  processors :: "processor list"
  min_level :: int
  cache_logger_on_first_use :: bool

text \<open>The formats of the handlers of the root logger, its level, and the loggers with a level of their own.\<close>

record log_state =
  configured :: bool
  root_handlers :: "string list"
  root_level :: int
  levels :: "string \<Rightarrow> int option"
  structlog_cfg :: "structlog_config option"

fun level_number :: "level_name \<Rightarrow> int" where
  "level_number DEBUG = 10"
| "level_number INFO = 20"
| "level_number WARNING = 30"
| "level_number ERROR = 40"

definition python_logging :: log_state where
  "python_logging = \<lparr>configured = False, root_handlers = [], root_level = 30, levels = Map.empty, structlog_cfg = None\<rparr>"

text \<open>\<open>logging.basicConfig\<close> does nothing once the root logger has a handler.\<close>

definition basicConfig :: "string \<Rightarrow> int \<Rightarrow> log_state \<Rightarrow> log_state" where
  "basicConfig format level st =
     (if root_handlers st \<noteq> [] then st else st\<lparr>root_handlers := [format], root_level := level\<rparr>)"

definition setLevel :: "string \<Rightarrow> int \<Rightarrow> log_state \<Rightarrow> log_state" where
  "setLevel name level st = st\<lparr>levels := (levels st)(name \<mapsto> level)\<rparr>"

text \<open>\<open>getEffectiveLevel\<close>: the level of the logger, of its nearest parent by dotted name, or of the root.\<close>

fun join_dots :: "string list \<Rightarrow> string" where
  "join_dots [] = []"
| "join_dots [p] = p"
| "join_dots (p # q # ps) = p @ ''.'' @ join_dots (q # ps)"

fun nearest_level :: "log_state \<Rightarrow> string list \<Rightarrow> int" where
  "nearest_level st [] = root_level st"
| "nearest_level st (p # ps) =
     (case levels st (join_dots (rev (p # ps))) of Some n \<Rightarrow> n | None \<Rightarrow> nearest_level st ps)"

definition getEffectiveLevel :: "log_state \<Rightarrow> string \<Rightarrow> int" where
  "getEffectiveLevel st name = nearest_level st (rev (split_on (CHR ''.'') name))"

definition library_line_shown :: "log_state \<Rightarrow> string \<Rightarrow> int \<Rightarrow> bool" where
  "library_line_shown st name n \<longleftrightarrow> root_handlers st \<noteq> [] \<and> getEffectiveLevel st name \<le> n"

definition program_line_shown :: "log_state \<Rightarrow> int \<Rightarrow> bool" where
  "program_line_shown st n \<longleftrightarrow> (case structlog_cfg st of None \<Rightarrow> True | Some c \<Rightarrow> min_level c \<le> n)"

section \<open>The module\<close>

definition LoggingConfig :: logging_config where
  "LoggingConfig = \<lparr>log_level = INFO, json_format = True\<rparr>"

definition configure_logging :: "logging_config \<Rightarrow> log_state \<Rightarrow> log_state" where
  "configure_logging cfg st =
     (let level = level_number (log_level cfg);
          st = basicConfig ''%(message)s'' level st;
          noisy_level = (if level \<le> 10 then 10 else 30);
          st = setLevel ''mail.log'' noisy_level (setLevel ''aiosmtpd'' noisy_level st);
          shared = [Merge_contextvars, Add_log_level, Time_stamper, Stack_info_renderer, Format_exc_info];
          renderer = (if json_format cfg then JSON_renderer else Console_renderer)
      in st\<lparr>structlog_cfg := Some \<lparr>processors = shared @ [renderer], min_level = level, cache_logger_on_first_use = True\<rparr>,
            configured := True\<rparr>)"

text \<open>A logger is a proxy that looks up the configuration when it writes its first line.\<close>

definition get_logger :: "string option \<Rightarrow> log_state \<Rightarrow> string option \<times> log_state" where
  "get_logger name st = (name, if configured st then st else configure_logging LoggingConfig st)"

text \<open>The modules call \<open>get_logger\<close> when they are imported.\<close>

definition import_loggers :: "string list \<Rightarrow> log_state \<Rightarrow> log_state" where
  "import_loggers names = fold (\<lambda>name st. snd (get_logger (Some name) st)) names"

definition main_loggers :: "string list" where
  "main_loggers = [''dispatch.health'', ''dispatch.rate_limiter'', ''dispatch.router'', ''dispatch.sender'', ''dispatch.worker'',
     ''ingress.auth'', ''ingress.server'', ''providers.registry'', ''main'', ''web.api'', ''web.security'', ''web.app'']"

section \<open>Lemmas\<close>

lemma imported:
  "import_loggers names st = (if names = [] \<or> configured st then st else configure_logging LoggingConfig st)"
proof -
  have c: "configured (configure_logging cfg st)" for cfg st by (simp add: configure_logging_def Let_def)
  have "import_loggers names st = st" if "configured st" for st names
    using that by (induction names) (simp_all add: import_loggers_def get_logger_def)
  then show ?thesis by (cases names) (auto simp: import_loggers_def get_logger_def c)
qed

text \<open>
  The first import configures the defaults, and with them the root logger for good: the settings
  given at the start decide about the program's own lines and about aiosmtpd, but every other
  library goes on at level INFO, whatever \<open>logging.level\<close> says.
\<close>

theorem level_of_libraries_is_fixed_by_import:
  fixes cfg :: logging_config
  defines "st \<equiv> configure_logging cfg (import_loggers main_loggers python_logging)"
  shows "program_line_shown st n \<longleftrightarrow> level_number (log_level cfg) \<le> n"
    and "library_line_shown st ''mail.log'' n \<longleftrightarrow> (if log_level cfg = DEBUG then 10 else 30) \<le> n"
    and "library_line_shown st ''uvicorn.error'' n \<longleftrightarrow> 20 \<le> n"
    and "library_line_shown st ''sqlalchemy.engine.Engine'' n \<longleftrightarrow> 20 \<le> n"
proof -
  have st: "st = configure_logging cfg (configure_logging LoggingConfig python_logging)"
    by (simp add: st_def imported main_loggers_def python_logging_def)
  note defs = st configure_logging_def LoggingConfig_def python_logging_def basicConfig_def setLevel_def Let_def
  show "program_line_shown st n \<longleftrightarrow> level_number (log_level cfg) \<le> n" by (simp add: program_line_shown_def defs)
  show "library_line_shown st ''mail.log'' n \<longleftrightarrow> (if log_level cfg = DEBUG then 10 else 30) \<le> n"
    by (cases "log_level cfg") (simp_all add: library_line_shown_def getEffectiveLevel_def defs)
  show "library_line_shown st ''uvicorn.error'' n \<longleftrightarrow> 20 \<le> n" "library_line_shown st ''sqlalchemy.engine.Engine'' n \<longleftrightarrow> 20 \<le> n"
    by (simp_all add: library_line_shown_def getEffectiveLevel_def defs)
qed

end
