(* ===== verification/Lifecycle.thy ===== *)
theory Lifecycle
  imports Admin Schema Loading Logging
begin

text \<open>
  Start and shutdown of the process: the engine and its sessions (\<open>src/smtp_switch/db/session.py\<close>), the
  tasks of \<open>Dispatcher.start\<close> and \<open>stop\<close>, \<open>IngressServer\<close> of \<open>src/smtp_switch/ingress/server.py\<close> and
  \<open>Application\<close> of \<open>src/smtp_switch/main.py\<close>. Any stage that calls the system or a library may raise
  (\<open>fails\<close>). The state is what outlives a call: how the logging libraries are configured, which engine is
  open, which tasks run, which ports are served.
\<close>

section \<open>Paths\<close>

text \<open>A \<open>pathlib\<close> path: its root and its parts, without empty parts and dots.\<close>

type_synonym path = "string \<times> string list"

definition path_root :: "string \<Rightarrow> string" where
  "path_root t = (let n = length (takeWhile (\<lambda>c. c = CHR ''/'') t) in if n = 0 then [] else if n = 2 then ''//'' else ''/'')"

definition path_of :: "string \<Rightarrow> path" where
  "path_of t = (path_root t, filter (\<lambda>p. p \<noteq> [] \<and> p \<noteq> ''.'') (split_on (CHR ''/'') t))"

definition parent :: "path \<Rightarrow> path" where
  "parent p = (fst p, butlast (snd p))"

definition mkdir_parents :: "path \<Rightarrow> path set \<Rightarrow> path set" where
  "mkdir_parents p dirs = dirs \<union> set (map (\<lambda>k. (fst p, take k (snd p))) [0..<Suc (length (snd p))])"

text \<open>\<open>\w\<close> on the characters below 256.\<close>

definition word_char :: "char \<Rightarrow> bool" where
  "word_char c = (let n = of_char c :: nat in
     48 \<le> n \<and> n \<le> 57 \<or> 65 \<le> n \<and> n \<le> 90 \<or> n = 95 \<or> 97 \<le> n \<and> n \<le> 122 \<or>
     n \<in> {170, 178, 179, 181, 185, 186, 188, 189, 190} \<or> 192 \<le> n \<and> n \<noteq> 215 \<and> n \<noteq> 247)"

text \<open>The group of \<open>sqlite(?:\+\w+)?:///(?!:memory:)(.+)$\<close>.\<close>

definition sqlite_file :: "string \<Rightarrow> string option" where
  "sqlite_file u =
     (if take 6 u \<noteq> ''sqlite'' then None
      else
        let r = drop 6 u;
            r = (case r of [] \<Rightarrow> [] | c # cs \<Rightarrow> if c = CHR ''+'' \<and> takeWhile word_char cs \<noteq> [] then dropWhile word_char cs else r)
        in if take 4 r \<noteq> '':///'' then None
           else let g = drop 4 r; line = takeWhile (\<lambda>c. c \<noteq> CHR 0x0A) g
                in if take 8 g \<noteq> '':memory:'' \<and> line \<noteq> [] \<and> length g \<le> length line + 1 then Some line else None)"

section \<open>The process\<close>

datatype stage = Db_dir | Engine | Create_tables | Overrides | Breaker_rows | Orphans | Spool_dir | Account_rows | Tls_files | Smtp_port

record smtp_kwargs =
  data_size_limit :: int
  enable_SMTPUTF8 :: bool
  ident :: string
  smtp_timeout :: int
  tls_context :: "(string \<times> string option) option"
  kw_require_starttls :: bool
  auth_required :: bool
  auth_require_tls :: bool

text \<open>An SMTP server object has the host name of its greeting besides these arguments.\<close>

record smtp_object =
  smtp_hostname :: string
  smtp_arguments :: smtp_kwargs

record gated_controller =
  bind_address :: string
  bind_port :: int
  greeting_hostname :: string
  SMTP_kwargs :: smtp_kwargs

text \<open>An engine: its URL, the arguments of \<open>create_async_engine\<close> and the pragmas of every connection.\<close>

record db_engine =
  engine_url :: string
  engine_echo :: bool
  pool_pre_ping :: bool
  pragmas :: "(string \<times> string) list"

record app_state =
  logs :: log_state
  engine :: "db_engine option"
  sessionmaker :: "db_engine option"
  dirs :: "path set"
  tables_of :: schema
  state_of :: world
  tasks :: "string list"
  smtp_server :: "(int \<times> smtp_object) option"
  snapshot_of :: "account_store option"
  refreshing :: bool
  http_server :: bool

record process_env =
  fails :: "stage \<Rightarrow> exn option"
  bound_port :: "int \<Rightarrow> int"
  web_started :: "nat \<Rightarrow> bool"
  web_result :: "exn option"

definition initial_process :: "path set \<Rightarrow> schema \<Rightarrow> world \<Rightarrow> app_state" where
  "initial_process ds sc w = \<lparr>logs = import_loggers main_loggers python_logging, engine = None, sessionmaker = None, dirs = ds, tables_of = sc, state_of = w, tasks = [], smtp_server = None,
     snapshot_of = None, refreshing = False, http_server = False\<rparr>"

text \<open>A call that may raise, and the sequence of two.\<close>

definition attempt :: "process_env \<Rightarrow> stage \<Rightarrow> (app_state \<Rightarrow> app_state) \<Rightarrow> app_state \<Rightarrow> (exn + unit) \<times> app_state" where
  "attempt x st f p = (case fails x st of Some err \<Rightarrow> (Inl err, p) | None \<Rightarrow> (Inr (), f p))"

definition and_then ::
  "('p \<Rightarrow> (exn + unit) \<times> 'p) \<Rightarrow> ('p \<Rightarrow> (exn + unit) \<times> 'p) \<Rightarrow> 'p \<Rightarrow> (exn + unit) \<times> 'p" where
  "and_then f g p = (case f p of (Inl err, p) \<Rightarrow> (Inl err, p) | (Inr _, p) \<Rightarrow> g p)"

section \<open>Engine and sessions\<close>

definition is_sqlite :: "settings \<Rightarrow> bool" where
  "is_sqlite s \<longleftrightarrow> take 6 (url (database_cfg s)) = ''sqlite''"

definition ensure_sqlite_parent :: "process_env \<Rightarrow> string \<Rightarrow> app_state \<Rightarrow> (exn + unit) \<times> app_state" where
  "ensure_sqlite_parent x u p =
     (case sqlite_file u of
        None \<Rightarrow> (Inr (), p)
      | Some f \<Rightarrow>
          (let d = parent (path_of f)
           in if d \<in> dirs p then (Inr (), p)
              else attempt x Db_dir (\<lambda>p. p\<lparr>dirs := mkdir_parents d (dirs p)\<rparr>) p))"

definition apply_sqlite_pragmas :: "db_engine \<Rightarrow> db_engine" where
  "apply_sqlite_pragmas g = g\<lparr>pragmas :=
     [(''journal_mode'', ''WAL''), (''synchronous'', ''NORMAL''), (''foreign_keys'', ''ON''), (''busy_timeout'', ''5000'')]\<rparr>"

definition create_async_engine :: "settings \<Rightarrow> db_engine" where
  "create_async_engine s =
     (let g = \<lparr>engine_url = url (database_cfg s), engine_echo = echo (database_cfg s), pool_pre_ping = is_sqlite s, pragmas = []\<rparr>
      in if is_sqlite s then apply_sqlite_pragmas g else g)"

definition init_engine :: "process_env \<Rightarrow> settings \<Rightarrow> app_state \<Rightarrow> (exn + unit) \<times> app_state" where
  "init_engine x s p =
     (if engine p \<noteq> None then (Inr (), p)
      else and_then (if is_sqlite s then ensure_sqlite_parent x (url (database_cfg s)) else (\<lambda>p. (Inr (), p)))
             (attempt x Engine (\<lambda>p. p\<lparr>engine := Some (create_async_engine s), sessionmaker := Some (create_async_engine s)\<rparr>)) p)"

definition get_engine :: "app_state \<Rightarrow> exn + db_engine" where
  "get_engine p = (case engine p of
     None \<Rightarrow> Inl (Unexpected ''engine not initialised; call init_engine(settings) first'') | Some g \<Rightarrow> Inr g)"

definition get_sessionmaker :: "app_state \<Rightarrow> exn + db_engine" where
  "get_sessionmaker p = (case sessionmaker p of
     None \<Rightarrow> Inl (Unexpected ''sessionmaker not initialised; call init_engine(settings) first'') | Some g \<Rightarrow> Inr g)"

definition dispose_engine :: "app_state \<Rightarrow> app_state" where
  "dispose_engine p = p\<lparr>engine := None, sessionmaker := None\<rparr>"

text \<open>
  \<open>session_scope\<close> around a body that works on its own copy of the database: committed when the body
  returns, rolled back when it raises an \<open>Exception\<close>, and discarded by closing the session when it
  is left otherwise (\<open>SystemExit\<close>, a cancelled task).
\<close>

datatype 'a left = Returns 'a | Raises exn | Exits

definition session_scope ::
  "exn option \<Rightarrow> (database \<Rightarrow> 'a left \<times> database) \<Rightarrow> app_state \<Rightarrow> 'a left \<times> app_state" where
  "session_scope commit_error body p =
     (case get_sessionmaker p of
        Inl err \<Rightarrow> (Raises err, p)
      | Inr _ \<Rightarrow>
          (case body (db (state_of p)) of
             (Returns a, d) \<Rightarrow>
               (case commit_error of
                  None \<Rightarrow> (Returns a, p\<lparr>state_of := (state_of p)\<lparr>db := d\<rparr>\<rparr>)
                | Some err \<Rightarrow> (Raises err, p))
           | (Raises err, _) \<Rightarrow> (Raises err, p)
           | (Exits, _) \<Rightarrow> (Exits, p)))"

text \<open>\<open>SELECT 1\<close>, which may raise, in a session of its own.\<close>

definition ping :: "exn option \<Rightarrow> exn option \<Rightarrow> app_state \<Rightarrow> bool left \<times> app_state" where
  "ping commit_error select_error =
     session_scope commit_error (\<lambda>d. (case select_error of None \<Rightarrow> Returns True | Some err \<Rightarrow> Raises err, d))"

text \<open>A stage that works on the database.\<close>

definition db_stage :: "process_env \<Rightarrow> stage \<Rightarrow> (app_state \<Rightarrow> app_state) \<Rightarrow> app_state \<Rightarrow> (exn + unit) \<times> app_state" where
  "db_stage x st f p = (case get_sessionmaker p of Inl err \<Rightarrow> (Inl err, p) | Inr _ \<Rightarrow> attempt x st f p)"

definition create_tables :: "process_env \<Rightarrow> app_state \<Rightarrow> (exn + unit) \<times> app_state" where
  "create_tables x p =
     (case get_engine p of
        Inl err \<Rightarrow> (Inl err, p)
      | Inr _ \<Rightarrow>
          (case create_all (tables_of p) of
             Inl _ \<Rightarrow> (Inl (Unexpected ''create_all''), p)
           | Inr sc \<Rightarrow> attempt x Create_tables (\<lambda>p. p\<lparr>tables_of := sc\<rparr>) p))"

section \<open>Dispatcher tasks\<close>

definition dispatcher_tasks :: "settings \<Rightarrow> string list" where
  "dispatcher_tasks s = ''dispatch-producer'' # map (\<lambda>i. ''dispatch-worker-'' @ dec i) [0..<nat (workers (dispatch s))] @
     [''dispatch-housekeeping'']"

definition dispatcher_start :: "process_env \<Rightarrow> settings \<Rightarrow> app_state \<Rightarrow> (exn + unit) \<times> app_state" where
  "dispatcher_start x s =
     and_then (db_stage x Orphans (\<lambda>p. p\<lparr>state_of := snd (recover_orphans (state_of p))\<rparr>))
       (\<lambda>p. (Inr (), p\<lparr>tasks := dispatcher_tasks s\<rparr>))"

definition dispatcher_stop :: "app_state \<Rightarrow> app_state" where
  "dispatcher_stop p = p\<lparr>tasks := []\<rparr>"

section \<open>The ingress server\<close>

definition build_tls_context :: "settings \<Rightarrow> (string \<times> string option) option" where
  "build_tls_context s =
     (let tls = ing_tls (ingress s)
      in if \<not> tls_enabled tls then None else Some (the (cert_file tls), key_file tls))"

definition smtp_options :: "settings \<Rightarrow> (string \<times> string option) option \<Rightarrow> smtp_kwargs" where
  "smtp_options s tls =
     (let ing = ingress s in
      \<lparr>data_size_limit = max_message_bytes ing, enable_SMTPUTF8 = True, ident = ''smtp-switch'', smtp_timeout = 120,
       tls_context = tls, kw_require_starttls = require_starttls (ing_tls ing), auth_required = require_auth ing,
       auth_require_tls = (tls \<noteq> None \<and> require_starttls (ing_tls ing))\<rparr>)"

definition ingress_controller :: "settings \<Rightarrow> gated_controller" where
  "ingress_controller s =
     (let ing = ingress s
      in \<lparr>bind_address = ing_host ing, bind_port = ing_port ing, greeting_hostname = ing_hostname ing,
          SMTP_kwargs = smtp_options s (build_tls_context s)\<rparr>)"

text \<open>\<open>_GatedController\<close>: \<open>hostname\<close> is the address to bind, the greeting has a name of its own.\<close>

definition factory :: "gated_controller \<Rightarrow> smtp_object" where
  "factory g = \<lparr>smtp_hostname = greeting_hostname g, smtp_arguments = SMTP_kwargs g\<rparr>"

definition start_async :: "process_env \<Rightarrow> gated_controller \<Rightarrow> app_state \<Rightarrow> (exn + unit) \<times> app_state" where
  "start_async x g = attempt x Smtp_port (\<lambda>p. p\<lparr>smtp_server := Some (bound_port x (bind_port g), factory g)\<rparr>)"

definition stop_async :: "app_state \<Rightarrow> app_state" where
  "stop_async p = (if smtp_server p \<noteq> None then p\<lparr>smtp_server := None\<rparr> else p)"

definition ingress_start :: "process_env \<Rightarrow> settings \<Rightarrow> app_state \<Rightarrow> (exn + unit) \<times> app_state" where
  "ingress_start x s =
     and_then (attempt x Spool_dir (\<lambda>p. p\<lparr>dirs := mkdir_parents (path_of (spool_dir (dispatch s))) (dirs p)\<rparr>))
     (and_then (db_stage x Account_rows (\<lambda>p. p\<lparr>snapshot_of := Some (store_refresh (state_of p) empty_store)\<rparr>))
     (and_then (if tls_enabled (ing_tls (ingress s)) then attempt x Tls_files id else (\<lambda>p. (Inr (), p)))
     (and_then (start_async x (ingress_controller s))
     (\<lambda>p. (Inr (), p\<lparr>refreshing := True\<rparr>)))))"

definition ingress_port :: "settings \<Rightarrow> app_state \<Rightarrow> int" where
  "ingress_port s p = (case smtp_server p of Some (n, _) \<Rightarrow> n | None \<Rightarrow> ing_port (ingress s))"

definition ingress_stop :: "app_state \<Rightarrow> app_state" where
  "ingress_stop p = stop_async (p\<lparr>refreshing := False\<rparr>)"

text \<open>One round of \<open>_refresh_loop\<close>: an error is logged and the old snapshot stays.\<close>

definition refresh_turn :: "process_env \<Rightarrow> app_state \<Rightarrow> app_state" where
  "refresh_turn x p =
     (if refreshing p
      then snd (db_stage x Account_rows (\<lambda>p. p\<lparr>snapshot_of := Some (store_refresh (state_of p) empty_store)\<rparr>) p)
      else p)"

section \<open>The application\<close>

text \<open>The loop that waits for uvicorn: \<open>None\<close> when it never reports that it has started.\<close>

partial_function (option) wait_started :: "(nat \<Rightarrow> bool) \<Rightarrow> nat \<Rightarrow> nat option" where
  "wait_started started n = (if started n then Some n else wait_started started (Suc n))"

text \<open>The server reports its start after the lifespan of the application: \<open>ensure_bootstrap_user\<close>.\<close>

definition start_web ::
  "'e env_scheme \<Rightarrow> crypto \<Rightarrow> process_env \<Rightarrow> app_state \<Rightarrow> ((exn + unit) \<times> app_state) option" where
  "start_web e c x p =
     map_option (\<lambda>_. (Inr (), p\<lparr>http_server := True, state_of := snd (ensure_bootstrap_user e c (state_of p))\<rparr>))
       (wait_started (web_started x) 0)"

definition start_core :: "process_env \<Rightarrow> settings \<Rightarrow> bool \<Rightarrow> app_state \<Rightarrow> (exn + unit) \<times> app_state" where
  "start_core x s with_ingress =
     and_then (\<lambda>p. (Inr (), p\<lparr>logs := configure_logging (logging s) (logs p)\<rparr>))
     (and_then (init_engine x s)
     (and_then (if auto_create (database_cfg s) then create_tables x else (\<lambda>p. (Inr (), p)))
     (and_then (db_stage x Overrides (\<lambda>p. p\<lparr>state_of := refresh_overrides (fresh_process (state_of p))\<rparr>))
     (and_then (db_stage x Breaker_rows (\<lambda>p. p\<lparr>state_of := load (state_of p)\<rparr>))
     (and_then (dispatcher_start x s)
     (if with_ingress then ingress_start x s else (\<lambda>p. (Inr (), p))))))))"

definition start ::
  "'e env_scheme \<Rightarrow> crypto \<Rightarrow> process_env \<Rightarrow> settings \<Rightarrow> bool \<Rightarrow> bool \<Rightarrow> app_state \<Rightarrow> ((exn + unit) \<times> app_state) option" where
  "start e c x s with_ingress with_web p =
     (case start_core x s with_ingress p of
        (Inl err, p) \<Rightarrow> Some (Inl err, p)
      | (Inr _, p) \<Rightarrow> if with_web then start_web e c x p else Some (Inr (), p))"

text \<open>\<open>stop\<close> waits for the web task first; an exception of that task leaves the rest running.\<close>

definition stop :: "process_env \<Rightarrow> bool \<Rightarrow> app_state \<Rightarrow> (exn + unit) \<times> app_state" where
  "stop x with_ingress =
     and_then (\<lambda>p. if http_server p then (case web_result x of Some err \<Rightarrow> (Inl err, p\<lparr>http_server := False\<rparr>)
                                    | None \<Rightarrow> (Inr (), p\<lparr>http_server := False\<rparr>)) else (Inr (), p))
       (\<lambda>p. (Inr (), dispose_engine (dispatcher_stop (if with_ingress then ingress_stop p else p))))"

text \<open>\<open>run\<close>: \<open>stop\<close> is in the \<open>finally\<close> of the wait for the signal, not of \<open>start\<close>.\<close>

definition run ::
  "'e env_scheme \<Rightarrow> crypto \<Rightarrow> process_env \<Rightarrow> settings \<Rightarrow> bool \<Rightarrow> bool \<Rightarrow> app_state \<Rightarrow> ((exn + unit) \<times> app_state) option" where
  "run e c x s with_ingress with_web p =
     (case start e c x s with_ingress with_web p of
        None \<Rightarrow> None
      | Some (Inl err, p) \<Rightarrow> Some (Inl err, p)
      | Some (Inr _, p) \<Rightarrow> Some (stop x with_ingress p))"

text \<open>The entry point \<open>run\<close> of the module, with the options of its command line.\<close>

definition main_run ::
  "'e env_scheme \<Rightarrow> crypto \<Rightarrow> process_env \<Rightarrow> settings_lib \<Rightarrow> os_env \<Rightarrow> string option \<Rightarrow> bool \<Rightarrow> bool \<Rightarrow> app_state \<Rightarrow>
   load_error + ((exn + unit) \<times> app_state) option" where
  "main_run e c x l os config no_web no_ingress p =
     (case load_settings l os config of
        Inl err \<Rightarrow> Inl err
      | Inr s \<Rightarrow> Inr (run e c x s (\<not> no_ingress) (\<not> no_web) p))"

text \<open>\<open>_main_async\<close> of \<open>admin.py\<close>: only the command itself is in the \<open>try\<close> whose \<open>finally\<close> closes the engine.\<close>

definition admin_main ::
  "'e env_scheme \<Rightarrow> cli_env \<Rightarrow> crypto \<Rightarrow> process_env \<Rightarrow> settings \<Rightarrow> command \<Rightarrow> app_state \<Rightarrow>
   (exn + (cli_exit + cli_line list)) \<times> app_state" where
  "admin_main e z c x s cmd p =
     (case and_then (init_engine x s) (if auto_create (database_cfg s) then create_tables x else (\<lambda>p. (Inr (), p))) p of
        (Inl err, p) \<Rightarrow> (Inl err, p)
      | (Inr _, p) \<Rightarrow> (let (r, w) = run_command e z c cmd (state_of p) in (Inr r, dispose_engine (p\<lparr>state_of := w\<rparr>))))"

section \<open>Lemmas\<close>

lemma and_then_cases:
  "and_then f g p = (r, q) \<longleftrightarrow>
   (\<exists>err. f p = (Inl err, q) \<and> r = Inl err) \<or> (\<exists>p'. f p = (Inr (), p') \<and> g p' = (r, q))"
  by (cases "f p"; cases "fst (f p)") (auto simp: and_then_def)

lemma attempt_cases:
  "attempt x st f p = (r, q) \<longleftrightarrow> (fails x st = None \<and> r = Inr () \<and> q = f p) \<or> (\<exists>err. fails x st = Some err \<and> r = Inl err \<and> q = p)"
  by (auto simp: attempt_def split: option.splits)

lemma db_stage_cases:
  "sessionmaker p \<noteq> None \<Longrightarrow> db_stage x st f p = attempt x st f p"
  by (auto simp: db_stage_def get_sessionmaker_def)

lemma and_then_total [simp]: "and_then (\<lambda>p. (Inr (), f p)) g p = g (f p)"
  by (simp add: and_then_def)

lemmas stage_cases = and_then_cases attempt_cases

text \<open>A session leaves the database as the body made it, or as it was.\<close>

lemma session_scope_atomic:
  assumes "session_scope commit_error body p = (r, q)"
  shows "(\<exists>a d. r = Returns a \<and> body (db (state_of p)) = (Returns a, d) \<and> q = p\<lparr>state_of := (state_of p)\<lparr>db := d\<rparr>\<rparr>) \<or>
    ((\<forall>a. r \<noteq> Returns a) \<and> q = p)"
  using assms by (auto simp: session_scope_def split: sum.splits prod.splits left.splits option.splits)

lemma mkdir_parents_self [simp]: "d \<in> mkdir_parents d ds"
  unfolding mkdir_parents_def by (cases d) (auto intro!: rev_image_eqI [of "length (snd d)"])

text \<open>Only the logging, the engine, the directories and the schema differ.\<close>

definition idle_step :: "app_state \<Rightarrow> app_state \<Rightarrow> bool" where
  "idle_step p q \<longleftrightarrow> state_of q = state_of p \<and> tasks q = tasks p \<and> smtp_server q = smtp_server p \<and>
     snapshot_of q = snapshot_of p \<and> refreshing q = refreshing p \<and> http_server q = http_server p"

lemma init_engine_effect:
  assumes "init_engine x s p = (r, q)" "engine p = None"
  shows "idle_step p q \<and> engine q = (if r = Inr () then Some (create_async_engine s) else None) \<and>
    (r = Inr () \<longrightarrow> sessionmaker q = engine q)"
  using assms
  by (auto simp: init_engine_def ensure_sqlite_parent_def stage_cases Let_def idle_step_def split: option.splits if_splits)

lemma create_tables_effect: "create_tables x p = (r, q) \<Longrightarrow> idle_step p q \<and> engine q = engine p \<and> sessionmaker q = sessionmaker p"
  by (auto simp: create_tables_def attempt_cases idle_step_def split: sum.splits)

lemma ingress_start_effect:
  assumes "ingress_start x s p = (r, q)" "sessionmaker p \<noteq> None"
  shows "engine q = engine p \<and> tasks q = tasks p \<and> state_of q = state_of p \<and> http_server q = http_server p \<and>
    (r = Inr () \<longrightarrow> smtp_server q \<noteq> None \<and> refreshing q) \<and>
    (smtp_server q = smtp_server p \<or>
     smtp_server q = Some (bound_port x (ing_port (ingress s)), factory (ingress_controller s)) \<and>
     path_of (spool_dir (dispatch s)) \<in> dirs q \<and> snapshot_of q = Some (store_refresh (state_of p) empty_store))"
  using assms
  by (auto simp: ingress_start_def start_async_def stage_cases db_stage_cases split: if_splits) (simp_all add: ingress_controller_def Let_def)

text \<open>The tool opens the engine, runs its command on the database and closes the engine again.\<close>

lemma admin_main_effect:
  assumes "admin_main e z c x s cmd p = (Inr r, q)" "engine p = None"
  shows "engine q = None \<and> r = fst (run_command e z c cmd (state_of p)) \<and> state_of q = snd (run_command e z c cmd (state_of p))"
proof -
  let ?create = "if auto_create (database_cfg s) then create_tables x else (\<lambda>p. (Inr (), p))"
  obtain r0 q' where q0: "and_then (init_engine x s) ?create p = (r0, q')" by fastforce
  then have "r0 = Inr ()" using assms(1) by (cases r0) (simp_all add: admin_main_def)
  then have q: "and_then (init_engine x s) ?create p = (Inr (), q')" "q = dispose_engine (q'\<lparr>state_of := snd (run_command e z c cmd (state_of q'))\<rparr>)"
    "r = fst (run_command e z c cmd (state_of q'))"
    using assms(1) q0 by (auto simp: admin_main_def prod.case_eq_if Let_def)
  obtain p' where p: "init_engine x s p = (Inr (), p')" "?create p' = (Inr (), q')" using q(1) by (auto simp: and_then_cases)
  have "state_of q' = state_of p" using init_engine_effect [OF p(1) assms(2)] create_tables_effect [of x p' "Inr ()" q'] p(2)
    by (auto simp: idle_step_def split: if_splits)
  then show ?thesis using q(2,3) by (simp add: dispose_engine_def)
qed

text \<open>The start in two parts: up to the tables nothing runs, then the dispatcher and the ingress.\<close>

definition database_ready :: "settings \<Rightarrow> world \<Rightarrow> app_state \<Rightarrow> bool" where
  "database_ready s w p \<longleftrightarrow> engine p = Some (create_async_engine s) \<and> sessionmaker p = engine p \<and>
     tasks p = [] \<and> smtp_server p = None \<and> \<not> http_server p \<and> state_of p = w"

definition start_services :: "process_env \<Rightarrow> settings \<Rightarrow> bool \<Rightarrow> app_state \<Rightarrow> (exn + unit) \<times> app_state" where
  "start_services x s with_ingress =
     and_then (db_stage x Overrides (\<lambda>p. p\<lparr>state_of := refresh_overrides (fresh_process (state_of p))\<rparr>))
     (and_then (db_stage x Breaker_rows (\<lambda>p. p\<lparr>state_of := load (state_of p)\<rparr>))
     (and_then (dispatcher_start x s)
     (if with_ingress then ingress_start x s else (\<lambda>p. (Inr (), p)))))"

definition services_started :: "process_env \<Rightarrow> settings \<Rightarrow> world \<Rightarrow> bool \<Rightarrow> exn + unit \<Rightarrow> app_state \<Rightarrow> bool" where
  "services_started x s w with_ingress r q \<longleftrightarrow>
     \<not> http_server q \<and> (r = Inr () \<longrightarrow> with_ingress = (smtp_server q \<noteq> None)) \<and>
     (tasks q = [] \<and> smtp_server q = None \<and> r \<noteq> Inr () \<or>
      engine q = Some (create_async_engine s) \<and> tasks q = dispatcher_tasks s \<and> state_of q = app_start w \<and>
      (smtp_server q = None \<or>
       smtp_server q = Some (bound_port x (ing_port (ingress s)), factory (ingress_controller s)) \<and>
       path_of (spool_dir (dispatch s)) \<in> dirs q \<and> snapshot_of q = Some (store_refresh (app_start w) empty_store)))"

lemma start_services_effect:
  assumes "start_services x s with_ingress p = (r, q)" "database_ready s w p"
  shows "services_started x s w with_ingress r q"
proof -
  define ingress where "ingress = (if with_ingress then ingress_start x s else (\<lambda>p. (Inr (), p)))"
  have p: "sessionmaker p \<noteq> None" "engine p = Some (create_async_engine s)" "tasks p = []" "smtp_server p = None" "\<not> http_server p"
    "state_of p = w" using assms(2) by (auto simp: database_ready_def)
  consider err where "r = Inl err" "tasks q = []" "smtp_server q = None" "\<not> http_server q"
    | p3 where "ingress p3 = (r, q)" "engine p3 = engine p" "sessionmaker p3 = sessionmaker p" "tasks p3 = dispatcher_tasks s"
        "smtp_server p3 = None" "\<not> http_server p3" "state_of p3 = app_start w"
    using assms(1) p unfolding start_services_def ingress_def [symmetric]
    by (auto simp: stage_cases db_stage_cases dispatcher_start_def app_start_def Let_def)
  then show ?thesis
  proof cases
    case 2
    then show ?thesis using p ingress_start_effect [of x s p3 r q]
      unfolding ingress_def services_started_def by (cases with_ingress) auto
  qed (simp add: services_started_def)
qed

lemma start_core_effect:
  assumes "start_core x s with_ingress (initial_process ds sc w) = (r, q)"
  shows "services_started x s w with_ingress r q"
proof -
  let ?p = "(initial_process ds sc w)\<lparr>logs := configure_logging (logging s) (logs (initial_process ds sc w))\<rparr>"
  let ?create = "if auto_create (database_cfg s) then create_tables x else (\<lambda>p. (Inr (), p))"
  have p: "engine ?p = None" by (simp add: initial_process_def)
  have c: "start_core x s with_ingress (initial_process ds sc w) =
      and_then (init_engine x s) (and_then ?create (start_services x s with_ingress)) ?p"
    by (simp add: start_core_def start_services_def)
  have stopped: "services_started x s w with_ingress r q" if "r = Inl err" "idle_step ?p q" for err
    using that by (simp add: services_started_def idle_step_def initial_process_def)
  have created: "idle_step ?p p2 \<and> engine p2 = engine p1 \<and> sessionmaker p2 = sessionmaker p1"
    if "idle_step ?p p1" "?create p1 = (r', p2)" for p1 p2 r'
    using that create_tables_effect [of x p1 r' p2] by (auto simp: idle_step_def split: if_splits)
  from assms consider err where "r = Inl err" "init_engine x s ?p = (Inl err, q)"
    | err p1 where "r = Inl err" "init_engine x s ?p = (Inr (), p1)" "?create p1 = (Inl err, q)"
    | p1 p2 where "init_engine x s ?p = (Inr (), p1)" "?create p1 = (Inr (), p2)" "start_services x s with_ingress p2 = (r, q)"
    unfolding c and_then_cases by blast
  then show ?thesis
  proof cases
    case 1
    then show ?thesis using stopped init_engine_effect [OF 1(2) p] by blast
  next
    case (2 err p1)
    then show ?thesis using stopped created init_engine_effect [OF 2(2) p] by blast
  next
    case (3 p1 p2)
    have "database_ready s w p2"
      using created [OF _ 3(2)] init_engine_effect [OF 3(1) p] by (simp add: database_ready_def idle_step_def initial_process_def)
    then show ?thesis by (rule start_services_effect [OF 3(3)])
  qed
qed

lemma wait_started_None: "wait_started f n = None \<longleftrightarrow> (\<forall>k \<ge> n. \<not> f k)"
proof
  show "wait_started f n = None \<Longrightarrow> \<forall>k \<ge> n. \<not> f k"
  proof (rule ccontr)
    assume none: "wait_started f n = None" and "\<not> (\<forall>k \<ge> n. \<not> f k)"
    then obtain k where "n \<le> k" "f k" by blast
    then have "wait_started f n \<noteq> None"
    proof (induction "k - n" arbitrary: n)
      case 0
      then show ?case by (subst wait_started.simps) simp
    next
      case (Suc d)
      then show ?case using Suc.hyps(1) [of "Suc n"] by (subst wait_started.simps) simp
    qed
    then show False using none by simp
  qed
next
  have "f m \<and> n \<le> m" if "wait_started f n = Some m" for m
    using that by (rule wait_started.raw_induct [rotated]) (fastforce split: if_splits dest: Suc_leD)
  then show "\<forall>k \<ge> n. \<not> f k \<Longrightarrow> wait_started f n = None"
    by (cases "wait_started f n") auto
qed

lemma start_web_cases:
  "start_web e c x p = (if \<exists>n. web_started x n
     then Some (Inr (), p\<lparr>http_server := True, state_of := snd (ensure_bootstrap_user e c (state_of p))\<rparr>) else None)"
  using wait_started_None [of "web_started x" 0] by (auto simp: start_web_def)

lemma bootstrap_frame:
  "messages (db (snd (ensure_bootstrap_user e c w))) = messages (db w) \<and>
   accounts (db (snd (ensure_bootstrap_user e c w))) = accounts (db w) \<and>
   dashboard_users (db (snd (ensure_bootstrap_user e c w))) \<noteq> []"
  by (simp add: ensure_bootstrap_user_def hash_password_def utcnow_def Let_def)

lemma app_start_idle: "sending_ids (app_start w) = {}"
  by (auto simp: sending_ids_def app_start_def recover_orphans_def update_where_def Let_def)

lemma start_cases:
  assumes "start e c x s with_ingress with_web (initial_process ds sc w) = Some (r, p)"
  obtains q where "start_core x s with_ingress (initial_process ds sc w) = (r, q)"
    "p = (if with_web \<and> r = Inr () then q\<lparr>http_server := True, state_of := snd (ensure_bootstrap_user e c (state_of q))\<rparr> else q)"
  using assms by (auto simp: start_def start_web_cases split: prod.splits sum.splits if_splits)

section \<open>Properties\<close>

text \<open>Claim C25: nothing is served before what it needs is there. Whether the start succeeds or fails at
  any stage, the SMTP port is open only when the database is, the spool directory exists, the accounts
  are loaded, no message is left as being sent by an earlier process and the dispatcher's tasks
  run, and a login over it needs TLS exactly when the settings ask for it; the dashboard is served
  only after all of that, with a user to log in. A start that succeeds serves what was asked for.\<close>

theorem nothing_is_served_before_ready:
  assumes "valid_settings s" "start e c x s with_ingress with_web (initial_process ds sc w) = Some (r, p)"
  shows "(r = Inr () \<longrightarrow> tasks p = dispatcher_tasks s \<and> (smtp_server p \<noteq> None \<longleftrightarrow> with_ingress) \<and> (http_server p \<longleftrightarrow> with_web)) \<and>
    (\<forall>n k. smtp_server p = Some (n, k) \<longrightarrow> engine p = Some (create_async_engine s) \<and> tasks p = dispatcher_tasks s \<and>
       path_of (spool_dir (dispatch s)) \<in> dirs p \<and> snapshot_of p = Some (store_refresh (state_of p) empty_store) \<and>
       sending_ids (state_of p) = {} \<and> smtp_hostname k = ing_hostname (ingress s) \<and>
       auth_required (smtp_arguments k) = require_auth (ingress s) \<and>
       auth_require_tls (smtp_arguments k) = require_starttls (ing_tls (ingress s))) \<and>
    (http_server p \<longrightarrow> tasks p = dispatcher_tasks s \<and> (with_ingress \<longrightarrow> smtp_server p \<noteq> None) \<and>
       dashboard_users (db (state_of p)) \<noteq> [])"
proof -
  obtain q where q: "start_core x s with_ingress (initial_process ds sc w) = (r, q)"
    "p = (if with_web \<and> r = Inr () then q\<lparr>http_server := True, state_of := snd (ensure_bootstrap_user e c (state_of q))\<rparr> else q)"
    using assms(2) by (rule start_cases)
  have same: "sending_ids (state_of p) = sending_ids (state_of q)"
    "store_refresh (state_of p) empty_store = store_refresh (state_of q) empty_store"
    using bootstrap_frame [of e c "state_of q"] by (simp_all add: q(2) sending_ids_def store_refresh_def)
  have "require_starttls (ing_tls (ingress s)) \<longrightarrow> tls_enabled (ing_tls (ingress s))"
    using assms(1) by (auto simp: valid_settings_def valid_ingress_def check_pair_def tls_enabled_def split: if_splits)
  then have k: "auth_require_tls (smtp_arguments (factory (ingress_controller s))) = require_starttls (ing_tls (ingress s))"
    by (auto simp: factory_def ingress_controller_def smtp_options_def build_tls_context_def Let_def)
  have a: "smtp_hostname (factory (ingress_controller s)) = ing_hostname (ingress s)"
    "auth_required (smtp_arguments (factory (ingress_controller s))) = require_auth (ingress s)"
    by (simp_all add: factory_def ingress_controller_def smtp_options_def Let_def)
  obtain g where g: "g = factory (ingress_controller s)" by blast
  have p: "tasks p = tasks q" "smtp_server p = smtp_server q" "engine p = engine q" "dirs p = dirs q" "snapshot_of p = snapshot_of q"
    "http_server p \<longleftrightarrow> http_server q \<or> with_web \<and> r = Inr ()"
    "http_server p \<longrightarrow> http_server q \<or> dashboard_users (db (state_of p)) \<noteq> []"
    using bootstrap_frame [of e c "state_of q"] by (auto simp: q(2))
  show ?thesis
    using start_core_effect [OF q(1), unfolded services_started_def, folded g] p same k [folded g] a [folded g] app_start_idle [of w] by (elim conjE disjE) simp_all
qed

definition demo_process_env :: process_env where
  "demo_process_env = \<lparr>fails = (\<lambda>_. None), bound_port = (\<lambda>n. n), web_started = (\<lambda>n. n = 3), web_result = None\<rparr>"

definition file_settings :: settings where
  "file_settings = demo_settings\<lparr>database_cfg := \<lparr>url = ''sqlite+aiosqlite:///./data/s.db'', echo = False, auto_create = False\<rparr>\<rparr>"

lemma file_settings_valid: "valid_settings file_settings"
  using demo_settings_valid
  by (auto simp: valid_settings_def file_settings_def validate_providers_def Let_def split: if_splits)

lemma start_core_succeeds:
  assumes "\<And>st. fails x st = None" "\<not> auto_create (database_cfg s)"
  shows "\<exists>q. start_core x s with_ingress (initial_process ds sc w) = (Inr (), q)"
  using assms
  by (auto simp: start_core_def and_then_def init_engine_def ensure_sqlite_parent_def attempt_def db_stage_def get_sessionmaker_def
      dispatcher_start_def ingress_start_def start_async_def initial_process_def Let_def split: option.split)

lemma demo_started:
  obtains p where "start demo_env demo_crypto demo_process_env file_settings True True (initial_process {} empty_schema init_world) = Some (Inr (), p)"
  using start_core_succeeds [of demo_process_env file_settings True "{}" empty_schema init_world]
  by (auto simp: demo_process_env_def file_settings_def start_def start_web_cases)

theorem nothing_is_served_before_ready_witness:
  "\<exists>p. start demo_env demo_crypto demo_process_env file_settings True True (initial_process {} empty_schema init_world) = Some (Inr (), p) \<and>
     smtp_server p \<noteq> None \<and> http_server p \<and> sending_ids (state_of p) = {}"
proof -
  obtain p where p: "start demo_env demo_crypto demo_process_env file_settings True True (initial_process {} empty_schema init_world) = Some (Inr (), p)"
    by (rule demo_started)
  then show ?thesis using nothing_is_served_before_ready [OF file_settings_valid p] by auto
qed

text \<open>Claim C27: \<open>run\<close> leaves nothing behind when the start and the web task succeed: the ports are closed,
  the tasks are gone, the engine is disposed. But the shutdown belongs only to that case: an error in
  any stage of the start leaves the state of that moment as it is, and an error of the web task makes
  \<open>stop\<close> skip the ingress server, the dispatcher and the engine.\<close>

theorem run_cleans_up_after_success:
  assumes "start e c x s with_ingress with_web (initial_process ds sc w) = Some (r, p)"
  shows "\<exists>r' q. run e c x s with_ingress with_web (initial_process ds sc w) = Some (r', q) \<and>
    (r = Inr () \<and> (with_web \<longrightarrow> web_result x = None) \<longrightarrow>
       r' = Inr () \<and> engine q = None \<and> tasks q = [] \<and> smtp_server q = None \<and> \<not> http_server q) \<and>
    (r \<noteq> Inr () \<longrightarrow> r' = r \<and> q = p) \<and>
    (\<forall>err. r = Inr () \<and> with_web \<and> web_result x = Some err \<longrightarrow>
       r' = Inl err \<and> engine q = engine p \<and> tasks q = tasks p \<and> smtp_server q = smtp_server p)"
proof -
  obtain q where q: "start_core x s with_ingress (initial_process ds sc w) = (r, q)"
    "p = (if with_web \<and> r = Inr () then q\<lparr>http_server := True, state_of := snd (ensure_bootstrap_user e c (state_of q))\<rparr> else q)"
    using assms by (rule start_cases)
  show ?thesis
    using start_core_effect [OF q(1), unfolded services_started_def] assms
    by (cases "with_web \<and> r = Inr ()"; cases r)
      (auto simp: q(2) run_def stop_def and_then_def ingress_stop_def stop_async_def dispatcher_stop_def dispose_engine_def split: option.split)
qed

theorem run_cleans_up_after_success_witness:
  "\<exists>q. run demo_env demo_crypto demo_process_env file_settings True True (initial_process {} empty_schema init_world) = Some (Inr (), q) \<and>
     engine q = None \<and> tasks q = [] \<and> smtp_server q = None"
proof -
  obtain p where p: "start demo_env demo_crypto demo_process_env file_settings True True (initial_process {} empty_schema init_world) = Some (Inr (), p)"
    by (rule demo_started)
  have "web_result demo_process_env = None" by (simp add: demo_process_env_def)
  then show ?thesis using run_cleans_up_after_success [OF p] by auto
qed



end
