(* ===== verification/Migrations.thy ===== *)
theory Migrations
  imports Lifecycle
begin

text \<open>
  \<open>src/smtp_switch/migrations/env.py\<close>, the script that Alembic runs for each of its commands: the database
  URL goes through the options of \<open>alembic.ini\<close>, then the migrations run on a connection to it or are
  written out as SQL. Alembic itself is a parameter (\<open>alembic\<close>); \<open>alembic_ok\<close> says what its command
  \<open>upgrade head\<close> does with one revision.
\<close>

section \<open>Alembic\<close>

text \<open>A database as migrations see it: its schema and the revision in its version table.\<close>

record migration_db =
  mg_schema :: schema
  mg_version :: "string option"

text \<open>The arguments of \<open>context.configure\<close>; a connection is named by its URL.\<close>

record configure_args =
  arg_url :: "string option"
  arg_connection :: "string option"
  target_metadata :: "model list"
  literal_binds :: bool
  dialect_opts :: "(string \<times> string) list"
  render_as_batch :: bool
  compare_type :: "bool option"

text \<open>\<open>run_migrations\<close> in a transaction gives the database as it leaves it, also when it raises.\<close>

record alembic =
  x_argument :: "string \<Rightarrow> string option"
  ini_option :: "string \<Rightarrow> string option"
  is_offline_mode :: bool
  dialect_name :: "string \<Rightarrow> string"
  connect :: "string \<Rightarrow> exn + unit"
  run_migrations :: "configure_args \<Rightarrow> migration_db \<Rightarrow> (exn + unit) \<times> migration_db"
  migration_script :: "configure_args \<Rightarrow> exn + string"

datatype migration_result = Config_error load_error | Failed exn | Script string | Migrated

text \<open>An option of \<open>alembic.ini\<close> with \<open>%%\<close> and the references \<open>%(name)s\<close> to other options replaced.\<close>

definition reference_name :: "string \<Rightarrow> string" where
  "reference_name cs = takeWhile (\<lambda>c. c \<noteq> CHR '')'') (tl cs)"

function interpolate :: "(string \<Rightarrow> string option) \<Rightarrow> string \<Rightarrow> string option" where
  "interpolate f [] = Some []"
| "interpolate f (c # cs) =
     (if c \<noteq> CHR ''%'' then map_option (Cons c) (interpolate f cs)
      else if take 1 cs = ''%'' then map_option (Cons c) (interpolate f (drop 1 cs))
      else case reference_rest cs of
          None \<Rightarrow> None
        | Some ds \<Rightarrow> (case f (reference_name cs) of None \<Rightarrow> None | Some v \<Rightarrow> map_option (append v) (interpolate f ds)))"
  by pat_completeness auto
termination by (relation "measure (length \<circ> snd)") (auto dest: reference_rest_length)

definition get_main_option :: "alembic \<Rightarrow> string \<Rightarrow> load_error + string" where
  "get_main_option al value =
     (case interpolate (ini_option al) value of None \<Rightarrow> Inl (Bad_interpolation value) | Some u \<Rightarrow> Inr u)"

section \<open>The script\<close>

type_synonym databases = "string \<Rightarrow> migration_db"

definition run_migrations_offline :: "alembic \<Rightarrow> string \<Rightarrow> migration_result" where
  "run_migrations_offline al option_value =
     (case get_main_option al option_value of
        Inl err \<Rightarrow> Config_error err
      | Inr u \<Rightarrow>
          (case migration_script al \<lparr>arg_url = Some u, arg_connection = None, target_metadata = metadata, literal_binds = True,
                  dialect_opts = [(''paramstyle'', ''named'')], render_as_batch = False, compare_type = None\<rparr> of
             Inl err \<Rightarrow> Failed err
           | Inr sql \<Rightarrow> Script sql))"

definition do_run_migrations :: "alembic \<Rightarrow> string \<Rightarrow> databases \<Rightarrow> (exn + unit) \<times> databases" where
  "do_run_migrations al connection dbs =
     (let (r, m) = run_migrations al \<lparr>arg_url = None, arg_connection = Some connection, target_metadata = metadata,
            literal_binds = False, dialect_opts = [], render_as_batch = (dialect_name al connection = ''sqlite''),
            compare_type = Some True\<rparr> (dbs connection)
      in (r, dbs(connection := m)))"

text \<open>The engine is made from the section of the file: without the arguments and pragmas of \<open>init_engine\<close>.\<close>

definition run_async_migrations :: "alembic \<Rightarrow> string \<Rightarrow> databases \<Rightarrow> migration_result \<times> databases" where
  "run_async_migrations al option_value dbs =
     (case get_main_option al option_value of
        Inl err \<Rightarrow> (Config_error err, dbs)
      | Inr u \<Rightarrow>
          (case connect al u of
             Inl err \<Rightarrow> (Failed err, dbs)
           | Inr _ \<Rightarrow>
               (case do_run_migrations al u dbs of
                  (Inl err, dbs) \<Rightarrow> (Failed err, dbs)
                | (Inr _, dbs) \<Rightarrow> (Migrated, dbs))))"

definition run_migrations_online :: "alembic \<Rightarrow> string \<Rightarrow> databases \<Rightarrow> migration_result \<times> databases" where
  "run_migrations_online = run_async_migrations"

definition env_main :: "settings_lib \<Rightarrow> os_env \<Rightarrow> alembic \<Rightarrow> databases \<Rightarrow> migration_result \<times> databases" where
  "env_main l os al dbs =
     (case migration_url l os (x_argument al ''db_url'') of
        Inl err \<Rightarrow> (Config_error err, dbs)
      | Inr v \<Rightarrow> if is_offline_mode al then (run_migrations_offline al v, dbs) else run_migrations_online al v dbs)"

section \<open>What Alembic promises\<close>

definition revision :: string where "revision = ''04043399b769''"

definition alembic_ok :: "alembic \<Rightarrow> bool" where
  "alembic_ok al \<longleftrightarrow> (\<forall>args m. arg_connection args \<noteq> None \<longrightarrow>
     (case mg_version m of
        None \<Rightarrow> (case upgrade (mg_schema m) of
             Inl _ \<Rightarrow> fst (run_migrations al args m) \<noteq> Inr ()
           | Inr sc \<Rightarrow> run_migrations al args m = (Inr (), \<lparr>mg_schema = sc, mg_version = Some revision\<rparr>))
      | Some v \<Rightarrow> v = revision \<longrightarrow> run_migrations al args m = (Inr (), m)))"

section \<open>Lemmas\<close>

lemma plain_url:
  assumes "CHR ''%'' \<notin> set u"
  shows "interpolate f u = Some u" "drop_doubled u = u" "\<not> lone_percent u"
proof -
  show "interpolate f u = Some u" "\<not> lone_percent u" using assms by (induction u) auto
  show "drop_doubled u = u" using assms by (induction u rule: drop_doubled.induct) auto
qed

lemma plain_env_main:
  assumes "merge_ok l" "url_env_ok l" "load_settings l os None = Inr s" "x_argument al ''db_url'' = None"
    "CHR ''%'' \<notin> set (url (database_cfg s))"
  shows "env_main l os al dbs =
    (if is_offline_mode al then (run_migrations_offline al (url (database_cfg s)), dbs)
     else run_migrations_online al (url (database_cfg s)) dbs)"
  using migrations_use_program_database [OF assms(1-3)] plain_url [OF assms(5)] assms(4) by (simp add: env_main_def)

definition online_args :: "alembic \<Rightarrow> string \<Rightarrow> configure_args" where
  "online_args al u = \<lparr>arg_url = None, arg_connection = Some u, target_metadata = metadata, literal_binds = False, dialect_opts = [],
     render_as_batch = (dialect_name al u = ''sqlite''), compare_type = Some True\<rparr>"

lemma online_run:
  assumes "CHR ''%'' \<notin> set u" "connect al u = Inr ()"
  shows "run_migrations_online al u dbs =
    (let (r, m) = run_migrations al (online_args al u) (dbs u) in (case r of Inl err \<Rightarrow> Failed err | Inr _ \<Rightarrow> Migrated, dbs(u := m)))"
  using assms plain_url(1) [OF assms(1)]
  by (simp add: run_migrations_online_def run_async_migrations_def get_main_option_def do_run_migrations_def online_args_def
      prod.case_eq_if Let_def split: sum.split)

section \<open>Properties\<close>

text \<open>Claim C30: migrating sets up the database that the program then runs on. Whenever the settings load, no
  other database is asked for, the URL has no percent sign and the database can be reached, the
  first run on a database without the program's tables creates there, and in no other database,
  exactly the schema of the models and notes the revision; running it again and starting the
  program with \<open>auto_create\<close> change nothing more. But a database that the program has set up itself
  has no revision, and migrating it raises. In offline mode no database is touched.\<close>

theorem migrations_set_up_program_database:
  assumes lib: "merge_ok l" "url_env_ok l" "alembic_ok al"
    and s: "load_settings l os None = Inr s" "x_argument al ''db_url'' = None" "u = url (database_cfg s)" "CHR ''%'' \<notin> set u"
    and c: "connect al u = Inr ()"
    and m: "unused (mg_schema (dbs u))" "mg_version (dbs u) = None"
  shows "\<exists>sc. create_all (mg_schema (dbs u)) = Inr sc \<and> create_all sc = Inr sc \<and>
    (if is_offline_mode al then snd (env_main l os al dbs) = dbs
     else let dbs' = dbs(u := \<lparr>mg_schema = sc, mg_version = Some revision\<rparr>)
          in env_main l os al dbs = (Migrated, dbs') \<and> env_main l os al dbs' = (Migrated, dbs') \<and>
             (\<exists>err. fst (env_main l os al (dbs(u := \<lparr>mg_schema = sc, mg_version = None\<rparr>))) = Failed err))"
proof -
  obtain sc where sc: "upgrade (mg_schema (dbs u)) = Inr sc" "create_all (mg_schema (dbs u)) = Inr sc" "has_models sc"
    using both_create_models [OF m(1)] by blast
  note again = create_models_again [OF sc(3)]
  note env = plain_env_main [OF lib(1,2) s(1,2), folded s(3), OF s(4)]
  have offline: "snd (env_main l os al dbs) = dbs" if "is_offline_mode al" using that by (simp add: env)
  have online: "env_main l os al d = (case fst (run_migrations al args (d u)) of Inl err \<Rightarrow> Failed err | Inr _ \<Rightarrow> Migrated,
      d(u := snd (run_migrations al args (d u))))" if "\<not> is_offline_mode al" "args = online_args al u" for d args
    using that online_run [OF s(4) c] by (simp add: env prod.case_eq_if)
  have "arg_connection (online_args al u) \<noteq> None" by (simp add: online_args_def)
  note law = lib(3) [unfolded alembic_ok_def, rule_format, OF this]
  show ?thesis
    using sc(2) again(2) offline online [OF _ refl] law [of "dbs u"] law [of "\<lparr>mg_schema = sc, mg_version = Some revision\<rparr>"]
      law [of "\<lparr>mg_schema = sc, mg_version = None\<rparr>"] m(2) sc(1) again(1)
    by (intro exI [of _ sc]) (auto simp: Let_def split: sum.splits)
qed

text \<open>An Alembic that knows the one revision.\<close>

definition demo_alembic :: alembic where
  "demo_alembic = \<lparr>x_argument = Map.empty, ini_option = Map.empty, is_offline_mode = False, dialect_name = (\<lambda>_. ''sqlite''),
     connect = (\<lambda>_. Inr ()),
     run_migrations = (\<lambda>args m. case mg_version m of
         None \<Rightarrow> (case upgrade (mg_schema m) of Inl _ \<Rightarrow> (Inl (Unexpected ''upgrade''), m)
           | Inr sc \<Rightarrow> (Inr (), \<lparr>mg_schema = sc, mg_version = Some revision\<rparr>))
       | Some v \<Rightarrow> (Inr (), m)),
     migration_script = (\<lambda>_. Inr [])\<rparr>"

definition quiet_os :: os_env where
  "quiet_os = \<lparr>environ = Map.empty, text_files = Map.empty\<rparr>"

lemma quiet_settings: "load_settings demo_lib quiet_os None = Inr demo_settings"
  using demo_settings_valid
  by (auto simp: load_settings_def Settings_def demo_lib_def quiet_os_def config_path_def str_or_empty_def first_some_def
      settings_customise_sources_def YamlSource_def url_leaf_def valid_settings_def field_constraints_def validate_providers_def Let_def
      split: if_splits)

theorem migrations_set_up_program_database_witness:
  "\<exists>sc. create_all empty_schema = Inr sc \<and>
     env_main demo_lib quiet_os demo_alembic (\<lambda>_. \<lparr>mg_schema = empty_schema, mg_version = None\<rparr>) =
       (Migrated, (\<lambda>_. \<lparr>mg_schema = empty_schema, mg_version = None\<rparr>)(''sqlite'' := \<lparr>mg_schema = sc, mg_version = Some revision\<rparr>))"
proof -
  have "merge_ok demo_lib" by (simp add: merge_ok_def demo_lib_def)
  moreover have "url_env_ok demo_lib"
    by (auto simp: url_env_ok_def demo_lib_def split: option.splits yaml.splits)
  moreover have "alembic_ok demo_alembic" by (auto simp: alembic_ok_def demo_alembic_def split: option.split sum.split)
  moreover have "''sqlite'' = url (database_cfg demo_settings)" "CHR ''%'' \<notin> set ''sqlite''" by (simp_all add: demo_settings_def)
  moreover have "x_argument demo_alembic ''db_url'' = None" "connect demo_alembic ''sqlite'' = Inr ()" "\<not> is_offline_mode demo_alembic"
    by (simp_all add: demo_alembic_def)
  moreover have "unused empty_schema" by (simp add: unused_def empty_schema_def)
  ultimately show ?thesis
    using migrations_set_up_program_database [OF _ _ _ quiet_settings, of demo_alembic "''sqlite''"
        "\<lambda>_. \<lparr>mg_schema = empty_schema, mg_version = None\<rparr>"]
    by (auto simp: Let_def)
qed

end
