(* ===== verification/Spec2Isabelle.thy ===== *)
theory Spec2Isabelle
  imports Live_System Migrations
begin

text \<open>
  A verification development for SMTP-Switch, a store-and-forward mail relay. Internal services submit
  mail over SMTP; each message is stored (a database row and a file with its bytes) and handed, later,
  to one of several upstream providers, within the rate limits of each, around the providers that are
  down, with retries, until it is delivered or dead-lettered. One process runs the SMTP ingress, the
  dispatcher and a dashboard on one event loop over one SQLite database; a command line tool works on
  the same database from a process of its own. The sources are the Python files under
  \<open>src/smtp_switch/\<close>; paths below are relative to it.

  The parts of the program and where they are modelled

  \<^item> Configuration. \<open>config.py\<close>: \<open>Config\<close> has the settings tree as records, its validators and
    derived properties; \<open>Loading\<close> the search for the file, the order of the sources, the cached
    settings, and the database URL of \<open>migrations/env.py\<close>; \<open>Logging\<close> what \<open>logging_setup.py\<close> does to
    the two logging libraries; \<open>IPAddr\<close> what \<open>ipaddress\<close> does with the
    entries of the allowlist.
  \<^item> Time and numbers. \<open>PyTime\<close> (naive UTC datetimes as microseconds and the civil calendar), \<open>PyFloat\<close>
    (binary64 rounding of exact rationals) and \<open>Util\<close> (\<open>util.py\<close>: the retry delay and the period keys of
    the quota tables).
  \<^item> Data. \<open>Models\<close> has a record per table row of \<open>db/models.py\<close>; \<open>Schema\<close> the tables, columns and indexes
    that the declarations and the migration create; \<open>Row_Types\<close> what it means that a row fits its table.
    \<open>World\<close> is the state that the operations pass along: the database, the spool, and the memory of the
    limiter, the breaker, the registry and the queue.
  \<^item> Dispatch. \<open>Registry\<close> (\<open>providers/registry.py\<close>), \<open>Health\<close> (\<open>dispatch/health.py\<close>, the circuit breaker),
    \<open>Rate_Limiter\<close> (\<open>dispatch/rate_limiter.py\<close>), \<open>Router\<close> (\<open>dispatch/router.py\<close>), \<open>Sender\<close>
    (\<open>dispatch/sender.py\<close>), and \<open>dispatch/worker.py\<close> in four layers: \<open>Message_Store\<close> (claim, recovery, the
    writes that end a tick, retention), \<open>Worker\<close> (what a consumer does with one message), \<open>Dispatcher\<close>
    (producer, consumers, housekeeping and restarts as a step relation over whole turns) and
    \<open>Interleaving\<close> (the same with consumers that are interrupted at every await, and cancelled at a
    shutdown). \<open>Races\<close> sets the dashboard against a consumer in the middle of a turn.
  \<^item> Ingress. \<open>Accounts\<close> (\<open>security.py\<close>, \<open>ingress/auth.py\<close>), \<open>Ingress\<close> (the hooks of \<open>ingress/server.py\<close>) and
    \<open>Sessions\<close> (any number of connections that call the hooks in the order of the SMTP protocol).
  \<^item> Dashboard. \<open>Queries\<close> (\<open>web/queries.py\<close>), \<open>Web_Api\<close> (\<open>web/security.py\<close>, \<open>web/api.py\<close>) and \<open>Pages\<close>
    (\<open>web/views.py\<close>, \<open>web/app.py\<close>). \<open>Admin\<close> is the command line tool \<open>admin.py\<close>.
  \<^item> The process. \<open>Lifecycle\<close> has the engine and the sessions of \<open>db/session.py\<close>, the start and stop of the
    ingress server and of \<open>Application\<close> in \<open>main.py\<close>; \<open>Migrations\<close> the script \<open>migrations/env.py\<close> that
    Alembic runs in a process of its own. \<open>System\<close> puts everything together: one step
    relation in which dispatcher turns, SMTP commands, requests to the site, administration commands
    and restarts happen in any order. \<open>Live_System\<close> has the same over the consumers of \<open>Interleaving\<close>, so
    that commands and requests also come between the awaits of a turn.

  How the program is modelled

  An operation is a function from the world to a result and the new world; a fallible one returns a
  sum whose left side is the exception. The names are those of the Python functions, without leading
  underscores. What the process reads from outside is an environment record: the clock and the random
  generator are sequences indexed by the number of readings made so far (\<open>tick\<close>), so that two calls of
  \<open>utcnow()\<close> are two readings. Tables that are searched are lists of rows in row id order, with
  SQLite's choice of the next row id; tables used by primary key are maps. An operation that runs
  under a lock, and a session block, is one state transformer. In \<open>Dispatcher\<close> and \<open>System\<close> a consumer's turn is one step; in
  \<open>Interleaving\<close> and \<open>Live_System\<close> a consumer is a value of the datatype \<open>consumer\<close>, which says where in the turn it stands and
  with which local variables, and \<open>resume\<close> takes it to the next await, so that any other task may run in
  between. The steps of an uninterrupted consumer make up the turn of \<open>Worker\<close>.

  Interfaces

  \<^item> \<open>invariant_system\<close> (\<open>Prelude\<close>): an invariant of a step relation holds in every reachable state;
    interpreted on the breaker (\<open>cb_sys\<close>, \<open>stuck_sys\<close>), the limiter (\<open>rl_sys\<close>), the dispatcher
    (\<open>disp_sys\<close>, \<open>final_sys\<close>, \<open>tasks_sys\<close>), the connections (\<open>front_sys\<close>) and the whole system, with whole
    turns (\<open>system_sys\<close>) and with interrupted ones (\<open>live_sys\<close>).
  \<^item> \<open>rounding\<close> (\<open>PyFloat\<close>): what the retry delay needs of floating point, discharged for binary64.
  \<^item> \<open>candidate_loop\<close> (\<open>Router\<close>): a first-fit loop over candidates, discharged for \<open>select\<close>.
  \<^item> \<open>row_write\<close> (\<open>Message_Store\<close>): a write of one message row, discharged for \<open>mark_sent\<close>,
    \<open>reschedule\<close> and \<open>deadletter\<close>.

  What is shown

  \<^item> Limits and breakers: no limit is exceeded in any reachable state; the counters are the
    reservations; the read-only check and the reservation agree; pruning changes no count; the breaker is
    well formed, opens at its threshold and survives a restart.
  \<^item> Routing and delivery: the router takes the first provider that fits and is \<open>find\<close> on a frozen clock;
    a call of \<open>process\<close> settles its message, by the decision table of its outcome, with a log of its
    attempts, and delivers through the best provider when it can.
  \<^item> Storage: a claim takes the earliest due messages; a settled message stays as it is; the sweep deletes
    only what has expired; consumers drain the queue; an error puts the message back.
  \<^item> Concurrency: however the awaits of the consumers, the other tasks, SMTP commands, requests and
    administration commands interleave, the queue, the producer and the consumers hold exactly the messages
    that are being sent, each once, and the slots taken are those the consumers have, as long as no
    request deletes a message in flight (\<open>Live_System\<close>; \<open>Interleaving\<close> for the tasks alone); a turn ends after a
    bounded number of its own steps.
  \<^item> Ingress: DATA stores exactly one message or nothing; in the whole system each stored message was
    submitted in a transaction that was accepted, by an account when authentication is required, and no
    message is lost between the parts.
  \<^item> Dashboard and administration: nothing is shown or changed without a session; a login opens one; a
    change of an account takes effect at once; the pages of the message list show every message; the
    commands of the tool do what they say.
  \<^item> Database and process: migration and models create the same schema, and downgrading undoes it; stored
    rows fit their columns; the migrations set up the database the program uses; settings come from the environment before the file; nothing is served before
    what it needs is there; the shutdown closes everything.
  \<^item> Some properties state behaviour that is not what the program means to do, where the model showed it:
    a probe slot lost in a crash, a slot lost to an unexpected exception or to the deletion of a
    message in flight, an accepted message that is lost to an id used again, a refused peer that goes on,
    a log level that the libraries never see, a start that waits for ever.

  Bounds

  Integers are unbounded, as in Python, and addresses are words. Rounding is exact on the integers up to
  \<open>2 ^ 53\<close>; the theorem on the retry delay assumes that twice the maximal delay is below it. Years have four digits in
  period keys and spool paths. Strings are sequences of characters below 256. The failover loop has its own
  bound (\<open>failover_per_tick\<close>) as fuel, as in the source; the loops that may not end (\<open>wait_started\<close>,
  \<open>browse\<close>) are partial functions, and that \<open>browse\<close> ends is proved.

  Parameters

  Third-party code is an argument of the definitions that call it: \<open>aiosmtplib.send\<close>, argon2,
  \<open>secrets\<close>, the cookie serializer, \<open>parseaddr\<close> and the header parser, \<open>uuid4\<close>, the YAML reader and the merge of
  \<open>pydantic_settings\<close>, uvicorn's report that it has started, Alembic, and the failures of the file system and the database. Named
  predicates state what the theorems take from their documentation: \<open>argon2_ok\<close>, \<open>serializer_ok\<close>,
  \<open>query_env_ok\<close> and \<open>scans\<close> (a query returns the rows in some order), \<open>smtp_only\<close> (the client raises
  only its own exceptions), \<open>merge_ok\<close>, \<open>url_env_ok\<close>, \<open>alembic_ok\<close> (\<open>upgrade head\<close> over one revision). The order in which aiosmtpd calls the hooks is part of
  \<open>Sessions\<close>; that a spool file's name is new is a guard of its step.

  Not modelled

  \<^item> Log lines and latency histograms: output that nothing reads back. The Prometheus registry is
    third-party; the counters and gauges the program sets are in the model.
  \<^item> \<open>runtime.py\<close> and the constructors that only store their arguments: the world and the parameters of
    the operations stand for these references.
  \<^item> The HTML templates and scripts of the dashboard: not Python; a page is its template's context.
  \<^item> The words of the command lines: \<open>argparse\<close> turns them into the arguments of \<open>main_run\<close> and into a \<open>command\<close>.
    The section of \<open>alembic.ini\<close> that sets up Alembic's own logging.
  \<^item> What holds after a request has deleted a message in flight: \<open>Live_System\<close> excludes these requests,
    because they break its invariant; \<open>Races\<close> has the two ways in which they do. Two processes on one
    database other than the server and its administration tool.

  With these exceptions every part of the program that keeps or changes state is modelled.
\<close>

end
